(* ===== verification/Prelude.thy ===== *)
theory Prelude
  imports
    Main
    "HOL-Library.Char_ord"
    "HOL-Library.List_Lexorder"
    "HOL-Library.Product_Lexorder"
begin

text \<open>
  What every component of the model shares: the names of the identifier types, the sequencing of
  statements that may fail, and tables as lists of rows together with the two statements the code
  runs on them (\<open>update ... where\<close> and \<open>delete ... where\<close>).

  Identifiers (order ids, mutation ids, event ids, terminal and restaurant ids) are strings in the
  program and strings here. Instants are natural numbers, milliseconds since the epoch; the code's
  \<open>now()\<close> and \<open>Date.now()\<close> are arguments of the operations that read them. JavaScript numbers that
  carry money, quantities and versions are integers; PostgreSQL stores them in \<open>integer\<close> columns,
  whose range is \<open>int4\<close> below.
\<close>

section \<open>Names of the shared types\<close>

type_synonym uuid = string
type_synonym tenant = string
type_synonym millis = nat

section \<open>Collections of facts\<close>

named_theorems tx_defs "definitions of the statements a transaction is made of"
named_theorems table_simps "how the table operations act on keys, members and filters"
named_theorems model_splits "splits of the case distinctions of the model"

section \<open>PostgreSQL integer columns\<close>

text \<open>A value outside the range makes the statement fail, which rolls the transaction back.\<close>

definition int4 :: "int \<Rightarrow> bool" where
  "int4 x \<longleftrightarrow> - 2147483648 \<le> x \<and> x \<le> 2147483647"

section \<open>Statements that may fail, in sequence\<close>

text \<open>
  A statement returns \<open>Inl e\<close> when it raises \<open>e\<close> and \<open>Inr x\<close> when it succeeds; \<open>and_then\<close> runs the
  next statement on a success and passes an error through, as an exception does.
\<close>

definition and_then :: "'e + 'a \<Rightarrow> ('a \<Rightarrow> 'e + 'b) \<Rightarrow> 'e + 'b" where
  "and_then r f = (case r of Inl e \<Rightarrow> Inl e | Inr x \<Rightarrow> f x)"

lemma and_then_simps [simp]:
  "and_then (Inl e) f = Inl e"
  "and_then (Inr x) f = f x"
  by (simp_all add: and_then_def)

lemma and_then_Inr_iff: "and_then r f = Inr y \<longleftrightarrow> (\<exists>x. r = Inr x \<and> f x = Inr y)"
  by (cases r) auto

lemma and_then_Inl_iff:
  "and_then r f = Inl e \<longleftrightarrow> r = Inl e \<or> (\<exists>x. r = Inr x \<and> f x = Inl e)"
  by (cases r) auto

lemma and_then_assoc: "and_then (and_then r f) g = and_then r (\<lambda>x. and_then (f x) g)"
  by (cases r) auto

lemma and_then_cong [fundef_cong]:
  "r = r' \<Longrightarrow> (\<And>x. r' = Inr x \<Longrightarrow> f x = g x) \<Longrightarrow> and_then r f = and_then r' g"
  by (cases r') auto

text \<open>\<open>guard_that b e\<close> raises \<open>e\<close> unless \<open>b\<close> holds.\<close>

definition guard_that :: "bool \<Rightarrow> 'e \<Rightarrow> 'e + unit" where
  "guard_that b e = (if b then Inr () else Inl e)"

lemma guard_that_Inr [simp]: "guard_that b e = Inr u \<longleftrightarrow> b"
  by (simp add: guard_that_def)

lemma guard_that_Inl [simp]: "guard_that b e = Inl e' \<longleftrightarrow> \<not> b \<and> e' = e"
  by (auto simp: guard_that_def)

section \<open>Tables as lists of rows\<close>

definition update_where :: "('r \<Rightarrow> bool) \<Rightarrow> ('r \<Rightarrow> 'r) \<Rightarrow> 'r list \<Rightarrow> 'r list" where
  "update_where P f rows = map (\<lambda>r. if P r then f r else r) rows"

definition delete_where :: "('r \<Rightarrow> bool) \<Rightarrow> 'r list \<Rightarrow> 'r list" where
  "delete_where P rows = filter (\<lambda>r. \<not> P r) rows"

lemma update_where_Nil [simp]: "update_where P f [] = []"
  by (simp add: update_where_def)

lemma update_where_Cons [simp]:
  "update_where P f (r # rs) = (if P r then f r else r) # update_where P f rs"
  by (simp add: update_where_def)

lemma update_where_append [simp]:
  "update_where P f (rs @ ss) = update_where P f rs @ update_where P f ss"
  by (simp add: update_where_def)

lemma length_update_where [simp]: "length (update_where P f rows) = length rows"
  by (simp add: update_where_def)

lemma update_where_none [table_simps]:
  "(\<And>r. r \<in> set rows \<Longrightarrow> \<not> P r) \<Longrightarrow> update_where P f rows = rows"
  by (induction rows) auto

lemma in_set_update_where:
  "x \<in> set (update_where P f rows) \<longleftrightarrow>
     (\<exists>r \<in> set rows. (P r \<and> x = f r) \<or> (\<not> P r \<and> x = r))"
  by (auto simp: update_where_def)

lemma update_where_memI: "r \<in> set rows \<Longrightarrow> P r \<Longrightarrow> f r \<in> set (update_where P f rows)"
  by (auto simp: update_where_def)

lemma update_where_keepI: "r \<in> set rows \<Longrightarrow> \<not> P r \<Longrightarrow> r \<in> set (update_where P f rows)"
  by (force simp: update_where_def)

lemma update_where_memE:
  assumes "x \<in> set (update_where P f rows)"
  obtains r where "r \<in> set rows" and "P r" and "x = f r" | "x \<in> set rows" and "\<not> P x"
  using assms by (auto simp: update_where_def split: if_splits)

lemma map_update_where [table_simps]:
  "(\<And>r. r \<in> set rows \<Longrightarrow> P r \<Longrightarrow> k (f r) = k r) \<Longrightarrow> map k (update_where P f rows) = map k rows"
  by (induction rows) auto

lemma filter_update_where [table_simps]:
  "(\<And>r. r \<in> set rows \<Longrightarrow> P r \<Longrightarrow> Q (f r) = Q r) \<Longrightarrow>
     filter Q (update_where P f rows) = update_where P f (filter Q rows)"
  by (induction rows) auto

lemma delete_where_Nil [simp]: "delete_where P [] = []"
  by (simp add: delete_where_def)

lemma delete_where_Cons [simp]:
  "delete_where P (r # rs) = (if P r then delete_where P rs else r # delete_where P rs)"
  by (simp add: delete_where_def)

lemma set_delete_where [simp]: "set (delete_where P rows) = {r \<in> set rows. \<not> P r}"
  by (auto simp: delete_where_def)

lemma filter_delete_where [table_simps]:
  "filter Q (delete_where P rows) = delete_where P (filter Q rows)"
  by (simp add: delete_where_def conj_commute)

lemma distinct_map_delete_where:
  "distinct (map k rows) \<Longrightarrow> distinct (map k (delete_where P rows))"
  by (induction rows) auto

lemma delete_where_none: "(\<And>r. r \<in> set rows \<Longrightarrow> \<not> P r) \<Longrightarrow> delete_where P rows = rows"
  by (induction rows) auto

text \<open>An update by unique key replaces one row.\<close>

lemma sum_list_update_where_unique:
  fixes g :: "'r \<Rightarrow> nat"
  assumes "distinct (map k rows)" and "r \<in> set rows"
  shows "sum_list (map g (update_where (\<lambda>x. k x = k r) f rows)) + g r = sum_list (map g rows) + g (f r)"
  using assms
proof (induction rows)
  case (Cons a rows)
  show ?case
  proof (cases "k a = k r")
    case True
    have "r \<notin> set rows \<or> a = r" using Cons.prems(1) True by (auto simp: image_iff)
    then have "a = r" using Cons.prems True by auto
    moreover have "update_where (\<lambda>x. k x = k r) f rows = rows"
      using Cons.prems(1) \<open>a = r\<close> by (intro update_where_none) (auto simp: image_iff)
    ultimately show ?thesis by simp
  next
    case False
    then have "r \<in> set rows" using Cons.prems(2) by auto
    then show ?thesis using Cons.IH Cons.prems(1) False by simp
  qed
qed simp

text \<open>Reading a row by its key, where the key is unique.\<close>

lemma find_Some_in: "find P rows = Some r \<Longrightarrow> r \<in> set rows \<and> P r"
  by (induction rows) (auto split: if_splits)

lemma find_None_iff_not: "find P rows = None \<longleftrightarrow> (\<forall>r \<in> set rows. \<not> P r)"
  by (induction rows) auto

lemma find_key_unique:
  "distinct (map k rows) \<Longrightarrow> r \<in> set rows \<Longrightarrow> find (\<lambda>x. k x = k r) rows = Some r"
  by (induction rows) (auto simp: image_iff)

lemma distinct_map_eqD:
  "distinct (map k rows) \<Longrightarrow> r \<in> set rows \<Longrightarrow> s \<in> set rows \<Longrightarrow> k r = k s \<Longrightarrow> r = s"
  by (auto simp: distinct_map inj_on_def)

lemma least_by_key:
  fixes f :: "'a \<Rightarrow> 'k::linorder"
  assumes "x \<in> set xs" and "P x"
  obtains q where "q \<in> set xs" and "P q" and "\<And>y. y \<in> set xs \<Longrightarrow> P y \<Longrightarrow> \<not> f y < f q"
proof -
  let ?S = "{y \<in> set xs. P y}"
  have fin: "finite (f ` ?S)" "f ` ?S \<noteq> {}" using assms by auto
  have "Min (f ` ?S) \<in> f ` ?S" by (rule Min_in [OF fin])
  then show thesis
  proof (rule imageE)
    fix q assume q: "Min (f ` ?S) = f q" "q \<in> ?S"
    have "\<not> f y < f q" if "y \<in> set xs" "P y" for y
    proof -
      have "f y \<in> f ` ?S" using that by blast
      from Min_le [OF fin(1) this] q(1) show ?thesis by (simp add: not_less)
    qed
    then show thesis using that [of q] q(2) by simp
  qed
qed

section \<open>Sorting by a key is stable under the operations the code runs\<close>

lemma sort_key_map_same:
  "(\<And>r. k (f r) = k r) \<Longrightarrow> sort_key k (map f rows) = map f (sort_key k rows)"
proof (induction rows)
  case Nil
  show ?case by simp
next
  case (Cons r rows)
  have "insort_key k (f r) (map f xs) = map f (insort_key k r xs)" for xs
    using Cons.prems by (induction xs) auto
  then show ?case using Cons by simp
qed

lemma sum_list_map_insort: "sum_list (map g (insort_key k x xs)) = g x + sum_list (map g xs)"
  for g :: "'a \<Rightarrow> int"
  by (induction xs) auto

lemma sum_list_map_sort_key: "sum_list (map g (sort_key k xs)) = sum_list (map g xs)"
  for g :: "'a \<Rightarrow> int"
  by (induction xs) (auto simp: sum_list_map_insort)

lemma distinct_map_insort: "distinct (map g (insort_key k x xs)) = distinct (map g (x # xs))"
  by (induction xs) (auto simp: set_insort_key)

lemma distinct_map_sort_key: "distinct (map g (sort_key k xs)) = distinct (map g xs)"
  by (induction xs) (auto simp: distinct_map_insort)

end
