(* ===== verification/Contracts.thy ===== *)
theory Contracts
  imports Prelude "HOL-Library.Word"
begin

text \<open>
  The wire contract of \<open>packages/contracts/src/index.ts\<close>: statuses, mutations, events, snapshots and
  responses, with the source's names (record fields carry a short prefix, because a field of an
  Isabelle record is a global name), and the two pure functions the contract exports: the rollout
  bucket of a feature flag (FNV-1a over 32-bit words) and the largest honourable publish delay.
\<close>

unbundle bit_operations_syntax

section \<open>Statuses, mutations, events\<close>

datatype order_status = OPEN | SENT_TO_KITCHEN | PREPARING | READY | PAID | CANCELLED

definition ORDER_STATUSES :: "order_status list" where
  "ORDER_STATUSES = [OPEN, SENT_TO_KITCHEN, PREPARING, READY, PAID, CANCELLED]"

datatype mutation_type =
    CREATE_ORDER | ADD_ITEM | REMOVE_ITEM | CHANGE_QUANTITY | SEND_TO_KITCHEN
  | START_PREPARING | MARK_READY | PAY | CANCEL

datatype event_type =
    OrderCreated | OrderItemAdded | OrderItemRemoved | OrderQuantityChanged | OrderSentToKitchen
  | OrderPreparing | OrderReady | OrderPaid | OrderCancelled

text \<open>Events travel with their type as a string; a consumer may meet one this build does not know.\<close>

fun event_type_name :: "event_type \<Rightarrow> string" where
  "event_type_name OrderCreated = ''OrderCreated''"
| "event_type_name OrderItemAdded = ''OrderItemAdded''"
| "event_type_name OrderItemRemoved = ''OrderItemRemoved''"
| "event_type_name OrderQuantityChanged = ''OrderQuantityChanged''"
| "event_type_name OrderSentToKitchen = ''OrderSentToKitchen''"
| "event_type_name OrderPreparing = ''OrderPreparing''"
| "event_type_name OrderReady = ''OrderReady''"
| "event_type_name OrderPaid = ''OrderPaid''"
| "event_type_name OrderCancelled = ''OrderCancelled''"

lemma event_type_name_inj [simp]: "event_type_name a = event_type_name b \<longleftrightarrow> a = b"
  by (cases a; cases b) simp_all

text \<open>\<open>CARD\<close> is a keyword of the library's cardinality syntax, hence the suffix.\<close>

datatype payment_method = CASH | CARD'

datatype conflict_reason =
    ORDER_VERSION_CONFLICT | ORDER_CANCELLED | ORDER_ALREADY_PAID | ORDER_ALREADY_SENT_TO_KITCHEN
  | ORDER_ALREADY_EXISTS | INVALID_STATUS_TRANSITION | ITEM_NOT_IN_ORDER

text \<open>
  The statuses in the order the contract declares them, which is also the order of the PostgreSQL
  enum generated from it.
\<close>

fun status_rank :: "order_status \<Rightarrow> nat" where
  "status_rank OPEN = 0"
| "status_rank SENT_TO_KITCHEN = 1"
| "status_rank PREPARING = 2"
| "status_rank READY = 3"
| "status_rank PAID = 4"
| "status_rank CANCELLED = 5"

lemma status_rank_inj: "status_rank a = status_rank b \<Longrightarrow> a = b"
  by (cases a; cases b) simp_all

instantiation order_status :: linorder
begin

definition less_eq_order_status :: "order_status \<Rightarrow> order_status \<Rightarrow> bool" where
  "less_eq_order_status a b \<longleftrightarrow> status_rank a \<le> status_rank b"

definition less_order_status :: "order_status \<Rightarrow> order_status \<Rightarrow> bool" where
  "less_order_status a b \<longleftrightarrow> status_rank a < status_rank b"

instance
  by standard
    (auto simp: less_eq_order_status_def less_order_status_def intro: status_rank_inj)

end

lemma ORDER_STATUSES_sorted: "sorted ORDER_STATUSES \<and> distinct ORDER_STATUSES \<and> set ORDER_STATUSES = UNIV"
proof -
  have "s \<in> set ORDER_STATUSES" for s
    by (cases s) (simp_all add: ORDER_STATUSES_def)
  then show ?thesis
    by (auto simp: ORDER_STATUSES_def less_eq_order_status_def)
qed

section \<open>Orders\<close>

record order_item =
  item_productId :: string
  item_name :: string
  item_quantity :: int
  item_unitPriceCents :: int

record order_snapshot =
  snap_id :: uuid
  snap_restaurantId :: tenant
  snap_tableNumber :: string
  snap_status :: order_status
  snap_version :: int
  snap_totalCents :: int
  snap_items :: "order_item list"
  snap_createdAt :: millis
  snap_updatedAt :: millis

record menu_item =
  menu_id :: string
  menu_name :: string
  menu_priceCents :: int

text \<open>The payload interfaces of the events, one constructor per interface.\<close>

datatype event_payload =
    OrderCreatedPayload uuid string order_status int
  | OrderItemAddedPayload uuid string string int int int
  | OrderItemRemovedPayload uuid string int
  | OrderQuantityChangedPayload uuid string int int
  | OrderSentToKitchenPayload uuid string "order_item list" int
  | OrderStatusChangedPayload uuid string order_status
  | OrderPaidPayload uuid int payment_method

record domain_event =
  ev_eventId :: uuid
  ev_eventType :: string
  ev_aggregateId :: uuid
  ev_restaurantId :: tenant
  ev_version :: int
  ev_occurredAt :: millis
  ev_traceId :: "string option"
  ev_payload :: event_payload

section \<open>Mutations and their responses\<close>

text \<open>
  The tagged union of a mutation type and its payload: what the discriminated schema at the boundary
  accepts, what the handler's \<open>toCommand\<close> rebuilds, and what \<open>decide\<close> receives as
  \<open>MutationCommand\<close>.
\<close>

datatype mutation_command =
    CreateOrder string
  | AddItem string int
  | RemoveItem string
  | ChangeQuantity string int
  | SendToKitchen
  | StartPreparing
  | MarkReady
  | Pay payment_method
  | Cancel "string option"

fun mutation_type_of :: "mutation_command \<Rightarrow> mutation_type" where
  "mutation_type_of (CreateOrder _) = CREATE_ORDER"
| "mutation_type_of (AddItem _ _) = ADD_ITEM"
| "mutation_type_of (RemoveItem _) = REMOVE_ITEM"
| "mutation_type_of (ChangeQuantity _ _) = CHANGE_QUANTITY"
| "mutation_type_of SendToKitchen = SEND_TO_KITCHEN"
| "mutation_type_of StartPreparing = START_PREPARING"
| "mutation_type_of MarkReady = MARK_READY"
| "mutation_type_of (Pay _) = PAY"
| "mutation_type_of (Cancel _) = CANCEL"

lemma mutation_type_of_create [simp]:
  "mutation_type_of c = CREATE_ORDER \<longleftrightarrow> (\<exists>t. c = CreateOrder t)"
  by (cases c) auto

datatype conflict_resolution = DISCARDED | REBASED

text \<open>\<open>MutationRequest\<close>: the body of a mutation.\<close>

record mutation_request =
  mr_mutationId :: uuid
  mr_terminalId :: string
  mr_restaurantId :: tenant
  mr_baseVersion :: int
  mr_command :: mutation_command

datatype mutation_response =
    APPLIED order_snapshot int
  | ALREADY_APPLIED order_snapshot int
  | CONFLICT_RESPONSE conflict_reason int int order_snapshot
  | MUTATION_ID_REUSED
  | REJECTED

text \<open>The closed list of codes the error envelope may carry.\<close>

datatype api_error_code =
    VALIDATION_FAILED | ORDER_NOT_FOUND | PRODUCT_NOT_FOUND | ROUTE_NOT_FOUND
  | PRINTER_OFFLINE | INTERNAL_ERROR

text \<open>What \<open>z.number().int()\<close> accepts: JavaScript's safe integers.\<close>

definition safe_int :: "int \<Rightarrow> bool" where
  "safe_int x \<longleftrightarrow> \<bar>x\<bar> \<le> 9007199254740991"

section \<open>Feature-flag rollout\<close>

definition fnv_offset :: "32 word" where "fnv_offset = 0x811c9dc5"
definition fnv_prime :: "32 word" where "fnv_prime = 0x01000193"

definition fnv_step :: "32 word \<Rightarrow> char \<Rightarrow> 32 word" where
  "fnv_step hash c = (hash XOR of_char c) * fnv_prime"

definition flagBucket :: "string \<Rightarrow> tenant \<Rightarrow> nat" where
  "flagBucket key restaurantId =
     nat (uint (fold (\<lambda>c h. fnv_step h c) (key @ '':'' @ restaurantId) fnv_offset) mod 100)"

definition flagAppliesTo :: "string \<Rightarrow> tenant \<Rightarrow> bool \<Rightarrow> int \<Rightarrow> bool" where
  "flagAppliesTo key restaurantId enabled rolloutPercent \<longleftrightarrow>
     enabled \<and> int (flagBucket key restaurantId) < rolloutPercent"

lemma flagBucket_bound: "flagBucket key r < 100"
  by (simp add: flagBucket_def)


section \<open>The publish delay a lease can honour\<close>

text \<open>
  \<open>Math.floor(leaseMs * (1 - 0.1) / 2)\<close>. The nearest double of \<open>0.9\<close> times an integer lease rounds to
  the exact product whenever that product is an integer, so the floor is the integer quotient.
\<close>

definition maxPublishDelayMs :: "nat \<Rightarrow> nat" where
  "maxPublishDelayMs leaseMs = (leaseMs * 9) div 20"

lemma maxPublishDelayMs_half_budget: "20 * maxPublishDelayMs leaseMs \<le> 9 * leaseMs"
  by (simp add: maxPublishDelayMs_def)

section \<open>Terminals\<close>

datatype terminal_profile = dining | bar

record terminal_descriptor =
  terminal_id :: string
  terminal_restaurantId :: tenant
  terminal_label :: string
  terminal_profile_of :: terminal_profile

definition TERMINALS :: "terminal_descriptor list" where
  "TERMINALS =
     [\<lparr>terminal_id = ''pos-1'', terminal_restaurantId = ''demo-restaurant'',
       terminal_label = ''POS-1'', terminal_profile_of = dining\<rparr>,
      \<lparr>terminal_id = ''pos-2'', terminal_restaurantId = ''demo-restaurant'',
       terminal_label = ''POS-2'', terminal_profile_of = dining\<rparr>,
      \<lparr>terminal_id = ''bar-1'', terminal_restaurantId = ''demo-restaurant'',
       terminal_label = ''BAR-1'', terminal_profile_of = bar\<rparr>,
      \<lparr>terminal_id = ''pos-3'', terminal_restaurantId = ''second-restaurant'',
       terminal_label = ''POS-3'', terminal_profile_of = dining\<rparr>]"

definition BAR_MENU :: "string list" where
  "BAR_MENU = [''cola'', ''coffee'', ''draft-beer'', ''house-red'', ''house-white'', ''sparkling-water'']"

definition KITCHEN_TERMINAL_ID :: string where
  "KITCHEN_TERMINAL_ID = ''kitchen-display''"

definition findTerminal :: "string \<Rightarrow> terminal_descriptor option" where
  "findTerminal terminalId = find (\<lambda>t. terminal_id t = terminalId) TERMINALS"

lemma findTerminal_own_id: "findTerminal t = Some d \<Longrightarrow> terminal_id d = t"
  by (auto simp: findTerminal_def dest: find_Some_in)

end
