(* ===== verification/Domain_Rules.thy ===== *)
theory Domain_Rules
  imports Contracts
begin

text \<open>
  The rules of the order aggregate, \<open>packages/domain/src\<close>: the lifecycle table of \<open>status.ts\<close>, the
  total of \<open>pricing.ts\<close> and \<open>decide\<close> of \<open>decide.ts\<close>, which the API and the browser both call.
  \<open>decide\<close> answers for every pair of an order and a command; the one exception it throws (a command
  other than \<open>CREATE_ORDER\<close> with no order) is a value of \<open>decide_error\<close>.

  The abstract specification is \<open>accepts\<close>, \<open>satisfied\<close> and \<open>outcome_status\<close>: when a command may
  apply, when its intent already holds, and where it leaves the order. The lifecycle is also given
  as an inductive step relation, whose steps strictly increase the status order.
\<close>

section \<open>The lifecycle\<close>

fun ALLOWED_TRANSITIONS :: "order_status \<Rightarrow> order_status list" where
  "ALLOWED_TRANSITIONS OPEN = [SENT_TO_KITCHEN, PAID, CANCELLED]"
| "ALLOWED_TRANSITIONS SENT_TO_KITCHEN = [PREPARING, CANCELLED]"
| "ALLOWED_TRANSITIONS PREPARING = [READY, CANCELLED]"
| "ALLOWED_TRANSITIONS READY = [PAID, CANCELLED]"
| "ALLOWED_TRANSITIONS PAID = []"
| "ALLOWED_TRANSITIONS CANCELLED = []"

definition isValidTransition :: "order_status \<Rightarrow> order_status \<Rightarrow> bool" where
  "isValidTransition s t \<longleftrightarrow> t \<in> set (ALLOWED_TRANSITIONS s)"

definition isTerminalStatus :: "order_status \<Rightarrow> bool" where
  "isTerminalStatus s \<longleftrightarrow> length (ALLOWED_TRANSITIONS s) = 0"

section \<open>Pricing\<close>

definition line_total :: "order_item \<Rightarrow> int" where
  "line_total i = item_quantity i * item_unitPriceCents i"

definition calculateTotalCents :: "order_item list \<Rightarrow> int" where
  "calculateTotalCents items = foldl (\<lambda>total i. total + line_total i) 0 items"

lemma foldl_line_total: "foldl (\<lambda>total i. total + line_total i) t items = t + sum_list (map line_total items)"
  by (induction items arbitrary: t) auto

lemma calculateTotalCents_sum: "calculateTotalCents items = sum_list (map line_total items)"
  by (simp add: calculateTotalCents_def foldl_line_total)

lemma calculateTotalCents_Nil [simp]: "calculateTotalCents [] = 0"
  by (simp add: calculateTotalCents_def)

section \<open>The decision\<close>

datatype decision =
    Apply order_status
  | AlreadyApplied
  | Conflict conflict_reason

text \<open>\<open>decide() requires an existing order for <type>\<close>\<close>

datatype decide_error = OrderRequired mutation_type

fun blockingStatusConflict :: "order_status \<Rightarrow> conflict_reason option" where
  "blockingStatusConflict CANCELLED = Some ORDER_CANCELLED"
| "blockingStatusConflict PAID = Some ORDER_ALREADY_PAID"
| "blockingStatusConflict _ = None"

definition decideTransition :: "order_status \<Rightarrow> order_status \<Rightarrow> decision" where
  "decideTransition s t =
     (if isValidTransition s t then Apply t else Conflict INVALID_STATUS_TRANSITION)"

text \<open>\<open>order.items.find((item) => item.productId === productId)\<close>\<close>

definition held_line :: "order_item list \<Rightarrow> string \<Rightarrow> order_item option" where
  "held_line items productId = find (\<lambda>i. item_productId i = productId) items"

text \<open>Called with the three item commands only, as its argument type says in the source.\<close>

fun decideItemChange :: "order_snapshot \<Rightarrow> mutation_command \<Rightarrow> decision" where
  "decideItemChange order command =
     (if snap_status order \<noteq> OPEN then Conflict ORDER_ALREADY_SENT_TO_KITCHEN
      else case command of
        AddItem _ _ \<Rightarrow> Apply (snap_status order)
      | RemoveItem p \<Rightarrow>
          (case held_line (snap_items order) p of
             None \<Rightarrow> AlreadyApplied
           | Some _ \<Rightarrow> Apply (snap_status order))
      | ChangeQuantity p _ \<Rightarrow>
          (case held_line (snap_items order) p of
             None \<Rightarrow> Conflict ITEM_NOT_IN_ORDER
           | Some _ \<Rightarrow> Apply (snap_status order))
      | _ \<Rightarrow> Apply (snap_status order))"

definition decide :: "order_snapshot option \<Rightarrow> mutation_command \<Rightarrow> decide_error + decision" where
  "decide order command =
     (case command of
        CreateOrder tableNumber \<Rightarrow>
          (case order of
             None \<Rightarrow> Inr (Apply OPEN)
           | Some o' \<Rightarrow>
               Inr (if snap_tableNumber o' = tableNumber then AlreadyApplied
                    else Conflict ORDER_ALREADY_EXISTS))
      | _ \<Rightarrow>
          (case order of
             None \<Rightarrow> Inl (OrderRequired (mutation_type_of command))
           | Some o' \<Rightarrow>
               Inr (case command of
                      Cancel _ \<Rightarrow>
                        (if snap_status o' = CANCELLED then AlreadyApplied
                         else if snap_status o' = PAID then Conflict ORDER_ALREADY_PAID
                         else Apply CANCELLED)
                    | _ \<Rightarrow>
                        (case blockingStatusConflict (snap_status o') of
                           Some blocked \<Rightarrow> Conflict blocked
                         | None \<Rightarrow>
                             (case command of
                                SendToKitchen \<Rightarrow>
                                  (if snap_status o' = OPEN then Apply SENT_TO_KITCHEN
                                   else Conflict ORDER_ALREADY_SENT_TO_KITCHEN)
                              | StartPreparing \<Rightarrow> decideTransition (snap_status o') PREPARING
                              | MarkReady \<Rightarrow> decideTransition (snap_status o') READY
                              | Pay _ \<Rightarrow> decideTransition (snap_status o') PAID
                              | _ \<Rightarrow> decideItemChange o' command)))))"

lemmas decide_defs = decide_def decideTransition_def isValidTransition_def

section \<open>What the rules promise\<close>

text \<open>When a command's intent already holds of the order.\<close>

fun satisfied :: "order_snapshot \<Rightarrow> mutation_command \<Rightarrow> bool" where
  "satisfied s (CreateOrder t) \<longleftrightarrow> snap_tableNumber s = t"
| "satisfied s (RemoveItem p) \<longleftrightarrow> snap_status s = OPEN \<and> p \<notin> item_productId ` set (snap_items s)"
| "satisfied s (Cancel _) \<longleftrightarrow> snap_status s = CANCELLED"
| "satisfied s _ \<longleftrightarrow> False"

text \<open>When a command may change the order.\<close>

fun accepts :: "order_snapshot \<Rightarrow> mutation_command \<Rightarrow> bool" where
  "accepts s (CreateOrder _) \<longleftrightarrow> False"
| "accepts s (AddItem _ _) \<longleftrightarrow> snap_status s = OPEN"
| "accepts s (RemoveItem p) \<longleftrightarrow> snap_status s = OPEN \<and> p \<in> item_productId ` set (snap_items s)"
| "accepts s (ChangeQuantity p _) \<longleftrightarrow> snap_status s = OPEN \<and> p \<in> item_productId ` set (snap_items s)"
| "accepts s SendToKitchen \<longleftrightarrow> snap_status s = OPEN"
| "accepts s StartPreparing \<longleftrightarrow> snap_status s = SENT_TO_KITCHEN"
| "accepts s MarkReady \<longleftrightarrow> snap_status s = PREPARING"
| "accepts s (Pay _) \<longleftrightarrow> snap_status s = OPEN \<or> snap_status s = READY"
| "accepts s (Cancel _) \<longleftrightarrow> snap_status s \<noteq> PAID \<and> snap_status s \<noteq> CANCELLED"

text \<open>Where an accepted command leaves the order.\<close>

fun outcome_status :: "order_status \<Rightarrow> mutation_command \<Rightarrow> order_status" where
  "outcome_status _ SendToKitchen = SENT_TO_KITCHEN"
| "outcome_status _ StartPreparing = PREPARING"
| "outcome_status _ MarkReady = READY"
| "outcome_status _ (Pay _) = PAID"
| "outcome_status _ (Cancel _) = CANCELLED"
| "outcome_status s _ = s"

lemma held_line_None: "held_line items p = None \<longleftrightarrow> p \<notin> item_productId ` set items"
  by (auto simp: held_line_def find_None_iff_not)

lemma held_line_Some: "held_line items p = Some i \<Longrightarrow> i \<in> set items \<and> item_productId i = p"
  by (auto simp: held_line_def dest: find_Some_in)

lemma held_line_is_Some: "(\<exists>i. held_line items p = Some i) \<longleftrightarrow> p \<in> item_productId ` set items"
  using held_line_None [of items p] by (cases "held_line items p") auto

lemma decide_missing_order:
  "decide None command =
     (case command of CreateOrder _ \<Rightarrow> Inr (Apply OPEN)
                    | _ \<Rightarrow> Inl (OrderRequired (mutation_type_of command)))"
  by (cases command) (simp_all add: decide_def)

lemma decide_Some_total: "\<exists>d. decide (Some s) command = Inr d"
  by (cases command) (simp_all add: decide_def)

lemma decide_apply_iff:
  "decide (Some s) command = Inr (Apply t) \<longleftrightarrow>
     accepts s command \<and> t = outcome_status (snap_status s) command"
  by (cases command; cases "snap_status s")
    (auto simp: decide_defs held_line_None held_line_is_Some split: option.splits)

lemma decide_already_iff:
  "decide (Some s) command = Inr AlreadyApplied \<longleftrightarrow> satisfied s command"
  by (cases command; cases "snap_status s")
    (auto simp: decide_defs held_line_None split: option.splits dest: held_line_Some)

section \<open>The lifecycle as a step relation\<close>

inductive status_step :: "order_status \<Rightarrow> order_status \<Rightarrow> bool" where
  status_step: "isValidTransition s t \<Longrightarrow> status_step s t"

inductive_simps status_step_simps: "status_step s t"
inductive_cases status_step_from_open: "status_step OPEN t"

lemma status_step_iff [simp]: "status_step s t \<longleftrightarrow> t \<in> set (ALLOWED_TRANSITIONS s)"
  by (simp add: status_step_simps isValidTransition_def)

lemma status_step_rank: "status_step s t \<Longrightarrow> s < t"
  by (cases s; cases t) (auto simp: less_order_status_def)

lemma status_steps_rank: "status_step\<^sup>*\<^sup>* s t \<Longrightarrow> s \<le> t"
  by (induction rule: rtranclp_induct)
    (auto dest!: status_step_rank [THEN less_imp_le] simp del: status_step_iff)

lemma isTerminalStatus_iff: "isTerminalStatus s \<longleftrightarrow> s = PAID \<or> s = CANCELLED"
  by (cases s) (simp_all add: isTerminalStatus_def)

lemma outcome_status_step:
  "accepts s command \<Longrightarrow>
     outcome_status (snap_status s) command = snap_status s \<and> snap_status s = OPEN
     \<or> status_step (snap_status s) (outcome_status (snap_status s) command)"
  by (cases command; cases "snap_status s") auto

section \<open>Properties\<close>

text \<open>
  C15. \<open>decide\<close> implements its specification on every order and every command. It answers
  \<open>apply\<close> exactly for an accepted command, with the status the lifecycle gives; \<open>already-applied\<close>
  exactly when the intent already holds; a conflict in every other case; and it throws only for a
  command other than \<open>CREATE_ORDER\<close> with no order.
\<close>

theorem decide_meets_specification:
  "decide order command =
     (case order of
        None \<Rightarrow> (case command of CreateOrder _ \<Rightarrow> Inr (Apply OPEN)
                                | _ \<Rightarrow> Inl (OrderRequired (mutation_type_of command)))
      | Some s \<Rightarrow>
          if satisfied s command then Inr AlreadyApplied
          else if accepts s command then Inr (Apply (outcome_status (snap_status s) command))
          else Inr (Conflict
            (case command of
               CreateOrder _ \<Rightarrow> ORDER_ALREADY_EXISTS
             | _ \<Rightarrow>
               if snap_status s = CANCELLED then ORDER_CANCELLED
               else if snap_status s = PAID then ORDER_ALREADY_PAID
               else (case command of
                       StartPreparing \<Rightarrow> INVALID_STATUS_TRANSITION
                     | MarkReady \<Rightarrow> INVALID_STATUS_TRANSITION
                     | Pay _ \<Rightarrow> INVALID_STATUS_TRANSITION
                     | ChangeQuantity _ _ \<Rightarrow>
                         if snap_status s = OPEN then ITEM_NOT_IN_ORDER
                         else ORDER_ALREADY_SENT_TO_KITCHEN
                     | _ \<Rightarrow> ORDER_ALREADY_SENT_TO_KITCHEN))))"
proof (cases order)
  case None
  then show ?thesis by (simp add: decide_missing_order)
next
  case (Some s)
  show ?thesis
    by (cases command; cases "snap_status s")
      (auto simp: Some decide_defs held_line_None split: option.splits dest: held_line_Some)
qed

text \<open>
  A command never moves an order backwards: whatever \<open>decide\<close> lets through either leaves an
  \<open>OPEN\<close> order \<open>OPEN\<close> or takes one step of the lifecycle table, and every step goes strictly up in
  the declared order of the statuses. A paid or a cancelled order therefore accepts nothing at all.
\<close>

lemma decide_follows_lifecycle:
  assumes "decide (Some s) command = Inr (Apply t)"
  shows "((t = OPEN \<and> snap_status s = OPEN)
      \<or> (isValidTransition (snap_status s) t \<and> snap_status s < t))
    \<and> \<not> isTerminalStatus (snap_status s)"
proof
  from assms have acc: "accepts s command" and t: "t = outcome_status (snap_status s) command"
    by (auto simp: decide_apply_iff)
  from outcome_status_step [OF acc] t
  show "(t = OPEN \<and> snap_status s = OPEN) \<or> (isValidTransition (snap_status s) t \<and> snap_status s < t)"
    using status_step_rank [of "snap_status s" t] by (auto simp: isValidTransition_def)
  from acc show "\<not> isTerminalStatus (snap_status s)"
    by (cases command) (auto simp: isTerminalStatus_iff)
qed

lemma decide_follows_lifecycle_example:
  "isValidTransition READY PAID \<and> \<not> isTerminalStatus READY"
proof -
  let ?s = "\<lparr>snap_id = ''o1'', snap_restaurantId = ''r'', snap_tableNumber = ''7'',
    snap_status = READY, snap_version = 4, snap_totalCents = 1200,
    snap_items = [], snap_createdAt = 0, snap_updatedAt = 0\<rparr>"
  have "decide (Some ?s) (Pay CARD') = Inr (Apply PAID)"
    by (simp add: decide_defs)
  from decide_follows_lifecycle [OF this] show ?thesis by simp
qed

end
