(* ===== verification/Order_Database.thy ===== *)
theory Order_Database
  imports Domain_Rules
begin

text \<open>
  The tables of \<open>packages/db/src/schema.ts\<close> that the order write path reads and writes, one record
  per row, and \<open>loadOrderSnapshot\<close>. Primary keys are the keys of the maps \<open>db_orders\<close> (by order id)
  and \<open>db_processed\<close> (by mutation id); \<open>order_items\<close> is kept per \<open>order_id\<close>; the other tables are
  lists in insertion order. Surrogate row ids that nothing reads (of \<open>order_items\<close>, \<open>payments\<close> and
  \<open>conflict_log\<close>) are left out; the id of an outbox row is the event id and is kept.

  \<open>loadOrderSnapshot\<close> runs two statements. Under READ COMMITTED each sees its own state of the
  database, so the model takes two: \<open>loadOrderSnapshot_at header lines\<close>.
\<close>

section \<open>Rows\<close>

record order_row =
  ord_restaurantId :: tenant
  ord_tableNumber :: string
  ord_status :: order_status
  ord_version :: int
  ord_totalCents :: int
  ord_createdAt :: millis
  ord_updatedAt :: millis

record item_row =
  line_item :: order_item
  line_createdAt :: millis
  line_updatedAt :: millis

record payment_row =
  pay_orderId :: uuid
  pay_mutationId :: uuid
  pay_amountCents :: int
  pay_method :: payment_method

record processed_row =
  pm_terminalId :: string
  pm_orderId :: uuid
  pm_requestHash :: string
  pm_order :: order_snapshot
  pm_serverVersion :: int

record outbox_row =
  ob_id :: uuid
  ob_aggregateId :: uuid
  ob_restaurantId :: tenant
  ob_eventType :: event_type
  ob_eventVersion :: int
  ob_payload :: event_payload
  ob_traceId :: "string option"
  ob_createdAt :: millis
  ob_publishedAt :: "millis option"
  ob_attemptCount :: nat
  ob_nextAttemptAt :: millis
  ob_lastError :: "string option"
  ob_deadLetteredAt :: "millis option"
  ob_claimedBy :: "string option"
  ob_claimUntil :: "millis option"
  ob_reclaimCount :: nat

record conflict_row =
  cl_orderId :: uuid
  cl_terminalId :: string
  cl_mutationId :: uuid
  cl_mutationType :: mutation_type
  cl_clientBaseVersion :: int
  cl_serverVersion :: int
  cl_serverStatus :: order_status
  cl_resolution :: "conflict_resolution option"

record db =
  db_restaurants :: "tenant list"
  db_products :: "menu_item list"
  db_orders :: "uuid \<Rightarrow> order_row option"
  db_items :: "uuid \<Rightarrow> item_row list"
  db_payments :: "payment_row list"
  db_processed :: "uuid \<Rightarrow> processed_row option"
  db_outbox :: "outbox_row list"
  db_conflicts :: "conflict_row list"

definition empty_db :: "tenant list \<Rightarrow> menu_item list \<Rightarrow> db" where
  "empty_db rs ps =
     \<lparr>db_restaurants = rs, db_products = ps, db_orders = (\<lambda>_. None), db_items = (\<lambda>_. []),
      db_payments = [], db_processed = (\<lambda>_. None), db_outbox = [], db_conflicts = []\<rparr>"

section \<open>The canonical view of an order\<close>

text \<open>\<open>order by created_at asc, product_id asc\<close>\<close>

definition line_order :: "item_row \<Rightarrow> millis \<times> string" where
  "line_order l = (line_createdAt l, item_productId (line_item l))"

definition snapshot_of :: "uuid \<Rightarrow> order_row \<Rightarrow> item_row list \<Rightarrow> order_snapshot" where
  "snapshot_of orderId r lines =
     \<lparr>snap_id = orderId, snap_restaurantId = ord_restaurantId r,
      snap_tableNumber = ord_tableNumber r, snap_status = ord_status r,
      snap_version = ord_version r, snap_totalCents = ord_totalCents r,
      snap_items = map line_item (sort_key line_order lines),
      snap_createdAt = ord_createdAt r, snap_updatedAt = ord_updatedAt r\<rparr>"

definition loadOrderSnapshot_at :: "db \<Rightarrow> db \<Rightarrow> uuid \<Rightarrow> order_snapshot option" where
  "loadOrderSnapshot_at header lines orderId =
     (case db_orders header orderId of
        None \<Rightarrow> None
      | Some r \<Rightarrow> Some (snapshot_of orderId r (db_items lines orderId)))"

definition loadOrderSnapshot :: "db \<Rightarrow> uuid \<Rightarrow> order_snapshot option" where
  "loadOrderSnapshot d orderId = loadOrderSnapshot_at d d orderId"

lemma snapshot_of_fields [simp]:
  "snap_id (snapshot_of o' r ls) = o'"
  "snap_restaurantId (snapshot_of o' r ls) = ord_restaurantId r"
  "snap_tableNumber (snapshot_of o' r ls) = ord_tableNumber r"
  "snap_status (snapshot_of o' r ls) = ord_status r"
  "snap_version (snapshot_of o' r ls) = ord_version r"
  "snap_totalCents (snapshot_of o' r ls) = ord_totalCents r"
  "snap_items (snapshot_of o' r ls) = map line_item (sort_key line_order ls)"
  by (simp_all add: snapshot_of_def)

lemma loadOrderSnapshot_None [simp]: "loadOrderSnapshot d o' = None \<longleftrightarrow> db_orders d o' = None"
  by (simp add: loadOrderSnapshot_def loadOrderSnapshot_at_def split: option.splits)

lemma loadOrderSnapshot_Some_iff:
  "loadOrderSnapshot d o' = Some s \<longleftrightarrow>
     (\<exists>r. db_orders d o' = Some r \<and> s = snapshot_of o' r (db_items d o'))"
  by (auto simp: loadOrderSnapshot_def loadOrderSnapshot_at_def split: option.splits)

lemma loadOrderSnapshot_at_Some_iff:
  "loadOrderSnapshot_at h l o' = Some s \<longleftrightarrow>
     (\<exists>r. db_orders h o' = Some r \<and> s = snapshot_of o' r (db_items l o'))"
  by (auto simp: loadOrderSnapshot_at_def split: option.splits)

section \<open>The total the lines add up to\<close>

definition line_cents :: "item_row \<Rightarrow> int" where
  "line_cents l = line_total (line_item l)"

definition lines_total :: "item_row list \<Rightarrow> int" where
  "lines_total ls = sum_list (map line_cents ls)"

lemma calculateTotalCents_snapshot [simp]:
  "calculateTotalCents (snap_items (snapshot_of o' r ls)) = lines_total ls"
proof -
  have "map line_total (map line_item (sort_key line_order ls)) = map line_cents (sort_key line_order ls)"
    by (simp add: line_cents_def)
  then show ?thesis
    by (simp add: calculateTotalCents_sum lines_total_def sum_list_map_sort_key del: map_map)
qed

abbreviation line_product :: "item_row \<Rightarrow> string" where
  "line_product l \<equiv> item_productId (line_item l)"

lemma snapshot_products [simp]:
  "item_productId ` set (snap_items (snapshot_of o' r ls)) = line_product ` set ls"
  by (auto simp: image_comp)

end
