(* ===== verification/Request_Hash.thy ===== *)
theory Request_Hash
  imports Contracts "HOL-Library.Multiset"
begin

text \<open>
  The request hash of \<open>apps/api/src/modules/orders/application/request-hash.ts\<close>: JSON values, the
  canonical form with the keys of every object sorted and the \<open>undefined\<close> entries dropped, its text
  as \<open>JSON.stringify\<close> writes it, and the hash over that text. SHA-256 is the parameter \<open>sha256\<close>: the
  code relies on it only as a function of the text.

  A JSON object is its list of entries in property order, with distinct keys. Keys that look like
  array indices, which JavaScript would move to the front, do not occur in these payloads.
\<close>

datatype json =
    JUndefined
  | JNull
  | JBool bool
  | JNum int
  | JStr string
  | JArr "json list"
  | JObj "(string \<times> json) list"

section \<open>The canonical form\<close>

definition defined_entries :: "(string \<times> json) list \<Rightarrow> (string \<times> json) list" where
  "defined_entries entries = filter (\<lambda>e. snd e \<noteq> JUndefined) entries"

lemma size_entry_less: "(k, v) \<in> set es \<Longrightarrow> size v < Suc (size_list (size_prod (\<lambda>_. 0) size) es)"
  by (induction es) auto

function (sequential) canonicalize :: "json \<Rightarrow> json" where
  "canonicalize (JArr xs) = JArr (map canonicalize xs)"
| "canonicalize (JObj entries) =
     JObj (map (\<lambda>e. (fst e, canonicalize (snd e))) (sort_key fst (defined_entries entries)))"
| "canonicalize v = v"
  by pat_completeness auto
termination
  by (relation "measure size")
    (auto simp: defined_entries_def less_Suc_eq_le size_list_estimation' dest: size_entry_less)

section \<open>The text\<close>

fun hex_digit :: "nat \<Rightarrow> char" where
  "hex_digit n = (''0123456789abcdef'' ! (n mod 16))"

definition escape_char :: "char \<Rightarrow> string" where
  "escape_char c =
     (let n = of_char c :: nat in
      if n = 34 then [CHR 0x5C, CHR 0x22]
      else if n = 92 then [CHR 0x5C, CHR 0x5C]
      else if n = 8 then [CHR 0x5C, CHR ''b'']
      else if n = 9 then [CHR 0x5C, CHR ''t'']
      else if n = 10 then [CHR 0x5C, CHR ''n'']
      else if n = 12 then [CHR 0x5C, CHR ''f'']
      else if n = 13 then [CHR 0x5C, CHR ''r'']
      else if n < 32 then [CHR 0x5C, CHR ''u'', CHR ''0'', CHR ''0'', hex_digit (n div 16), hex_digit n]
      else [c])"

definition quoted :: "string \<Rightarrow> string" where
  "quoted s = [CHR 0x22] @ concat (map escape_char s) @ [CHR 0x22]"

fun show_nat :: "nat \<Rightarrow> string" where
  "show_nat n = (if n < 10 then [''0123456789'' ! n] else show_nat (n div 10) @ [''0123456789'' ! (n mod 10)])"

declare show_nat.simps [simp del]

definition show_int :: "int \<Rightarrow> string" where
  "show_int i = (if i < 0 then ''-'' @ show_nat (nat (- i)) else show_nat (nat i))"

fun joined :: "string list \<Rightarrow> string" where
  "joined [] = ''''"
| "joined [s] = s"
| "joined (s # ss) = s @ '','' @ joined ss"

text \<open>
  \<open>JSON.stringify\<close>. An \<open>undefined\<close> array element is written as \<open>null\<close>; \<open>undefined\<close> entries of an
  object are left out (there are none in a canonical value).
\<close>

function (sequential) stringify :: "json \<Rightarrow> string" where
  "stringify JUndefined = ''null''"
| "stringify JNull = ''null''"
| "stringify (JBool b) = (if b then ''true'' else ''false'')"
| "stringify (JNum n) = show_int n"
| "stringify (JStr s) = quoted s"
| "stringify (JArr xs) = ''['' @ joined (map stringify xs) @ '']''"
| "stringify (JObj entries) =
     ''{'' @ joined (map (\<lambda>e. quoted (fst e) @ '':'' @ stringify (snd e)) (defined_entries entries)) @ ''}''"
  by pat_completeness auto
termination
  by (relation "measure size")
    (auto simp: defined_entries_def less_Suc_eq_le size_list_estimation' dest: size_entry_less)

section \<open>The request\<close>

fun mutation_type_name :: "mutation_type \<Rightarrow> string" where
  "mutation_type_name CREATE_ORDER = ''CREATE_ORDER''"
| "mutation_type_name ADD_ITEM = ''ADD_ITEM''"
| "mutation_type_name REMOVE_ITEM = ''REMOVE_ITEM''"
| "mutation_type_name CHANGE_QUANTITY = ''CHANGE_QUANTITY''"
| "mutation_type_name SEND_TO_KITCHEN = ''SEND_TO_KITCHEN''"
| "mutation_type_name START_PREPARING = ''START_PREPARING''"
| "mutation_type_name MARK_READY = ''MARK_READY''"
| "mutation_type_name PAY = ''PAY''"
| "mutation_type_name CANCEL = ''CANCEL''"

fun payment_method_name :: "payment_method \<Rightarrow> string" where
  "payment_method_name CASH = ''CASH''"
| "payment_method_name CARD' = ''CARD''"

text \<open>The payload object each branch of the boundary schema lets through.\<close>

fun payload_json :: "mutation_command \<Rightarrow> json" where
  "payload_json (CreateOrder t) = JObj [(''tableNumber'', JStr t)]"
| "payload_json (AddItem p q) = JObj [(''productId'', JStr p), (''quantity'', JNum q)]"
| "payload_json (RemoveItem p) = JObj [(''productId'', JStr p)]"
| "payload_json (ChangeQuantity p q) = JObj [(''productId'', JStr p), (''quantity'', JNum q)]"
| "payload_json (Pay m) = JObj [(''method'', JStr (payment_method_name m))]"
| "payload_json (Cancel r) =
     JObj [(''reason'', case r of None \<Rightarrow> JUndefined | Some s \<Rightarrow> JStr s)]"
| "payload_json _ = JObj []"

definition request_text :: "uuid \<Rightarrow> string \<Rightarrow> json \<Rightarrow> string" where
  "request_text orderId type payload =
     stringify (canonicalize
       (JObj [(''orderId'', JStr orderId), (''type'', JStr type), (''payload'', payload)]))"

definition requestHash :: "(string \<Rightarrow> string) \<Rightarrow> uuid \<Rightarrow> string \<Rightarrow> json \<Rightarrow> string" where
  "requestHash sha256 orderId type payload = sha256 (request_text orderId type payload)"

definition command_hash :: "(string \<Rightarrow> string) \<Rightarrow> uuid \<Rightarrow> mutation_command \<Rightarrow> string" where
  "command_hash sha256 orderId command =
     requestHash sha256 orderId (mutation_type_name (mutation_type_of command)) (payload_json command)"

section \<open>Equal requests\<close>

text \<open>
  Two JSON values say the same when one is obtained from the other by reordering the entries of an
  object and adding or dropping \<open>undefined\<close> entries, at any depth.
\<close>

inductive same_json :: "json \<Rightarrow> json \<Rightarrow> bool" where
  same_refl: "same_json v v"
| same_trans: "same_json u v \<Longrightarrow> same_json v w \<Longrightarrow> same_json u w"
| same_order: "distinct (map fst es) \<Longrightarrow> distinct (map fst fs) \<Longrightarrow> set es = set fs \<Longrightarrow>
     same_json (JObj es) (JObj fs)"
| same_drop: "same_json (JObj (es @ (k, JUndefined) # fs)) (JObj (es @ fs))"
| same_add: "same_json (JObj (es @ fs)) (JObj (es @ (k, JUndefined) # fs))"
| same_entry: "same_json u v \<Longrightarrow> u \<noteq> JUndefined \<Longrightarrow> v \<noteq> JUndefined \<Longrightarrow>
     same_json (JObj (es @ (k, u) # fs)) (JObj (es @ (k, v) # fs))"
| same_element: "same_json u v \<Longrightarrow> same_json (JArr (xs @ u # ys)) (JArr (xs @ v # ys))"

lemma defined_entries_append [simp]:
  "defined_entries (es @ fs) = defined_entries es @ defined_entries fs"
  by (simp add: defined_entries_def)

lemma defined_entries_Cons [simp]:
  "defined_entries ((k, v) # es) = (if v = JUndefined then [] else [(k, v)]) @ defined_entries es"
  by (simp add: defined_entries_def)

lemma sort_key_distinct_set:
  assumes "distinct (map k xs)" and "distinct (map k ys)" and "set xs = set ys"
  shows "sort_key k xs = sort_key k ys"
proof -
  have "inj_on k (set xs)" using assms(1) by (simp add: distinct_map)
  moreover have "mset xs = mset ys"
    using assms by (simp add: distinct_map set_eq_iff_mset_eq_distinct)
  ultimately show ?thesis
    by (metis properties_for_sort_key mset_sort sorted_sort_key sort_key_inj_key_eq)
qed

definition canonical_entry :: "string \<times> json \<Rightarrow> string \<times> json" where
  "canonical_entry e = (fst e, canonicalize (snd e))"

lemma fst_canonical_entry [simp]: "fst (canonical_entry e) = fst e"
  by (simp add: canonical_entry_def)

lemma canonicalize_object:
  "canonicalize (JObj es) = JObj (sort_key fst (map canonical_entry (defined_entries es)))"
proof -
  have "canonicalize (JObj es) = JObj (map canonical_entry (sort_key fst (defined_entries es)))"
    by (simp add: canonical_entry_def)
  then show ?thesis by (simp add: sort_key_map_same)
qed

lemma same_json_undefined: "same_json u v \<Longrightarrow> u = JUndefined \<longleftrightarrow> v = JUndefined"
  by (induction rule: same_json.induct) auto

lemma same_json_canonical: "same_json u v \<Longrightarrow> canonicalize u = canonicalize v"
proof (induction rule: same_json.induct)
  case (same_order es fs)
  have "sort_key fst (defined_entries es) = sort_key fst (defined_entries fs)"
    using same_order
    by (intro sort_key_distinct_set) (auto simp: defined_entries_def distinct_map_filter)
  then show ?case by simp
next
  case (same_entry u v es k fs)
  then show ?case
    by (simp add: canonicalize_object canonical_entry_def del: canonicalize.simps(2))
qed (simp_all add: canonicalize_object del: canonicalize.simps(2))

section \<open>Properties\<close>

text \<open>
  C16. The request hash depends on what the request says and not on how a client wrote it: two
  payloads that differ only in the order of their keys and in \<open>undefined\<close> entries, at any depth, have
  the same hash, so such a retry is never refused as a reused mutation id. For \<open>CANCEL\<close> this makes an
  absent reason and an undefined one the same request.
\<close>

theorem requestHash_ignores_key_order:
  assumes "same_json p q"
  shows "requestHash sha256 orderId type p = requestHash sha256 orderId type q"
proof -
  have "same_json (JObj [(''orderId'', JStr orderId), (''type'', JStr type), (''payload'', p)])
                  (JObj [(''orderId'', JStr orderId), (''type'', JStr type), (''payload'', q)])"
  proof (cases "p = JUndefined")
    case True
    then have "q = JUndefined" using assms same_json_undefined by blast
    with True show ?thesis by (simp add: same_json.same_refl)
  next
    case False
    then have "q \<noteq> JUndefined" using assms same_json_undefined by blast
    from same_json.same_entry [OF assms False this,
        of "[(''orderId'', JStr orderId), (''type'', JStr type)]" "''payload''" "[]"]
    show ?thesis by simp
  qed
  then have "request_text orderId type p = request_text orderId type q"
    unfolding request_text_def by (simp only: same_json_canonical)
  then show ?thesis by (simp add: requestHash_def)
qed

theorem requestHash_ignores_key_order_witness:
  "requestHash id ''o1'' ''ADD_ITEM'' (JObj [(''quantity'', JNum 2), (''productId'', JStr ''cola'')])
   = requestHash id ''o1'' ''ADD_ITEM'' (payload_json (AddItem ''cola'' 2))"
proof -
  have "same_json (JObj [(''quantity'', JNum 2), (''productId'', JStr ''cola'')])
                  (payload_json (AddItem ''cola'' 2))"
    unfolding payload_json.simps by (rule same_json.same_order) auto
  then show ?thesis by (rule requestHash_ignores_key_order)
qed

end
