(* ===== verification/Mutation_Handler.thy ===== *)
theory Mutation_Handler
  imports Order_Database Request_Hash
begin

text \<open>
  The one write path, \<open>apps/api/src/modules/orders/application/mutation-handler.ts\<close>, with
  \<open>record-conflict-resolution.ts\<close>. A thrown signal is a value of \<open>signal\<close>; a statement of the
  transaction returns either a signal, which rolls the transaction back, or the next state of the
  database.

  The reads of \<open>runMutation\<close> (the header and the lines of the order, then \<open>processed_mutations\<close>) come
  before its first write, so each may see an earlier committed state than the write does: they take
  their own states as arguments (\<open>runMutation_read\<close>). From the versioned UPDATE on, the transaction
  holds the row lock of its order, and every other writer of that order's rows takes that lock
  first; the write half (\<open>runMutation_write\<close>) therefore acts on one state, the latest committed one.
  \<open>applyMutation\<close> is the composition on a database nobody else is writing.

  \<open>toCommand\<close> joins the validated type and payload again; the input carries their union from the
  start. Random ids and \<open>now()\<close> come in \<open>tx_env\<close>.
\<close>

section \<open>Inputs, signals, replies\<close>

record mutation_input =
  in_orderId :: uuid
  in_mutationId :: uuid
  in_terminalId :: string
  in_restaurantId :: tenant
  in_baseVersion :: int
  in_command :: mutation_command
  in_traceId :: "string option"

record tx_env =
  tx_now :: millis
  tx_eventId :: uuid

text \<open>
  \<open>Unhandled\<close> is every other exception: a driver error such as an integer out of range or a missing
  foreign key, or one of the handler's own \<open>throw new Error\<close>.
\<close>

datatype signal =
    CrossTenantSignal
  | MutationIdReusedSignal
  | ConflictSignal conflict_reason
  | AlreadyAppliedSignal
  | ApiErrorSignal nat api_error_code
  | UniqueViolation string
  | Unhandled

record mutation_outcome =
  out_httpStatus :: nat
  out_body :: mutation_response

datatype failure = ApiFailure nat api_error_code | InternalFailure

fun EVENT_TYPE_BY_MUTATION :: "mutation_type \<Rightarrow> event_type" where
  "EVENT_TYPE_BY_MUTATION CREATE_ORDER = OrderCreated"
| "EVENT_TYPE_BY_MUTATION ADD_ITEM = OrderItemAdded"
| "EVENT_TYPE_BY_MUTATION REMOVE_ITEM = OrderItemRemoved"
| "EVENT_TYPE_BY_MUTATION CHANGE_QUANTITY = OrderQuantityChanged"
| "EVENT_TYPE_BY_MUTATION SEND_TO_KITCHEN = OrderSentToKitchen"
| "EVENT_TYPE_BY_MUTATION START_PREPARING = OrderPreparing"
| "EVENT_TYPE_BY_MUTATION MARK_READY = OrderReady"
| "EVENT_TYPE_BY_MUTATION PAY = OrderPaid"
| "EVENT_TYPE_BY_MUTATION CANCEL = OrderCancelled"

definition input_hash :: "(string \<Rightarrow> string) \<Rightarrow> mutation_input \<Rightarrow> string" where
  "input_hash sha256 input = command_hash sha256 (in_orderId input) (in_command input)"

section \<open>The statements of the write half\<close>

text \<open>
  \<open>update orders set version = version + 1, status = ..., updated_at = now()
  where id = ... and version = baseVersion\<close>
\<close>

definition guardedVersionBump ::
  "millis \<Rightarrow> db \<Rightarrow> mutation_input \<Rightarrow> order_status \<Rightarrow> signal + db" where
  "guardedVersionBump now d input nextStatus =
     (if \<not> int4 (in_baseVersion input) then Inl Unhandled
      else case db_orders d (in_orderId input) of
        None \<Rightarrow> Inl (ConflictSignal ORDER_VERSION_CONFLICT)
      | Some r \<Rightarrow>
          if ord_version r \<noteq> in_baseVersion input then Inl (ConflictSignal ORDER_VERSION_CONFLICT)
          else if \<not> int4 (ord_version r + 1) then Inl Unhandled
          else Inr (d\<lparr>db_orders := (db_orders d)(in_orderId input \<mapsto>
                 r\<lparr>ord_version := ord_version r + 1, ord_status := nextStatus,
                    ord_updatedAt := now\<rparr>)\<rparr>))"

text \<open>
  \<open>update orders set total_cents = (select coalesce(sum(quantity * unit_price_cents), 0) ...)\<close>: the
  products are of type \<open>integer\<close>, the sum is wider, and the column is \<open>integer\<close> again.
\<close>

definition recalculateTotal :: "db \<Rightarrow> uuid \<Rightarrow> signal + db" where
  "recalculateTotal d orderId =
     (let ls = db_items d orderId in
      if \<not> (\<forall>l \<in> set ls. int4 (line_cents l)) \<or> \<not> int4 (lines_total ls) then Inl Unhandled
      else case db_orders d orderId of
        None \<Rightarrow> Inr d
      | Some r \<Rightarrow> Inr (d\<lparr>db_orders := (db_orders d)(orderId \<mapsto> r\<lparr>ord_totalCents := lines_total ls\<rparr>)\<rparr>))"

text \<open>\<open>insert into order_items ... on conflict (order_id, product_id) do update\<close>\<close>

definition upsert_line :: "millis \<Rightarrow> menu_item \<Rightarrow> int \<Rightarrow> item_row list \<Rightarrow> item_row list" where
  "upsert_line now p q ls =
     (if menu_id p \<in> line_product ` set ls
      then update_where (\<lambda>l. line_product l = menu_id p)
             (\<lambda>l. l\<lparr>line_item := (line_item l)\<lparr>item_quantity := item_quantity (line_item l) + q\<rparr>,
                    line_updatedAt := now\<rparr>) ls
      else ls @ [\<lparr>line_item = \<lparr>item_productId = menu_id p, item_name = menu_name p,
                               item_quantity = q, item_unitPriceCents = menu_priceCents p\<rparr>,
                  line_createdAt = now, line_updatedAt = now\<rparr>])"

definition set_line_quantity :: "millis \<Rightarrow> string \<Rightarrow> int \<Rightarrow> item_row list \<Rightarrow> item_row list" where
  "set_line_quantity now productId q ls =
     update_where (\<lambda>l. line_product l = productId)
       (\<lambda>l. l\<lparr>line_item := (line_item l)\<lparr>item_quantity := q\<rparr>, line_updatedAt := now\<rparr>) ls"

definition quantities_int4 :: "item_row list \<Rightarrow> bool" where
  "quantities_int4 ls \<longleftrightarrow> (\<forall>l \<in> set ls. int4 (item_quantity (line_item l)))"

definition write_lines :: "db \<Rightarrow> uuid \<Rightarrow> item_row list \<Rightarrow> signal + db" where
  "write_lines d orderId ls =
     (if quantities_int4 ls then Inr (d\<lparr>db_items := (db_items d)(orderId := ls)\<rparr>) else Inl Unhandled)"

definition insert_payment :: "db \<Rightarrow> payment_row \<Rightarrow> signal + db" where
  "insert_payment d p =
     (if pay_mutationId p \<in> pay_mutationId ` set (db_payments d)
      then Inl (UniqueViolation ''payments_mutation_id_unique'')
      else Inr (d\<lparr>db_payments := db_payments d @ [p]\<rparr>))"

definition applyChange :: "tx_env \<Rightarrow> db \<Rightarrow> mutation_input \<Rightarrow> order_snapshot \<Rightarrow> signal + db" where
  "applyChange env d input current =
     (let orderId = in_orderId input; now = tx_now env; ls = db_items d orderId in
      case in_command input of
        AddItem productId q \<Rightarrow>
          (case find (\<lambda>p. menu_id p = productId) (db_products d) of
             None \<Rightarrow> Inl (ApiErrorSignal 400 PRODUCT_NOT_FOUND)
           | Some p \<Rightarrow>
               if \<not> int4 q then Inl Unhandled
               else and_then (write_lines d orderId (upsert_line now p q ls))
                      (\<lambda>d'. recalculateTotal d' orderId))
      | RemoveItem productId \<Rightarrow>
          and_then (write_lines d orderId (delete_where (\<lambda>l. line_product l = productId) ls))
            (\<lambda>d'. recalculateTotal d' orderId)
      | ChangeQuantity productId q \<Rightarrow>
          (if \<not> int4 q then Inl Unhandled
           else and_then (write_lines d orderId (set_line_quantity now productId q ls))
                  (\<lambda>d'. recalculateTotal d' orderId))
      | Pay payMethod \<Rightarrow>
          insert_payment d
            \<lparr>pay_orderId = orderId, pay_mutationId = in_mutationId input,
             pay_amountCents = snap_totalCents current, pay_method = payMethod\<rparr>
      | _ \<Rightarrow> Inr d)"

definition insert_order :: "millis \<Rightarrow> db \<Rightarrow> mutation_input \<Rightarrow> string \<Rightarrow> db" where
  "insert_order now d input tableNumber =
     d\<lparr>db_orders := (db_orders d)(in_orderId input \<mapsto>
         \<lparr>ord_restaurantId = in_restaurantId input, ord_tableNumber = tableNumber,
          ord_status = OPEN, ord_version = 1, ord_totalCents = 0,
          ord_createdAt = now, ord_updatedAt = now\<rparr>)\<rparr>"

definition load_own :: "db \<Rightarrow> uuid \<Rightarrow> signal + (db \<times> order_snapshot)" where
  "load_own d orderId =
     (case loadOrderSnapshot d orderId of None \<Rightarrow> Inl Unhandled | Some s \<Rightarrow> Inr (d, s))"

definition applyEffect ::
  "tx_env \<Rightarrow> db \<Rightarrow> mutation_input \<Rightarrow> order_status \<Rightarrow> order_snapshot option
     \<Rightarrow> signal + (db \<times> order_snapshot)" where
  "applyEffect env d input nextStatus current =
     (case in_command input of
        CreateOrder tableNumber \<Rightarrow>
          (case db_orders d (in_orderId input) of
             Some existing \<Rightarrow>
               if ord_restaurantId existing \<noteq> in_restaurantId input then Inl CrossTenantSignal
               else if ord_tableNumber existing = tableNumber then Inl AlreadyAppliedSignal
               else Inl (ConflictSignal ORDER_ALREADY_EXISTS)
           | None \<Rightarrow>
               if in_restaurantId input \<notin> set (db_restaurants d) then Inl Unhandled
               else load_own (insert_order (tx_now env) d input tableNumber) (in_orderId input))
      | _ \<Rightarrow>
          (case current of
             None \<Rightarrow> Inl Unhandled
           | Some cur \<Rightarrow>
               and_then (guardedVersionBump (tx_now env) d input nextStatus) (\<lambda>d1.
               and_then (applyChange env d1 input cur) (\<lambda>d2.
               load_own d2 (in_orderId input)))))"

definition eventPayload :: "mutation_command \<Rightarrow> order_snapshot \<Rightarrow> event_payload" where
  "eventPayload command order =
     (case command of
        CreateOrder _ \<Rightarrow>
          OrderCreatedPayload (snap_id order) (snap_tableNumber order) (snap_status order)
            (snap_totalCents order)
      | AddItem productId q \<Rightarrow>
          (case held_line (snap_items order) productId of
             None \<Rightarrow> OrderItemAddedPayload (snap_id order) productId productId q 0 (snap_totalCents order)
           | Some i \<Rightarrow> OrderItemAddedPayload (snap_id order) productId (item_name i) q
                        (item_unitPriceCents i) (snap_totalCents order))
      | RemoveItem productId \<Rightarrow> OrderItemRemovedPayload (snap_id order) productId (snap_totalCents order)
      | ChangeQuantity productId q \<Rightarrow>
          OrderQuantityChangedPayload (snap_id order) productId q (snap_totalCents order)
      | SendToKitchen \<Rightarrow>
          OrderSentToKitchenPayload (snap_id order) (snap_tableNumber order) (snap_items order)
            (snap_totalCents order)
      | Pay payMethod \<Rightarrow> OrderPaidPayload (snap_id order) (snap_totalCents order) payMethod
      | _ \<Rightarrow> OrderStatusChangedPayload (snap_id order) (snap_tableNumber order) (snap_status order))"

definition insert_processed ::
  "db \<Rightarrow> mutation_input \<Rightarrow> string \<Rightarrow> order_snapshot \<Rightarrow> signal + db" where
  "insert_processed d input hash order =
     (if db_processed d (in_mutationId input) \<noteq> None
      then Inl (UniqueViolation ''processed_mutations_pkey'')
      else Inr (d\<lparr>db_processed := (db_processed d)(in_mutationId input \<mapsto>
             \<lparr>pm_terminalId = in_terminalId input, pm_orderId = in_orderId input,
              pm_requestHash = hash, pm_order = order, pm_serverVersion = snap_version order\<rparr>)\<rparr>))"

definition new_event :: "tx_env \<Rightarrow> mutation_input \<Rightarrow> order_snapshot \<Rightarrow> outbox_row" where
  "new_event env input order =
     \<lparr>ob_id = tx_eventId env, ob_aggregateId = in_orderId input,
      ob_restaurantId = in_restaurantId input,
      ob_eventType = EVENT_TYPE_BY_MUTATION (mutation_type_of (in_command input)),
      ob_eventVersion = snap_version order, ob_payload = eventPayload (in_command input) order,
      ob_traceId = in_traceId input, ob_createdAt = tx_now env, ob_publishedAt = None,
      ob_attemptCount = 0, ob_nextAttemptAt = tx_now env, ob_lastError = None,
      ob_deadLetteredAt = None, ob_claimedBy = None, ob_claimUntil = None, ob_reclaimCount = 0\<rparr>"

definition insert_event :: "db \<Rightarrow> outbox_row \<Rightarrow> signal + db" where
  "insert_event d e =
     (if ob_id e \<in> ob_id ` set (db_outbox d) then Inl (UniqueViolation ''outbox_events_pkey'')
      else Inr (d\<lparr>db_outbox := db_outbox d @ [e]\<rparr>))"

section \<open>The mutation transaction\<close>

definition applied_outcome :: "order_snapshot \<Rightarrow> mutation_outcome" where
  "applied_outcome order = \<lparr>out_httpStatus = 200, out_body = APPLIED order (snap_version order)\<rparr>"

definition toAppliedOutcome :: "processed_row \<Rightarrow> mutation_outcome" where
  "toAppliedOutcome p =
     \<lparr>out_httpStatus = 200, out_body = ALREADY_APPLIED (pm_order p) (pm_serverVersion p)\<rparr>"

text \<open>
  The reads. The answer is a signal, or the stored result of this mutation, or the plan of the write
  half: the snapshot that was read and the status \<open>decide\<close> chose.
\<close>

definition runMutation_read ::
  "db \<Rightarrow> db \<Rightarrow> db \<Rightarrow> mutation_input \<Rightarrow> string
     \<Rightarrow> signal + (mutation_outcome + (order_snapshot option \<times> order_status))" where
  "runMutation_read header lines processed input hash =
     (let snapshot = loadOrderSnapshot_at header lines (in_orderId input) in
      if (case snapshot of None \<Rightarrow> False
                         | Some s \<Rightarrow> snap_restaurantId s \<noteq> in_restaurantId input)
      then Inl CrossTenantSignal
      else case db_processed processed (in_mutationId input) of
        Some p \<Rightarrow>
          if pm_requestHash p \<noteq> hash then Inl MutationIdReusedSignal
          else Inr (Inl (toAppliedOutcome p))
      | None \<Rightarrow>
          if mutation_type_of (in_command input) \<noteq> CREATE_ORDER \<and> snapshot = None
          then Inl (ApiErrorSignal 404 ORDER_NOT_FOUND)
          else case decide snapshot (in_command input) of
            Inl _ \<Rightarrow> Inl Unhandled
          | Inr (Conflict reason) \<Rightarrow> Inl (ConflictSignal reason)
          | Inr AlreadyApplied \<Rightarrow> Inl AlreadyAppliedSignal
          | Inr (Apply nextStatus) \<Rightarrow> Inr (Inr (snapshot, nextStatus)))"

definition runMutation_write ::
  "tx_env \<Rightarrow> db \<Rightarrow> mutation_input \<Rightarrow> string \<Rightarrow> order_snapshot option \<Rightarrow> order_status
     \<Rightarrow> signal + (db \<times> mutation_outcome)" where
  "runMutation_write env d input hash snapshot nextStatus =
     and_then (applyEffect env d input nextStatus snapshot) (\<lambda>(d1, order).
     and_then (insert_processed d1 input hash order) (\<lambda>d2.
     and_then (insert_event d2 (new_event env input order)) (\<lambda>d3.
     Inr (d3, applied_outcome order))))"

definition runMutation ::
  "tx_env \<Rightarrow> db \<Rightarrow> mutation_input \<Rightarrow> string \<Rightarrow> signal + (db \<times> mutation_outcome)" where
  "runMutation env d input hash =
     and_then (runMutation_read d d d input hash) (\<lambda>plan.
       case plan of
         Inl outcome \<Rightarrow> Inr (d, outcome)
       | Inr (snapshot, nextStatus) \<Rightarrow> runMutation_write env d input hash snapshot nextStatus)"

section \<open>What a signal becomes\<close>

definition outcomeFor :: "processed_row \<Rightarrow> string \<Rightarrow> mutation_outcome" where
  "outcomeFor p hash =
     (if pm_requestHash p \<noteq> hash
      then \<lparr>out_httpStatus = 409, out_body = MUTATION_ID_REUSED\<rparr>
      else toAppliedOutcome p)"

definition conflict_entry ::
  "mutation_input \<Rightarrow> order_snapshot \<Rightarrow> conflict_row" where
  "conflict_entry input canonical =
     \<lparr>cl_orderId = in_orderId input, cl_terminalId = in_terminalId input,
      cl_mutationId = in_mutationId input, cl_mutationType = mutation_type_of (in_command input),
      cl_clientBaseVersion = in_baseVersion input, cl_serverVersion = snap_version canonical,
      cl_serverStatus = snap_status canonical, cl_resolution = None\<rparr>"

text \<open>
  The canonical order is read with two bare statements after the rollback, so it too takes a state
  for the header and one for the lines; the entry is written to the last state.
\<close>

definition conflictOutcome_at ::
  "db \<Rightarrow> db \<Rightarrow> db \<Rightarrow> db \<Rightarrow> mutation_input \<Rightarrow> string \<Rightarrow> conflict_reason
     \<Rightarrow> (failure + mutation_outcome) \<times> db" where
  "conflictOutcome_at processed header lines d input hash reason =
     (case db_processed processed (in_mutationId input) of
        Some raced \<Rightarrow> (Inr (outcomeFor raced hash), d)
      | None \<Rightarrow>
          (case loadOrderSnapshot_at header lines (in_orderId input) of
             None \<Rightarrow> (Inl (ApiFailure 404 ORDER_NOT_FOUND), d)
           | Some canonical \<Rightarrow>
               if \<not> int4 (in_baseVersion input) then (Inl InternalFailure, d)
               else (Inr \<lparr>out_httpStatus = 409,
                          out_body = CONFLICT_RESPONSE reason (in_baseVersion input)
                                       (snap_version canonical) canonical\<rparr>,
                     d\<lparr>db_conflicts := db_conflicts d @ [conflict_entry input canonical]\<rparr>)))"

abbreviation conflictOutcome ::
  "db \<Rightarrow> mutation_input \<Rightarrow> string \<Rightarrow> conflict_reason \<Rightarrow> (failure + mutation_outcome) \<times> db" where
  "conflictOutcome d \<equiv> conflictOutcome_at d d d d"

text \<open>
  The transaction of \<open>alreadyAppliedOutcome\<close>, under the row lock it takes first: the decision again,
  then the record of it (\<open>onConflictDoNothing\<close>). It settles with an outcome or with the reason of a
  conflict.
\<close>

definition settle_already_applied ::
  "db \<Rightarrow> mutation_input \<Rightarrow> string \<Rightarrow> failure + (db \<times> (conflict_reason + mutation_outcome))" where
  "settle_already_applied d input hash =
     (case loadOrderSnapshot d (in_orderId input) of
        None \<Rightarrow> Inl (ApiFailure 404 ORDER_NOT_FOUND)
      | Some order \<Rightarrow>
          (case decide (Some order) (in_command input) of
             Inl _ \<Rightarrow> Inl InternalFailure
           | Inr (Conflict reason) \<Rightarrow> Inr (d, Inl reason)
           | Inr (Apply _) \<Rightarrow> Inr (d, Inl ORDER_VERSION_CONFLICT)
           | Inr AlreadyApplied \<Rightarrow>
               Inr (case insert_processed d input hash order of Inl _ \<Rightarrow> d | Inr d' \<Rightarrow> d',
                    Inr \<lparr>out_httpStatus = 200,
                         out_body = ALREADY_APPLIED order (snap_version order)\<rparr>)))"

definition alreadyAppliedOutcome ::
  "db \<Rightarrow> mutation_input \<Rightarrow> string \<Rightarrow> (failure + mutation_outcome) \<times> db" where
  "alreadyAppliedOutcome d input hash =
     (case settle_already_applied d input hash of
        Inl e \<Rightarrow> (Inl e, d)
      | Inr (d', Inl reason) \<Rightarrow> conflictOutcome d' input hash reason
      | Inr (d', Inr outcome) \<Rightarrow> (Inr outcome, d'))"

definition racedOutcome ::
  "db \<Rightarrow> mutation_input \<Rightarrow> string \<Rightarrow> (failure + mutation_outcome) \<times> db" where
  "racedOutcome d input hash =
     (case db_processed d (in_mutationId input) of
        None \<Rightarrow> (Inl InternalFailure, d)
      | Some p \<Rightarrow> (Inr (outcomeFor p hash), d))"

definition catchSignal ::
  "db \<Rightarrow> mutation_input \<Rightarrow> string \<Rightarrow> signal \<Rightarrow> (failure + mutation_outcome) \<times> db" where
  "catchSignal d input hash sig =
     (case sig of
        CrossTenantSignal \<Rightarrow> (Inr \<lparr>out_httpStatus = 403, out_body = REJECTED\<rparr>, d)
      | MutationIdReusedSignal \<Rightarrow> (Inr \<lparr>out_httpStatus = 409, out_body = MUTATION_ID_REUSED\<rparr>, d)
      | ConflictSignal reason \<Rightarrow> conflictOutcome d input hash reason
      | AlreadyAppliedSignal \<Rightarrow> alreadyAppliedOutcome d input hash
      | ApiErrorSignal status code \<Rightarrow> (Inl (ApiFailure status code), d)
      | UniqueViolation c \<Rightarrow>
          if c = ''processed_mutations_pkey'' then racedOutcome d input hash
          else (Inl InternalFailure, d)
      | Unhandled \<Rightarrow> (Inl InternalFailure, d))"

definition applyMutation ::
  "(string \<Rightarrow> string) \<Rightarrow> tx_env \<Rightarrow> db \<Rightarrow> mutation_input \<Rightarrow> (failure + mutation_outcome) \<times> db" where
  "applyMutation sha256 env d input =
     (let hash = input_hash sha256 input in
      case runMutation env d input hash of
        Inr (d', outcome) \<Rightarrow> (Inr outcome, d')
      | Inl sig \<Rightarrow> catchSignal d input hash sig)"

section \<open>Recording how a conflict was resolved\<close>

definition open_conflict :: "uuid \<Rightarrow> string \<Rightarrow> uuid list \<Rightarrow> conflict_row \<Rightarrow> bool" where
  "open_conflict orderId terminalId mutationIds c \<longleftrightarrow>
     cl_orderId c = orderId \<and> cl_terminalId c = terminalId \<and>
     cl_mutationId c \<in> set mutationIds \<and> cl_resolution c = None"

definition recordConflictResolution ::
  "db \<Rightarrow> uuid \<Rightarrow> string \<Rightarrow> conflict_resolution \<Rightarrow> uuid list \<Rightarrow> nat \<times> db" where
  "recordConflictResolution d orderId terminalId resolution mutationIds =
     (length (filter (open_conflict orderId terminalId mutationIds) (db_conflicts d)),
      d\<lparr>db_conflicts := update_where (open_conflict orderId terminalId mutationIds)
          (\<lambda>c. c\<lparr>cl_resolution := Some resolution\<rparr>) (db_conflicts d)\<rparr>)"

end
