(* ===== verification/Mutation_Effects.thy ===== *)
theory Mutation_Effects
  imports Mutation_Handler
begin

text \<open>
  What the write half does to the database, command by command: \<open>lines_after\<close> says what becomes of
  the lines of the order, \<open>row_after\<close> of its row, and \<open>runMutation_write_effect\<close> that a committed
  write is exactly that, one processed mutation and one event, and nothing else. The facts about the
  other operations (which never touch an order, its lines, its payments or the outbox) follow.
\<close>

section \<open>Inversion of the statements\<close>

lemma guardedVersionBump_Inr:
  "guardedVersionBump now d input st = Inr d' \<longleftrightarrow>
     (\<exists>r. db_orders d (in_orderId input) = Some r \<and> ord_version r = in_baseVersion input
        \<and> int4 (in_baseVersion input) \<and> int4 (ord_version r + 1)
        \<and> d' = d\<lparr>db_orders := (db_orders d)(in_orderId input \<mapsto>
               r\<lparr>ord_version := ord_version r + 1, ord_status := st, ord_updatedAt := now\<rparr>)\<rparr>)"
  by (auto simp: guardedVersionBump_def split: option.splits)

lemma recalculateTotal_Inr:
  "db_orders d o' = Some r \<Longrightarrow> recalculateTotal d o' = Inr d' \<longleftrightarrow>
     int4 (lines_total (db_items d o')) \<and> (\<forall>l \<in> set (db_items d o'). int4 (line_cents l))
     \<and> d' = d\<lparr>db_orders := (db_orders d)(o' \<mapsto> r\<lparr>ord_totalCents := lines_total (db_items d o')\<rparr>)\<rparr>"
  by (auto simp: recalculateTotal_def Let_def)

lemma write_lines_Inr:
  "write_lines d o' ls = Inr d' \<longleftrightarrow>
     quantities_int4 ls \<and> d' = d\<lparr>db_items := (db_items d)(o' := ls)\<rparr>"
  by (auto simp: write_lines_def)

lemma insert_payment_Inr:
  "insert_payment d p = Inr d' \<longleftrightarrow>
     pay_mutationId p \<notin> pay_mutationId ` set (db_payments d)
     \<and> d' = d\<lparr>db_payments := db_payments d @ [p]\<rparr>"
  by (auto simp: insert_payment_def)

lemma insert_processed_Inr:
  "insert_processed d input hash order = Inr d' \<longleftrightarrow>
     db_processed d (in_mutationId input) = None
     \<and> d' = d\<lparr>db_processed := (db_processed d)(in_mutationId input \<mapsto>
          \<lparr>pm_terminalId = in_terminalId input, pm_orderId = in_orderId input,
           pm_requestHash = hash, pm_order = order, pm_serverVersion = snap_version order\<rparr>)\<rparr>"
  by (auto simp: insert_processed_def)

lemma insert_event_Inr:
  "insert_event d e = Inr d' \<longleftrightarrow>
     ob_id e \<notin> ob_id ` set (db_outbox d) \<and> d' = d\<lparr>db_outbox := db_outbox d @ [e]\<rparr>"
  by (auto simp: insert_event_def)

lemma load_own_Inr:
  "load_own d o' = Inr (d', s) \<longleftrightarrow>
     d' = d \<and> (\<exists>r. db_orders d o' = Some r \<and> s = snapshot_of o' r (db_items d o'))"
  by (auto simp: load_own_def loadOrderSnapshot_Some_iff split: option.splits)

lemmas statement_Inr =
  guardedVersionBump_Inr write_lines_Inr insert_payment_Inr insert_processed_Inr insert_event_Inr
  load_own_Inr

section \<open>What each command changes\<close>

fun touches_lines :: "mutation_command \<Rightarrow> bool" where
  "touches_lines (AddItem _ _) \<longleftrightarrow> True"
| "touches_lines (RemoveItem _) \<longleftrightarrow> True"
| "touches_lines (ChangeQuantity _ _) \<longleftrightarrow> True"
| "touches_lines _ \<longleftrightarrow> False"

fun lines_after :: "millis \<Rightarrow> menu_item list \<Rightarrow> mutation_command \<Rightarrow> item_row list \<Rightarrow> item_row list" where
  "lines_after now ps (AddItem p q) ls =
     (case find (\<lambda>m. menu_id m = p) ps of None \<Rightarrow> ls | Some m \<Rightarrow> upsert_line now m q ls)"
| "lines_after now ps (RemoveItem p) ls = delete_where (\<lambda>l. line_product l = p) ls"
| "lines_after now ps (ChangeQuantity p q) ls = set_line_quantity now p q ls"
| "lines_after now ps _ ls = ls"

fun payments_after :: "mutation_input \<Rightarrow> mutation_command \<Rightarrow> int \<Rightarrow> payment_row list" where
  "payments_after input (Pay m) cents =
     [\<lparr>pay_orderId = in_orderId input, pay_mutationId = in_mutationId input,
       pay_amountCents = cents, pay_method = m\<rparr>]"
| "payments_after input _ cents = []"

definition total_after :: "mutation_command \<Rightarrow> item_row list \<Rightarrow> int \<Rightarrow> int" where
  "total_after c ls old = (if touches_lines c then lines_total ls else old)"

text \<open>The new lines and the new total fit the columns that store them.\<close>

definition lines_fit :: "mutation_command \<Rightarrow> item_row list \<Rightarrow> bool" where
  "lines_fit c ls \<longleftrightarrow>
     (touches_lines c \<longrightarrow> quantities_int4 ls \<and> int4 (lines_total ls) \<and> (\<forall>l \<in> set ls. int4 (line_cents l)))"

text \<open>The arguments of a command that the statements themselves refuse.\<close>

fun arguments_ok :: "menu_item list \<Rightarrow> mutation_command \<Rightarrow> bool" where
  "arguments_ok ps (AddItem p q) \<longleftrightarrow> find (\<lambda>m. menu_id m = p) ps \<noteq> None \<and> int4 q"
| "arguments_ok ps (ChangeQuantity p q) \<longleftrightarrow> int4 q"
| "arguments_ok ps _ \<longleftrightarrow> True"

definition payment_free :: "db \<Rightarrow> mutation_input \<Rightarrow> bool" where
  "payment_free d input \<longleftrightarrow>
     (mutation_type_of (in_command input) = PAY \<longrightarrow>
        in_mutationId input \<notin> pay_mutationId ` set (db_payments d))"

abbreviation new_lines :: "tx_env \<Rightarrow> db \<Rightarrow> mutation_input \<Rightarrow> item_row list" where
  "new_lines env d input \<equiv>
     lines_after (tx_now env) (db_products d) (in_command input) (db_items d (in_orderId input))"

lemma applyChange_iff:
  assumes "db_orders d (in_orderId input) = Some r"
    and "\<nexists>t. in_command input = CreateOrder t"
  shows "applyChange env d input cur = Inr d' \<longleftrightarrow>
     arguments_ok (db_products d) (in_command input)
     \<and> lines_fit (in_command input) (new_lines env d input) \<and> payment_free d input
     \<and> d' = d\<lparr>db_items := (db_items d)(in_orderId input := new_lines env d input),
              db_orders := (db_orders d)(in_orderId input \<mapsto>
                 r\<lparr>ord_totalCents :=
                     total_after (in_command input) (new_lines env d input) (ord_totalCents r)\<rparr>),
              db_payments := db_payments d @ payments_after input (in_command input) (snap_totalCents cur)\<rparr>"
  using assms
  by (cases "in_command input"; cases d; cases r)
    (auto simp: applyChange_def Let_def and_then_Inr_iff statement_Inr recalculateTotal_Inr
       total_after_def lines_fit_def payment_free_def fun_upd_idem split: option.splits if_splits)

text \<open>The row of the order after the command: a new one for a creation, else one version on.\<close>

definition row_after :: "tx_env \<Rightarrow> db \<Rightarrow> mutation_input \<Rightarrow> order_status \<Rightarrow> order_row" where
  "row_after env d input nextStatus =
     (case db_orders d (in_orderId input) of
        None \<Rightarrow>
          \<lparr>ord_restaurantId = in_restaurantId input,
           ord_tableNumber = (case in_command input of CreateOrder t \<Rightarrow> t | _ \<Rightarrow> ''''),
           ord_status = OPEN, ord_version = 1, ord_totalCents = 0,
           ord_createdAt = tx_now env, ord_updatedAt = tx_now env\<rparr>
      | Some r \<Rightarrow>
          r\<lparr>ord_version := ord_version r + 1, ord_status := nextStatus, ord_updatedAt := tx_now env,
             ord_totalCents := total_after (in_command input) (new_lines env d input) (ord_totalCents r)\<rparr>)"

definition snapshot_after :: "tx_env \<Rightarrow> db \<Rightarrow> mutation_input \<Rightarrow> order_status \<Rightarrow> order_snapshot" where
  "snapshot_after env d input nextStatus =
     snapshot_of (in_orderId input) (row_after env d input nextStatus) (new_lines env d input)"

definition committed ::
  "tx_env \<Rightarrow> db \<Rightarrow> mutation_input \<Rightarrow> string \<Rightarrow> int \<Rightarrow> order_status \<Rightarrow> db" where
  "committed env d input hash cents nextStatus =
     d\<lparr>db_orders := (db_orders d)(in_orderId input \<mapsto> row_after env d input nextStatus),
       db_items := (db_items d)(in_orderId input := new_lines env d input),
       db_payments := db_payments d @ payments_after input (in_command input) cents,
       db_processed := (db_processed d)(in_mutationId input \<mapsto>
         \<lparr>pm_terminalId = in_terminalId input, pm_orderId = in_orderId input, pm_requestHash = hash,
          pm_order = snapshot_after env d input nextStatus,
          pm_serverVersion = snap_version (snapshot_after env d input nextStatus)\<rparr>),
       db_outbox := db_outbox d @ [new_event env input (snapshot_after env d input nextStatus)]\<rparr>"

definition cents_read :: "order_snapshot option \<Rightarrow> int" where
  "cents_read snapshot = (case snapshot of None \<Rightarrow> 0 | Some s \<Rightarrow> snap_totalCents s)"

text \<open>When the write half commits.\<close>

definition writable :: "tx_env \<Rightarrow> db \<Rightarrow> mutation_input \<Rightarrow> order_snapshot option \<Rightarrow> bool" where
  "writable env d input snapshot \<longleftrightarrow>
     db_processed d (in_mutationId input) = None \<and> tx_eventId env \<notin> ob_id ` set (db_outbox d) \<and>
     (case in_command input of
        CreateOrder _ \<Rightarrow>
          db_orders d (in_orderId input) = None \<and> in_restaurantId input \<in> set (db_restaurants d)
      | _ \<Rightarrow>
          snapshot \<noteq> None \<and> int4 (in_baseVersion input) \<and>
          (\<exists>r. db_orders d (in_orderId input) = Some r \<and> ord_version r = in_baseVersion input
             \<and> int4 (ord_version r + 1)) \<and>
          arguments_ok (db_products d) (in_command input) \<and>
          lines_fit (in_command input) (new_lines env d input) \<and> payment_free d input)"

lemma applyEffect_create:
  assumes "in_command input = CreateOrder t"
  shows "applyEffect env d input st cur = Inr (d', s) \<longleftrightarrow>
     db_orders d (in_orderId input) = None \<and> in_restaurantId input \<in> set (db_restaurants d)
     \<and> s = snapshot_after env d input st
     \<and> d' = d\<lparr>db_orders := (db_orders d)(in_orderId input \<mapsto> row_after env d input st)\<rparr>"
  using assms
  by (auto simp: applyEffect_def load_own_Inr insert_order_def snapshot_after_def row_after_def
      split: option.splits)

lemma applyEffect_change:
  assumes "\<nexists>t. in_command input = CreateOrder t"
  shows "applyEffect env d input st cur = Inr (d', s) \<longleftrightarrow>
     cur \<noteq> None \<and> int4 (in_baseVersion input) \<and>
     (\<exists>r. db_orders d (in_orderId input) = Some r \<and> ord_version r = in_baseVersion input
        \<and> int4 (ord_version r + 1)) \<and>
     arguments_ok (db_products d) (in_command input) \<and>
     lines_fit (in_command input) (new_lines env d input) \<and> payment_free d input
     \<and> s = snapshot_after env d input st
     \<and> d' = d\<lparr>db_orders := (db_orders d)(in_orderId input \<mapsto> row_after env d input st),
              db_items := (db_items d)(in_orderId input := new_lines env d input),
              db_payments := db_payments d @ payments_after input (in_command input) (cents_read cur)\<rparr>"
    (is "_ \<longleftrightarrow> ?rhs")
proof -
  have unfold: "applyEffect env d input st cur =
     (case cur of None \<Rightarrow> Inl Unhandled
      | Some c \<Rightarrow> and_then (guardedVersionBump (tx_now env) d input st) (\<lambda>d1.
          and_then (applyChange env d1 input c) (\<lambda>d2. load_own d2 (in_orderId input))))" for cur
    using assms by (cases "in_command input") (auto simp: applyEffect_def)
  show ?thesis
  proof (cases cur)
    case None
    then show ?thesis by (simp add: unfold)
  next
    case (Some c)
    show ?thesis
    proof (cases "db_orders d (in_orderId input)")
      case None
      then show ?thesis by (simp add: unfold Some and_then_Inr_iff guardedVersionBump_Inr)
    next
      case (Some r)
      let ?d1 = "d\<lparr>db_orders := (db_orders d)(in_orderId input \<mapsto>
        r\<lparr>ord_version := ord_version r + 1, ord_status := st, ord_updatedAt := tx_now env\<rparr>)\<rparr>"
      have "applyChange env ?d1 input c = Inr d2 \<longleftrightarrow>
          arguments_ok (db_products d) (in_command input)
          \<and> lines_fit (in_command input) (new_lines env d input) \<and> payment_free d input
          \<and> d2 = d\<lparr>db_orders := (db_orders d)(in_orderId input \<mapsto> row_after env d input st),
                   db_items := (db_items d)(in_orderId input := new_lines env d input),
                   db_payments := db_payments d @ payments_after input (in_command input) (snap_totalCents c)\<rparr>"
        for d2
        using applyChange_iff [of ?d1 input _ env c d2] assms Some
        by (auto simp: payment_free_def row_after_def)
      then show ?thesis
        using Some \<open>cur = Some c\<close>
        by (auto simp: unfold and_then_Inr_iff guardedVersionBump_Inr load_own_Inr snapshot_after_def
            cents_read_def)
    qed
  qed
qed

lemma runMutation_write_iff:
  "runMutation_write env d input hash snapshot st = Inr (d', outcome) \<longleftrightarrow>
     writable env d input snapshot \<and> d' = committed env d input hash (cents_read snapshot) st
     \<and> outcome = applied_outcome (snapshot_after env d input st)"
proof (cases "\<exists>t. in_command input = CreateOrder t")
  case True
  then obtain t where t: "in_command input = CreateOrder t" by blast
  have "d\<lparr>db_items := (db_items d)(in_orderId input := db_items d (in_orderId input))\<rparr> = d"
    by simp
  then show ?thesis
    using t
    by (auto simp: runMutation_write_def and_then_Inr_iff applyEffect_create [OF t] insert_processed_Inr
        insert_event_Inr writable_def committed_def new_event_def)
next
  case False
  then have create: "(case in_command input of CreateOrder _ \<Rightarrow> a | _ \<Rightarrow> b) = b" for a b :: bool
    by (cases "in_command input") auto
  show ?thesis
    using applyEffect_change [OF False]
    by (auto simp: runMutation_write_def and_then_Inr_iff insert_processed_Inr create
        insert_event_Inr writable_def committed_def new_event_def)
qed

end
