(* ===== verification/Order_Invariant.thy ===== *)
theory Order_Invariant
  imports Mutation_Effects
begin

text \<open>
  The well-formedness invariant of the order database (\<open>db_ok\<close>) and its preservation by every
  operation of the write path: the total of an order is the sum of its lines, a product has one
  line, the outbox holds the events of an order with the versions \<open>1, 2, ..., version\<close> in that order,
  event ids and the mutation ids of payments are unique, and a stored result is about an existing
  order at a version it has reached.
\<close>

section \<open>The invariant\<close>

definition events_of :: "db \<Rightarrow> uuid \<Rightarrow> outbox_row list" where
  "events_of d orderId = filter (\<lambda>e. ob_aggregateId e = orderId) (db_outbox d)"

definition lines_ok :: "item_row list \<Rightarrow> bool" where
  "lines_ok ls \<longleftrightarrow> distinct (map line_product ls) \<and> (\<forall>l \<in> set ls. 0 < item_quantity (line_item l))"

definition order_ok :: "db \<Rightarrow> uuid \<Rightarrow> bool" where
  "order_ok d orderId \<longleftrightarrow>
     (case db_orders d orderId of
        None \<Rightarrow> db_items d orderId = [] \<and> events_of d orderId = []
      | Some r \<Rightarrow>
          1 \<le> ord_version r \<and> ord_totalCents r = lines_total (db_items d orderId)
          \<and> lines_ok (db_items d orderId)
          \<and> map ob_eventVersion (events_of d orderId) = [1..ord_version r])"

definition stored_ok :: "db \<Rightarrow> processed_row \<Rightarrow> bool" where
  "stored_ok d p \<longleftrightarrow>
     pm_serverVersion p = snap_version (pm_order p) \<and> snap_id (pm_order p) = pm_orderId p
     \<and> (\<exists>r. db_orders d (pm_orderId p) = Some r \<and> snap_version (pm_order p) \<le> ord_version r
          \<and> snap_restaurantId (pm_order p) = ord_restaurantId r)"

definition processed_ok :: "db \<Rightarrow> bool" where
  "processed_ok d \<longleftrightarrow> (\<forall>m p. db_processed d m = Some p \<longrightarrow> stored_ok d p)"

definition db_ok :: "db \<Rightarrow> bool" where
  "db_ok d \<longleftrightarrow>
     (\<forall>orderId. order_ok d orderId) \<and> processed_ok d \<and>
     distinct (map ob_id (db_outbox d)) \<and> distinct (map pay_mutationId (db_payments d))"

text \<open>What the boundary lets through: a quantity is positive.\<close>

fun command_valid :: "mutation_command \<Rightarrow> bool" where
  "command_valid (AddItem _ q) \<longleftrightarrow> 0 < q"
| "command_valid (ChangeQuantity _ q) \<longleftrightarrow> 0 < q"
| "command_valid _ \<longleftrightarrow> True"

section \<open>Lines stay well-formed\<close>

lemma lines_ok_Nil [simp]: "lines_ok []"
  by (simp add: lines_ok_def)

lemma upsert_line_products:
  "map line_product (upsert_line now p q ls) =
     (if menu_id p \<in> line_product ` set ls then map line_product ls
      else map line_product ls @ [menu_id p])"
  by (simp add: upsert_line_def map_update_where)

lemma upsert_line_ok: "lines_ok ls \<Longrightarrow> 0 < q \<Longrightarrow> lines_ok (upsert_line now p q ls)"
  unfolding lines_ok_def upsert_line_products
  by (auto simp: upsert_line_def in_set_update_where intro!: add_pos_pos)

lemma set_line_quantity_ok: "lines_ok ls \<Longrightarrow> 0 < q \<Longrightarrow> lines_ok (set_line_quantity now p q ls)"
  unfolding lines_ok_def set_line_quantity_def
  by (auto simp: map_update_where in_set_update_where)

lemma delete_line_ok: "lines_ok ls \<Longrightarrow> lines_ok (delete_where P ls)"
  by (auto simp: lines_ok_def distinct_map_delete_where)

lemma lines_after_ok: "lines_ok ls \<Longrightarrow> command_valid c \<Longrightarrow> lines_ok (lines_after now ps c ls)"
  by (cases c) (auto simp: upsert_line_ok set_line_quantity_ok delete_line_ok split: option.splits)

lemma lines_after_untouched: "\<not> touches_lines c \<Longrightarrow> lines_after now ps c ls = ls"
  by (cases c) auto

lemma total_after_ok:
  "old = lines_total ls \<Longrightarrow> total_after c (lines_after now ps c ls) old = lines_total (lines_after now ps c ls)"
  by (auto simp: total_after_def lines_after_untouched)

section \<open>A committed write\<close>

lemma committed_fields [simp]:
  "db_orders (committed env d input hash cents st) =
     (db_orders d)(in_orderId input \<mapsto> row_after env d input st)"
  "db_items (committed env d input hash cents st) =
     (db_items d)(in_orderId input := new_lines env d input)"
  "db_payments (committed env d input hash cents st) =
     db_payments d @ payments_after input (in_command input) cents"
  "db_outbox (committed env d input hash cents st) =
     db_outbox d @ [new_event env input (snapshot_after env d input st)]"
  "db_conflicts (committed env d input hash cents st) = db_conflicts d"
  "db_products (committed env d input hash cents st) = db_products d"
  "db_restaurants (committed env d input hash cents st) = db_restaurants d"
  by (simp_all add: committed_def)

lemma new_event_fields [simp]:
  "ob_id (new_event env input s) = tx_eventId env"
  "ob_aggregateId (new_event env input s) = in_orderId input"
  "ob_restaurantId (new_event env input s) = in_restaurantId input"
  "ob_eventVersion (new_event env input s) = snap_version s"
  "ob_eventType (new_event env input s) = EVENT_TYPE_BY_MUTATION (mutation_type_of (in_command input))"
  "ob_payload (new_event env input s) = eventPayload (in_command input) s"
  "ob_publishedAt (new_event env input s) = None"
  "ob_deadLetteredAt (new_event env input s) = None"
  "ob_claimedBy (new_event env input s) = None"
  by (simp_all add: new_event_def)

lemma snapshot_after_fields [simp]:
  "snap_id (snapshot_after env d input st) = in_orderId input"
  "snap_version (snapshot_after env d input st) = ord_version (row_after env d input st)"
  "snap_status (snapshot_after env d input st) = ord_status (row_after env d input st)"
  "snap_totalCents (snapshot_after env d input st) = ord_totalCents (row_after env d input st)"
  "snap_restaurantId (snapshot_after env d input st) = ord_restaurantId (row_after env d input st)"
  "snap_tableNumber (snapshot_after env d input st) = ord_tableNumber (row_after env d input st)"
  by (simp_all add: snapshot_after_def)

text \<open>A creation finds no order, any other command one at its base version.\<close>

lemma writable_cases:
  assumes "writable env d input snapshot"
  obtains (create) t where "in_command input = CreateOrder t" and "db_orders d (in_orderId input) = None"
  | (change) r where "\<nexists>t. in_command input = CreateOrder t" and "snapshot \<noteq> None"
      and "db_orders d (in_orderId input) = Some r" and "ord_version r = in_baseVersion input"
      and "int4 (in_baseVersion input)"
proof (cases "in_command input")
qed (use assms that in \<open>auto simp: writable_def\<close>)

lemma writable_processed: "writable env d input snapshot \<Longrightarrow> db_processed d (in_mutationId input) = None"
  by (simp add: writable_def)

lemma row_after_version:
  "writable env d input snapshot \<Longrightarrow>
     ord_version (row_after env d input st) =
       (case db_orders d (in_orderId input) of None \<Rightarrow> 1 | Some r \<Rightarrow> ord_version r + 1)"
  by (simp add: row_after_def split: option.splits)

lemma order_ok_committed:
  assumes "order_ok d o'" and "writable env d input snapshot" and "command_valid (in_command input)"
  shows "order_ok (committed env d input hash cents st) o'"
proof (cases "o' = in_orderId input")
  case False
  then show ?thesis
    using assms(1) by (simp add: order_ok_def events_of_def split: option.splits)
next
  case True
  from assms(2) show ?thesis
  proof (cases rule: writable_cases)
    case (create t)
    then have "db_items d o' = []" "events_of d o' = []"
      using assms(1) True by (simp_all add: order_ok_def)
    then show ?thesis
      using True create by (simp add: order_ok_def events_of_def row_after_def lines_total_def)
  next
    case (change r)
    then have ok: "1 \<le> ord_version r" "ord_totalCents r = lines_total (db_items d o')"
        "lines_ok (db_items d o')" "map ob_eventVersion (events_of d o') = [1..ord_version r]"
      using assms(1) True by (simp_all add: order_ok_def)
    have "[1..ord_version r + 1] = [1..ord_version r] @ [ord_version r + 1]"
      using ok(1) by (simp add: upto_rec2)
    then show ?thesis
      using True change ok lines_after_ok [OF ok(3) assms(3)]
      by (simp add: order_ok_def events_of_def row_after_def total_after_ok)
  qed
qed

lemma stored_ok_committed: "stored_ok d p \<Longrightarrow> stored_ok (committed env d input hash cents st) p"
  by (auto simp: stored_ok_def row_after_def)

lemma processed_ok_committed:
  assumes "processed_ok d"
  shows "processed_ok (committed env d input hash cents st)"
proof -
  have "stored_ok (committed env d input hash cents st) p"
    if "db_processed (committed env d input hash cents st) m = Some p" for m p
  proof (cases "m = in_mutationId input")
    case True
    with that show ?thesis by (auto simp: committed_def stored_ok_def)
  next
    case False
    with that assms show ?thesis
      by (intro stored_ok_committed) (auto simp: processed_ok_def committed_def)
  qed
  then show ?thesis by (simp add: processed_ok_def)
qed

lemma db_ok_committed:
  assumes "db_ok d" and "writable env d input snapshot" and "command_valid (in_command input)"
  shows "db_ok (committed env d input hash cents st)"
proof -
  have "distinct (map pay_mutationId (db_payments d @ payments_after input (in_command input) cents))"
    using assms
    by (cases "in_command input") (auto simp: db_ok_def writable_def payment_free_def image_iff)
  moreover have "tx_eventId env \<notin> ob_id ` set (db_outbox d)"
    using assms(2) by (simp add: writable_def)
  ultimately show ?thesis
    using assms order_ok_committed [OF _ assms(2,3)] processed_ok_committed
    by (auto simp: db_ok_def)
qed

section \<open>The other operations\<close>

text \<open>None of them writes an order, a line, a payment or an event.\<close>

definition same_business :: "db \<Rightarrow> db \<Rightarrow> bool" where
  "same_business d d' \<longleftrightarrow>
     db_orders d' = db_orders d \<and> db_items d' = db_items d \<and> db_payments d' = db_payments d
     \<and> db_outbox d' = db_outbox d \<and> db_products d' = db_products d \<and> db_restaurants d' = db_restaurants d"

lemma same_business_refl [simp]: "same_business d d"
  by (simp add: same_business_def)

lemma same_business_trans [trans]: "same_business a b \<Longrightarrow> same_business b c \<Longrightarrow> same_business a c"
  by (simp add: same_business_def)

lemma order_ok_same: "same_business d d' \<Longrightarrow> order_ok d' o' = order_ok d o'"
  by (simp add: same_business_def order_ok_def events_of_def cong: option.case_cong)

lemma stored_ok_same: "same_business d d' \<Longrightarrow> stored_ok d' p = stored_ok d p"
  by (simp add: same_business_def stored_ok_def)

lemma db_ok_same:
  "same_business d d' \<Longrightarrow> db_processed d' = db_processed d \<Longrightarrow> db_ok d' = db_ok d"
  by (simp add: db_ok_def order_ok_same processed_ok_def stored_ok_same) (simp add: same_business_def)

lemma conflictOutcome_frame:
  "conflictOutcome_at p h l d input hash reason = (res, d') \<Longrightarrow>
     same_business d d' \<and> db_processed d' = db_processed d"
  by (auto simp: conflictOutcome_at_def same_business_def split: option.splits if_splits)

lemma settle_frame:
  "settle_already_applied d input hash = Inr (d', res) \<Longrightarrow> same_business d d'"
  by (auto simp: settle_already_applied_def same_business_def insert_processed_def
      split: option.splits sum.splits decision.splits if_splits)

lemma settle_processed:
  assumes "settle_already_applied d input hash = Inr (d', res)"
  shows "db_processed d' = db_processed d
     \<or> (db_processed d (in_mutationId input) = None
        \<and> (\<exists>s. loadOrderSnapshot d (in_orderId input) = Some s
             \<and> db_processed d' = (db_processed d)(in_mutationId input \<mapsto>
                 \<lparr>pm_terminalId = in_terminalId input, pm_orderId = in_orderId input,
                  pm_requestHash = hash, pm_order = s, pm_serverVersion = snap_version s\<rparr>)))"
  using assms
  by (auto simp: settle_already_applied_def insert_processed_def
      split: option.splits sum.splits decision.splits if_splits)

lemma settle_db_ok:
  assumes "settle_already_applied d input hash = Inr (d', res)" and "db_ok d"
  shows "db_ok d'"
proof -
  note same = settle_frame [OF assms(1)]
  have "stored_ok d' p" if "db_processed d' m = Some p" for m p
    using that settle_processed [OF assms(1)] assms(2)
    by (auto simp: stored_ok_same [OF same] db_ok_def processed_ok_def split: if_splits)
      (auto simp: stored_ok_def loadOrderSnapshot_Some_iff)
  then show ?thesis
    using assms(2) same by (simp add: db_ok_def order_ok_same processed_ok_def) (simp add: same_business_def)
qed

lemma alreadyAppliedOutcome_frame:
  assumes "alreadyAppliedOutcome d input hash = (res, d')"
  shows "same_business d d' \<and> (db_ok d \<longrightarrow> db_ok d')"
  using assms
  by (auto simp: alreadyAppliedOutcome_def split: sum.splits prod.splits
      dest!: conflictOutcome_frame dest: settle_frame settle_db_ok same_business_trans
      intro: db_ok_same [THEN iffD2])

lemma catchSignal_frame:
  assumes "catchSignal d input hash sig = (res, d')"
  shows "same_business d d' \<and> (db_ok d \<longrightarrow> db_ok d')"
  using assms
  by (cases sig)
    (auto simp: catchSignal_def racedOutcome_def split: option.splits if_splits
       dest!: conflictOutcome_frame alreadyAppliedOutcome_frame intro: db_ok_same [THEN iffD2])

end
