(* ===== verification/Mutation_Interleaving.thy ===== *)
theory Mutation_Interleaving
  imports Order_Invariant
begin

text \<open>
  The API under concurrency. The server is the list of the committed states of the database, newest
  first, and a log of the mutations that committed. A request reads whatever states were committed
  when its statements ran (the header of the order first, then its lines, then
  \<open>processed_mutations\<close>: each at least as new as the one before), and its write half acts on the
  newest state. Several requests are in flight at once because nothing ties the states a request
  read to the one it writes; replicas of the API need no other treatment, for they share only this
  database.

  The policy argument restricts which requests may commit, given the header they read. \<open>any_request\<close>
  admits all of them. \<open>informed_request\<close> admits a request only if its base version is not ahead of
  the version in the header: a client that got its version from a committed answer sends no other.
\<close>

section \<open>Steps\<close>

record commit_entry =
  ce_mutationId :: uuid
  ce_orderId :: uuid
  ce_version :: int
  ce_command :: mutation_command

record server =
  srv_history :: "db list"
  srv_log :: "commit_entry list"

definition commit_of :: "mutation_input \<Rightarrow> mutation_outcome \<Rightarrow> commit_entry" where
  "commit_of input outcome =
     \<lparr>ce_mutationId = in_mutationId input, ce_orderId = in_orderId input,
      ce_version = (case out_body outcome of APPLIED _ v \<Rightarrow> v | _ \<Rightarrow> 0),
      ce_command = in_command input\<rparr>"

definition initial_server :: "tenant list \<Rightarrow> menu_item list \<Rightarrow> server" where
  "initial_server rs ps = \<lparr>srv_history = [empty_db rs ps], srv_log = []\<rparr>"

text \<open>What identifies an outbox row; the publisher and a replay change the other columns only.\<close>

definition event_identity ::
  "outbox_row \<Rightarrow> uuid \<times> uuid \<times> tenant \<times> event_type \<times> int \<times> event_payload \<times> string option \<times> millis" where
  "event_identity e =
     (ob_id e, ob_aggregateId e, ob_restaurantId e, ob_eventType e, ob_eventVersion e, ob_payload e,
      ob_traceId e, ob_createdAt e)"

type_synonym policy = "db \<Rightarrow> mutation_input \<Rightarrow> bool"

inductive server_step :: "(string \<Rightarrow> string) \<Rightarrow> policy \<Rightarrow> server \<Rightarrow> server \<Rightarrow> bool"
  for sha256 :: "string \<Rightarrow> string" and allowed :: policy where
  commit:
    "srv_history s = cur # older \<Longrightarrow> k \<le> j \<Longrightarrow> j \<le> i \<Longrightarrow> i < length (srv_history s) \<Longrightarrow>
     allowed (srv_history s ! i) input \<Longrightarrow> command_valid (in_command input) \<Longrightarrow>
     runMutation_read (srv_history s ! i) (srv_history s ! j) (srv_history s ! k) input
       (input_hash sha256 input) = Inr (Inr (snapshot, nextStatus)) \<Longrightarrow>
     runMutation_write env cur input (input_hash sha256 input) snapshot nextStatus = Inr (d', outcome) \<Longrightarrow>
     server_step sha256 allowed s
       \<lparr>srv_history = d' # cur # older, srv_log = srv_log s @ [commit_of input outcome]\<rparr>"
| settle:
    "srv_history s = cur # older \<Longrightarrow>
     settle_already_applied cur input (input_hash sha256 input) = Inr (d', settled) \<Longrightarrow>
     server_step sha256 allowed s (s\<lparr>srv_history := d' # cur # older\<rparr>)"
| conflict:
    "srv_history s = cur # older \<Longrightarrow>
     processed \<in> set (cur # older) \<Longrightarrow> header \<in> set (cur # older) \<Longrightarrow> lines' \<in> set (cur # older) \<Longrightarrow>
     conflictOutcome_at processed header lines' cur input (input_hash sha256 input) reason = (res, d') \<Longrightarrow>
     server_step sha256 allowed s (s\<lparr>srv_history := d' # cur # older\<rparr>)"
| resolve:
    "srv_history s = cur # older \<Longrightarrow>
     recordConflictResolution cur orderId terminalId resolution mutationIds = (n, d') \<Longrightarrow>
     server_step sha256 allowed s (s\<lparr>srv_history := d' # cur # older\<rparr>)"
| publisher:
    "srv_history s = cur # older \<Longrightarrow>
     map event_identity rows = map event_identity (db_outbox cur) \<Longrightarrow>
     server_step sha256 allowed s (s\<lparr>srv_history := cur\<lparr>db_outbox := rows\<rparr> # cur # older\<rparr>)"

inductive reachable_server ::
  "(string \<Rightarrow> string) \<Rightarrow> policy \<Rightarrow> tenant list \<Rightarrow> menu_item list \<Rightarrow> server \<Rightarrow> bool"
  for sha256 :: "string \<Rightarrow> string" and allowed :: policy and rs :: "tenant list"
    and ps :: "menu_item list" where
  start: "reachable_server sha256 allowed rs ps (initial_server rs ps)"
| step: "reachable_server sha256 allowed rs ps s \<Longrightarrow> server_step sha256 allowed s t \<Longrightarrow>
     reachable_server sha256 allowed rs ps t"

inductive_cases server_stepE: "server_step sha256 allowed s t"

definition any_request :: policy where
  "any_request header input = True"

definition informed_request :: policy where
  "informed_request header input \<longleftrightarrow>
     (case db_orders header (in_orderId input) of
        None \<Rightarrow> True
      | Some r \<Rightarrow> in_baseVersion input \<le> ord_version r)"

section \<open>The latest state\<close>

definition current :: "server \<Rightarrow> db" where
  "current s = hd (srv_history s)"

text \<open>What a later state keeps of an earlier one.\<close>

definition order_later :: "db \<Rightarrow> db \<Rightarrow> uuid \<Rightarrow> bool" where
  "order_later d d' o' \<longleftrightarrow>
     (case db_orders d o' of
        None \<Rightarrow> True
      | Some r \<Rightarrow>
          (case db_orders d' o' of
             None \<Rightarrow> False
           | Some r' \<Rightarrow>
               (ord_version r < ord_version r' \<and> ord_restaurantId r' = ord_restaurantId r
                \<and> ord_tableNumber r' = ord_tableNumber r)
               \<or> (r' = r \<and> db_items d' o' = db_items d o')))"

definition later :: "db \<Rightarrow> db \<Rightarrow> bool" where
  "later d d' \<longleftrightarrow>
     (\<forall>o'. order_later d d' o') \<and> db_products d' = db_products d \<and> db_restaurants d' = db_restaurants d
     \<and> db_processed d \<subseteq>\<^sub>m db_processed d'"

lemma order_later_refl [simp]: "order_later d d o'"
  by (simp add: order_later_def split: option.splits)

lemma order_later_trans: "order_later a b o' \<Longrightarrow> order_later b c o' \<Longrightarrow> order_later a c o'"
  by (auto simp: order_later_def split: option.splits)

lemma later_refl [simp]: "later d d"
  by (simp add: later_def)

lemma later_trans: "later a b \<Longrightarrow> later b c \<Longrightarrow> later a c"
  unfolding later_def using order_later_trans map_le_trans by metis

lemma later_processed: "later d d' \<Longrightarrow> db_processed d m = Some p \<Longrightarrow> db_processed d' m = Some p"
  by (auto simp: later_def map_le_def dom_def)

lemma later_committed:
  assumes "writable env d input snapshot"
  shows "later d (committed env d input hash cents st)"
proof -
  have "db_processed d (in_mutationId input) = None" using assms by (rule writable_processed)
  then show ?thesis
    by (auto simp: later_def order_later_def row_after_def committed_def map_le_def split: option.splits)
qed

lemma later_same:
  "same_business d d' \<Longrightarrow> (\<And>m p. db_processed d m = Some p \<Longrightarrow> db_processed d' m = Some p) \<Longrightarrow> later d d'"
  by (auto simp: later_def order_later_def same_business_def map_le_def split: option.splits)

lemma later_settle:
  "settle_already_applied d input hash = Inr (d', res) \<Longrightarrow> later d d'"
  using settle_frame [of d input hash d' res] settle_processed [of d input hash d' res]
  by (intro later_same) (auto split: if_splits)

lemma later_outbox [simp]: "later d (d\<lparr>db_outbox := rows\<rparr>)"
  by (simp add: later_def order_later_def split: option.splits)

lemma resolution_frame:
  "recordConflictResolution d o' t res ids = (n, d') \<Longrightarrow>
     same_business d d' \<and> db_processed d' = db_processed d"
  by (auto simp: recordConflictResolution_def same_business_def)

section \<open>The event log and the commit log agree\<close>

abbreviation event_key :: "outbox_row \<Rightarrow> uuid \<times> int" where
  "event_key e \<equiv> (ob_aggregateId e, ob_eventVersion e)"

abbreviation commit_key :: "commit_entry \<Rightarrow> uuid \<times> int" where
  "commit_key c \<equiv> (ce_orderId c, ce_version c)"

lemma identity_projections:
  assumes "map event_identity rows = map event_identity rows'"
  shows "map event_key rows = map event_key rows'" and "map ob_id rows = map ob_id rows'"
    and "map ob_eventVersion (filter (\<lambda>e. ob_aggregateId e = o') rows) =
         map ob_eventVersion (filter (\<lambda>e. ob_aggregateId e = o') rows')"
proof -
  have "length rows = length rows'" using assms map_eq_imp_length_eq by blast
  then show "map event_key rows = map event_key rows'" "map ob_id rows = map ob_id rows'"
      "map ob_eventVersion (filter (\<lambda>e. ob_aggregateId e = o') rows) =
       map ob_eventVersion (filter (\<lambda>e. ob_aggregateId e = o') rows')"
    using assms
    by (induction rows rows' rule: list_induct2) (auto simp: event_identity_def)
qed

lemma db_ok_outbox:
  assumes "map event_identity rows = map event_identity (db_outbox d)" and "db_ok d"
  shows "db_ok (d\<lparr>db_outbox := rows\<rparr>)"
proof -
  have "order_ok (d\<lparr>db_outbox := rows\<rparr>) o' = order_ok d o'" for o'
    using identity_projections(3) [OF assms(1), of o'] map_is_Nil_conv
    by (simp add: order_ok_def events_of_def split: option.splits) (metis map_is_Nil_conv)
  then show ?thesis
    using assms(2) identity_projections(2) [OF assms(1)]
    by (simp add: db_ok_def processed_ok_def stored_ok_def)
qed

text \<open>The invariant of the server.\<close>

definition history_ok :: "db list \<Rightarrow> bool" where
  "history_ok h \<longleftrightarrow> h \<noteq> [] \<and> (\<forall>d \<in> set h. db_ok d) \<and> sorted_wrt (\<lambda>newer older. later older newer) h"

definition log_ok :: "server \<Rightarrow> bool" where
  "log_ok s \<longleftrightarrow>
     map event_key (db_outbox (current s)) = map commit_key (srv_log s)
     \<and> distinct (map ce_mutationId (srv_log s))
     \<and> (\<forall>c \<in> set (srv_log s). db_processed (current s) (ce_mutationId c) \<noteq> None)"

definition server_ok :: "server \<Rightarrow> bool" where
  "server_ok s \<longleftrightarrow> history_ok (srv_history s) \<and> log_ok s"

lemma history_ok_Cons:
  "history_ok (cur # older) \<Longrightarrow> later cur d' \<Longrightarrow> db_ok d' \<Longrightarrow> history_ok (d' # cur # older)"
  by (auto simp: history_ok_def intro: later_trans)

lemma db_ok_empty: "db_ok (empty_db rs ps)"
  by (simp add: db_ok_def order_ok_def events_of_def processed_ok_def empty_db_def)

lemma server_ok_initial: "server_ok (initial_server rs ps)"
  by (simp add: server_ok_def history_ok_def log_ok_def initial_server_def current_def db_ok_empty)
    (simp add: empty_db_def)

lemma log_ok_same:
  assumes "log_ok s" and "srv_history s = cur # older"
    and "map event_key (db_outbox d') = map event_key (db_outbox cur)" and "later cur d'"
  shows "log_ok (s\<lparr>srv_history := d' # cur # older\<rparr>)"
  using assms by (auto simp: log_ok_def current_def) (metis later_processed)

lemma log_ok_commit:
  assumes "log_ok s" and "srv_history s = cur # older" and "writable env cur input snapshot"
    and "outcome = applied_outcome (snapshot_after env cur input st)"
  shows "log_ok \<lparr>srv_history = committed env cur input hash cents st # cur # older,
                 srv_log = srv_log s @ [commit_of input outcome]\<rparr>"
  using assms writable_processed [OF assms(3)]
  by (auto simp: log_ok_def current_def commit_of_def applied_outcome_def)
    (auto simp: committed_def)

lemma server_ok_step: "server_step sha256 allowed s t \<Longrightarrow> server_ok s \<Longrightarrow> server_ok t"
proof (induction rule: server_step.induct)
  case (commit s cur older k j i input snapshot nextStatus env d' outcome)
  then have w: "writable env cur input snapshot"
    and d': "d' = committed env cur input (input_hash sha256 input) (cents_read snapshot) nextStatus"
    and out: "outcome = applied_outcome (snapshot_after env cur input nextStatus)"
    by (simp_all add: runMutation_write_iff)
  have "db_ok cur" using commit by (simp add: server_ok_def history_ok_def)
  then have "db_ok d'" unfolding d' using w commit(6) by (rule db_ok_committed)
  then show ?case
    using commit(1,9) history_ok_Cons [OF _ later_committed [OF w]] log_ok_commit [OF _ commit(1) w out]
    by (simp add: server_ok_def d')
next
  case (settle s cur older input d' settled)
  then show ?case
    using history_ok_Cons [OF _ later_settle [OF settle(2)]] settle_db_ok [OF settle(2)]
      log_ok_same [OF _ settle(1) _ later_settle [OF settle(2)]] settle_frame [OF settle(2)]
    by (auto simp: server_ok_def history_ok_def same_business_def)
next
  case (conflict s cur older processed header lines' input reason res d')
  note frame = conflictOutcome_frame [OF conflict(5)]
  then have l: "later cur d'" by (auto intro: later_same)
  show ?case
    using conflict frame history_ok_Cons [OF _ l] log_ok_same [OF _ conflict(1) _ l] db_ok_same [of cur d']
    by (auto simp: server_ok_def history_ok_def same_business_def)
next
  case (resolve s cur older orderId terminalId resolution mutationIds n d')
  note frame = resolution_frame [OF resolve(2)]
  then have l: "later cur d'" by (auto intro: later_same)
  show ?case
    using resolve frame history_ok_Cons [OF _ l] log_ok_same [OF _ resolve(1) _ l] db_ok_same [of cur d']
    by (auto simp: server_ok_def history_ok_def same_business_def)
next
  case (publisher s cur older rows)
  then show ?case
    using history_ok_Cons [of cur older] log_ok_same [OF _ publisher(1)] db_ok_outbox [OF publisher(2)]
      identity_projections(1) [OF publisher(2)]
    by (auto simp: server_ok_def history_ok_def)
qed

lemma reachable_server_ok: "reachable_server sha256 allowed rs ps s \<Longrightarrow> server_ok s"
  by (induction rule: reachable_server.induct) (auto intro: server_ok_initial server_ok_step)

section \<open>What an informed request read is what it writes on\<close>

lemma order_laterE:
  assumes "order_later d d' o'" and "db_orders d o' = Some r"
  obtains r' where "db_orders d' o' = Some r'"
    and "ord_version r < ord_version r' \<or> r' = r \<and> db_items d' o' = db_items d o'"
  using assms by (cases "db_orders d' o'") (auto simp: order_later_def)

lemma history_later:
  assumes "history_ok h" and "j \<le> i" and "i < length h"
  shows "later (h ! i) (h ! j)"
proof (cases "i = j")
  case False
  then show ?thesis
    using assms sorted_wrt_nth_less [of "\<lambda>newer older. later older newer" h j i]
    by (simp add: history_ok_def)
qed simp

lemma informed_snapshot:
  assumes ok: "history_ok (cur # older)" and idx: "j \<le> i" "i < length (cur # older)"
    and informed: "informed_request ((cur # older) ! i) input"
    and some: "loadOrderSnapshot_at ((cur # older) ! i) ((cur # older) ! j) (in_orderId input) = Some s"
    and cur: "db_orders cur (in_orderId input) = Some r" "ord_version r = in_baseVersion input"
  shows "loadOrderSnapshot cur (in_orderId input) = Some s"
proof -
  let ?h = "cur # older" and ?o = "in_orderId input"
  have ij: "order_later (?h ! i) (?h ! j) ?o" and jc: "order_later (?h ! j) cur ?o"
    using history_later [OF ok idx] history_later [OF ok, of 0 j] idx by (simp_all add: later_def)
  from some obtain ri where ri: "db_orders (?h ! i) ?o = Some ri"
      and s: "s = snapshot_of ?o ri (db_items (?h ! j) ?o)"
    by (auto simp: loadOrderSnapshot_at_Some_iff)
  from ij ri obtain rj where rj: "db_orders (?h ! j) ?o = Some rj"
      "ord_version ri < ord_version rj \<or> rj = ri \<and> db_items (?h ! j) ?o = db_items (?h ! i) ?o"
    by (rule order_laterE)
  from jc rj(1) obtain r' where "db_orders cur ?o = Some r'"
      "ord_version rj < ord_version r' \<or> r' = rj \<and> db_items cur ?o = db_items (?h ! j) ?o"
    by (rule order_laterE)
  moreover have "ord_version r \<le> ord_version ri"
    using informed ri cur(2) by (simp add: informed_request_def)
  ultimately have "r = ri" and "db_items cur ?o = db_items (?h ! j) ?o"
    using rj cur(1) by auto
  then show ?thesis using cur(1) s by (simp add: loadOrderSnapshot_Some_iff)
qed

lemma runMutation_read_plan:
  "runMutation_read header lines' processed input hash = Inr (Inr (snapshot, st)) \<longleftrightarrow>
     snapshot = loadOrderSnapshot_at header lines' (in_orderId input)
     \<and> (\<forall>s. snapshot = Some s \<longrightarrow> snap_restaurantId s = in_restaurantId input)
     \<and> db_processed processed (in_mutationId input) = None
     \<and> (snapshot = None \<longrightarrow> mutation_type_of (in_command input) = CREATE_ORDER)
     \<and> decide snapshot (in_command input) = Inr (Apply st)"
  by (auto simp: runMutation_read_def Let_def split: option.splits sum.splits decision.splits)

lemma decide_create_apply:
  "decide snapshot (CreateOrder t) = Inr (Apply st) \<longleftrightarrow> snapshot = None \<and> st = OPEN"
  by (auto simp: decide_def split: option.splits)

lemma loadOrderSnapshot_same: "loadOrderSnapshot_at d d = loadOrderSnapshot d"
  by (simp add: fun_eq_iff loadOrderSnapshot_def)

text \<open>An interleaved commit of an informed request, as one atomic run of the handler.\<close>

lemma informed_commit_atomic:
  assumes ok: "history_ok (cur # older)" and idx: "k \<le> j" "j \<le> i" "i < length (cur # older)"
    and informed: "informed_request ((cur # older) ! i) input"
    and read: "runMutation_read ((cur # older) ! i) ((cur # older) ! j) ((cur # older) ! k) input hash
      = Inr (Inr (snapshot, st))"
    and "write": "runMutation_write env cur input hash snapshot st = Inr (d', outcome)"
  shows "runMutation_read cur cur cur input hash = Inr (Inr (snapshot, st))"
    and "runMutation env cur input hash = Inr (d', outcome)"
proof -
  from "write" have w: "writable env cur input snapshot" by (simp add: runMutation_write_iff)
  have "loadOrderSnapshot cur (in_orderId input) = snapshot"
    using w
  proof (cases rule: writable_cases)
    case (create t)
    then show ?thesis
      using read by (auto simp: runMutation_read_plan decide_create_apply)
  next
    case (change r)
    then obtain s where s: "snapshot = Some s" by blast
    then have "loadOrderSnapshot_at ((cur # older) ! i) ((cur # older) ! j) (in_orderId input) = Some s"
      using read by (simp add: runMutation_read_plan)
    from informed_snapshot [OF ok idx(2,3) informed this change(3,4)] s show ?thesis by simp
  qed
  then show plan: "runMutation_read cur cur cur input hash = Inr (Inr (snapshot, st))"
    using read writable_processed [OF w]
    by (auto simp: runMutation_read_plan loadOrderSnapshot_same)
  then show "runMutation env cur input hash = Inr (d', outcome)"
    using "write" by (simp add: runMutation_def)
qed

section \<open>Payments under informed requests\<close>

definition payments_of :: "db \<Rightarrow> uuid \<Rightarrow> payment_row list" where
  "payments_of d orderId = filter (\<lambda>p. pay_orderId p = orderId) (db_payments d)"

definition payment_ok :: "db \<Rightarrow> uuid \<Rightarrow> bool" where
  "payment_ok d orderId \<longleftrightarrow>
     (case db_orders d orderId of
        None \<Rightarrow> payments_of d orderId = []
      | Some r \<Rightarrow>
          if ord_status r = PAID
          then map pay_amountCents (payments_of d orderId) = [ord_totalCents r]
          else payments_of d orderId = [])"

lemma payments_after_order: "p \<in> set (payments_after input c cents) \<Longrightarrow> pay_orderId p = in_orderId input"
  by (cases c) auto

lemma payment_ok_same: "same_business d d' \<Longrightarrow> payment_ok d' o' = payment_ok d o'"
  by (simp add: same_business_def payment_ok_def payments_of_def split: option.splits)

lemma payment_ok_outbox [simp]: "payment_ok (d\<lparr>db_outbox := rows\<rparr>) o' = payment_ok d o'"
  by (simp add: payment_ok_def payments_of_def split: option.splits)

lemma payment_ok_commit:
  assumes read: "runMutation_read d d d input hash = Inr (Inr (snapshot, st))"
    and w: "writable env d input snapshot" and ok: "payment_ok d o'"
  shows "payment_ok (committed env d input hash (cents_read snapshot) st) o'"
proof (cases "o' = in_orderId input")
  case False
  then have "filter (\<lambda>p. pay_orderId p = o') (payments_after input (in_command input) c) = []" for c
    by (auto simp: filter_empty_conv dest: payments_after_order)
  with False ok show ?thesis by (auto simp: payment_ok_def payments_of_def split: option.splits if_splits)
next
  case True
  from w show ?thesis
  proof (cases rule: writable_cases)
    case (create t)
    then show ?thesis using True ok by (simp add: payment_ok_def payments_of_def row_after_def)
  next
    case (change r)
    have s: "snapshot = Some (snapshot_of o' r (db_items d o'))"
      using read change(3) True
      by (simp add: runMutation_read_plan loadOrderSnapshot_same loadOrderSnapshot_Some_iff)
    then have acc: "accepts (snapshot_of o' r (db_items d o')) (in_command input)"
      and st: "st = outcome_status (ord_status r) (in_command input)"
      using read by (auto simp: runMutation_read_plan decide_apply_iff)
    show ?thesis
      using acc st change True ok
      by (cases "in_command input")
        (auto simp: payment_ok_def payments_of_def row_after_def cents_read_def s total_after_def)
  qed
qed

lemma payment_ok_step:
  assumes "server_step sha256 informed_request s t" and "server_ok s" and "payment_ok (current s) o'"
  shows "payment_ok (current t) o'"
  using assms
proof (induction rule: server_step.induct)
  case (commit s cur older k j i input snapshot nextStatus env d' outcome)
  then have h: "history_ok (cur # older)" by (simp add: server_ok_def)
  have "runMutation_read cur cur cur input (input_hash sha256 input) = Inr (Inr (snapshot, nextStatus))"
    by (rule informed_commit_atomic(1) [OF h commit(2,3)])
      (use commit in \<open>simp_all\<close>)
  moreover have "writable env cur input snapshot"
    and "d' = committed env cur input (input_hash sha256 input) (cents_read snapshot) nextStatus"
    using commit(8) by (simp_all add: runMutation_write_iff)
  ultimately show ?case
    using commit(1,10) payment_ok_commit by (simp add: current_def)
next
  case (settle s cur older input d' settled)
  then show ?case using payment_ok_same settle_frame by (fastforce simp: current_def)
next
  case (conflict s cur older processed header lines' input reason res d')
  then show ?case
    using payment_ok_same [of cur d' o'] conflictOutcome_frame [OF conflict(5)] by (simp add: current_def)
next
  case (resolve s cur older orderId terminalId resolution mutationIds n d')
  then show ?case
    using payment_ok_same [of cur d' o'] resolution_frame [OF resolve(2)] by (simp add: current_def)
next
  case (publisher s cur older rows)
  then show ?case by (simp add: current_def)
qed

lemma reachable_payment_ok:
  "reachable_server sha256 informed_request rs ps s \<Longrightarrow> payment_ok (current s) o'"
proof (induction rule: reachable_server.induct)
  case start
  show ?case by (simp add: payment_ok_def payments_of_def initial_server_def current_def empty_db_def)
next
  case (step s t)
  then show ?case using reachable_server_ok payment_ok_step by blast
qed

end
