(* ===== verification/Mutation_Properties.thy ===== *)
theory Mutation_Properties
  imports Mutation_Interleaving
begin

text \<open>
  What the write path guarantees: of one request on its own (all or nothing, replay, races on a
  version, tenants) and of any number of them interleaved (exactly once, gapless events, totals,
  atomicity and payments of informed requests), and the one guarantee that does not hold for a
  request that is not informed.
\<close>

section \<open>A restaurant to evaluate on\<close>

definition demo_menu :: "menu_item list" where
  "demo_menu =
     [\<lparr>menu_id = ''burger'', menu_name = ''Burger'', menu_priceCents = 1200\<rparr>,
      \<lparr>menu_id = ''cola'', menu_name = ''Cola'', menu_priceCents = 300\<rparr>]"

definition demo_restaurants :: "tenant list" where
  "demo_restaurants = [''demo-restaurant'', ''second-restaurant'']"

definition demo_input :: "uuid \<Rightarrow> int \<Rightarrow> mutation_command \<Rightarrow> mutation_input" where
  "demo_input mutationId baseVersion command =
     \<lparr>in_orderId = ''o1'', in_mutationId = mutationId, in_terminalId = ''pos-1'',
      in_restaurantId = ''demo-restaurant'', in_baseVersion = baseVersion, in_command = command,
      in_traceId = None\<rparr>"

definition demo_env :: "millis \<Rightarrow> uuid \<Rightarrow> tx_env" where
  "demo_env now eventId = \<lparr>tx_now = now, tx_eventId = eventId\<rparr>"

section \<open>Runs of the handler\<close>

lemma loadOrderSnapshot_committed [simp]:
  "loadOrderSnapshot (committed env d input hash cents st) (in_orderId input) =
     Some (snapshot_after env d input st)"
  by (simp add: loadOrderSnapshot_Some_iff snapshot_after_def)

lemma conflict_not_applied:
  "conflictOutcome_at p h l d input hash reason = (Inr out, d') \<Longrightarrow> out_body out \<noteq> APPLIED s v"
  by (auto simp: conflictOutcome_at_def outcomeFor_def toAppliedOutcome_def split: option.splits if_splits)

lemma catchSignal_not_applied:
  "catchSignal d input hash sig = (Inr out, d') \<Longrightarrow> out_body out \<noteq> APPLIED s v"
  by (cases sig)
    (auto simp: catchSignal_def alreadyAppliedOutcome_def racedOutcome_def outcomeFor_def
       settle_already_applied_def toAppliedOutcome_def conflict_not_applied
       split: option.splits if_splits sum.splits prod.splits decision.splits)

text \<open>The two ways a run on one database can go.\<close>

lemma applyMutation_cases:
  assumes "applyMutation sha256 env d input = (res, d')"
  obtains (applied) snapshot st
      where "runMutation_read d d d input (input_hash sha256 input) = Inr (Inr (snapshot, st))"
        and "writable env d input snapshot"
        and "d' = committed env d input (input_hash sha256 input) (cents_read snapshot) st"
        and "res = Inr (applied_outcome (snapshot_after env d input st))"
    | (replayed) outcome
      where "runMutation_read d d d input (input_hash sha256 input) = Inr (Inl outcome)"
        and "d' = d" and "res = Inr outcome"
    | (refused) sig
      where "runMutation env d input (input_hash sha256 input) = Inl sig"
        and "catchSignal d input (input_hash sha256 input) sig = (res, d')"
proof (cases "runMutation env d input (input_hash sha256 input)")
  case (Inl sig)
  then show thesis using assms refused by (simp add: applyMutation_def)
next
  case (Inr p)
  then obtain outcome where run: "runMutation env d input (input_hash sha256 input) = Inr (d', outcome)"
      and res: "res = Inr outcome"
    using assms by (cases p) (simp add: applyMutation_def)
  from run obtain plan where read: "runMutation_read d d d input (input_hash sha256 input) = Inr plan"
      and rest: "(case plan of Inl outcome \<Rightarrow> Inr (d, outcome)
        | Inr (snapshot, nextStatus) \<Rightarrow>
            runMutation_write env d input (input_hash sha256 input) snapshot nextStatus) = Inr (d', outcome)"
    unfolding runMutation_def and_then_Inr_iff by blast
  show thesis
  proof (cases plan)
    case (Inl o1)
    then show thesis using replayed [of o1] read rest res by simp
  next
    case (Inr q)
    obtain snapshot st where q: "q = (snapshot, st)" by (cases q)
    have "runMutation_write env d input (input_hash sha256 input) snapshot st = Inr (d', outcome)"
      using rest by (simp add: Inr q)
    then show thesis
      using applied [of snapshot st] read res by (simp add: Inr q runMutation_write_iff)
  qed
qed

lemma replayed_not_applied:
  "runMutation_read h l p input hash = Inr (Inl outcome) \<Longrightarrow> out_body outcome \<noteq> APPLIED s v"
  by (auto simp: runMutation_read_def Let_def toAppliedOutcome_def
      split: option.splits sum.splits decision.splits if_splits)

lemma read_processed_None:
  "db_processed p (in_mutationId input) = None \<Longrightarrow> runMutation_read h l p input hash \<noteq> Inr (Inl outcome)"
  by (auto simp: runMutation_read_def Let_def split: option.splits sum.splits decision.splits)

lemma later_own:
  assumes "later d d'" and "db_orders d o' = Some r"
  obtains r' where "db_orders d' o' = Some r'" and "ord_restaurantId r' = ord_restaurantId r"
proof -
  have "order_later d d' o'" using assms(1) by (simp add: later_def)
  then show thesis using assms(2) that by (cases "db_orders d' o'") (auto simp: order_later_def)
qed

text \<open>A mutation that is on record, whatever the state of its order.\<close>

lemma stored_mutation_answer:
  assumes "db_orders d (in_orderId input) = Some r" and "ord_restaurantId r = in_restaurantId input"
    and "db_processed d (in_mutationId input) = Some p"
  shows "pm_requestHash p = input_hash sha256 input \<Longrightarrow>
      applyMutation sha256 env d input = (Inr (toAppliedOutcome p), d)"
    and "pm_requestHash p \<noteq> input_hash sha256 input \<Longrightarrow>
      applyMutation sha256 env d input = (Inr \<lparr>out_httpStatus = 409, out_body = MUTATION_ID_REUSED\<rparr>, d)"
  using assms
  by (simp_all add: applyMutation_def runMutation_def runMutation_read_def and_then_def
      loadOrderSnapshot_at_def snapshot_of_def catchSignal_def)

lemma read_own:
  assumes "runMutation env d input hash = Inl sig" and "sig \<noteq> CrossTenantSignal"
    and "db_orders d (in_orderId input) = Some r"
  shows "ord_restaurantId r = in_restaurantId input"
proof (rule ccontr)
  assume "ord_restaurantId r \<noteq> in_restaurantId input"
  then have "runMutation env d input hash = Inl CrossTenantSignal"
    using assms(3)
    by (simp add: runMutation_def runMutation_read_def loadOrderSnapshot_at_def snapshot_of_def and_then_def)
  then show False using assms(1,2) by simp
qed

lemma settled_answer:
  assumes "catchSignal d input hash AlreadyAppliedSignal = (Inr out, d')"
    and "db_processed d (in_mutationId input) = None" and "out_httpStatus out = 200"
  shows "\<exists>order. loadOrderSnapshot d (in_orderId input) = Some order
    \<and> out = \<lparr>out_httpStatus = 200, out_body = ALREADY_APPLIED order (snap_version order)\<rparr>
    \<and> insert_processed d input hash order = Inr d'"
proof (cases "settle_already_applied d input hash")
  case (Inl e)
  then show ?thesis using assms(1) by (simp add: catchSignal_def alreadyAppliedOutcome_def)
next
  case (Inr p)
  obtain d1 settled where p: "p = (d1, settled)" by (cases p)
  show ?thesis
  proof (cases settled)
    case (Inl reason)
    then have "d1 = d" using Inr p
      by (auto simp: settle_already_applied_def split: option.splits sum.splits decision.splits)
    then show ?thesis
      using assms Inr p Inl
      by (auto simp: catchSignal_def alreadyAppliedOutcome_def conflictOutcome_at_def
          split: option.splits if_splits)
  next
    case ok: (Inr o1)
    then have "out = o1" "d' = d1" using assms(1) Inr p
      by (simp_all add: catchSignal_def alreadyAppliedOutcome_def)
    then show ?thesis
      using Inr p ok assms(2)
      by (auto simp: settle_already_applied_def insert_processed_def
          split: option.splits sum.splits decision.splits)
  qed
qed

lemma applyMutation_db_ok:
  assumes "db_ok d" and "command_valid (in_command input)"
    and "applyMutation sha256 env d input = (res, d')"
  shows "db_ok d'"
  using assms(3)
proof (cases rule: applyMutation_cases)
  case (applied snapshot st)
  then show ?thesis using assms(1,2) by (simp add: db_ok_committed)
next
  case (replayed outcome)
  then show ?thesis using assms(1) by simp
next
  case (refused sig)
  then show ?thesis using assms(1) catchSignal_frame by blast
qed

section \<open>One request\<close>

text \<open>
  C1. A request is all or nothing. Whatever it is, the database stays well-formed, and either the
  answer is \<open>APPLIED\<close> with the order as it now stands, one version on (or at version 1, newly
  created), with exactly one event added, at that version, and the mutation recorded; or no order,
  line, payment or event has changed at all.
\<close>

theorem applyMutation_all_or_nothing:
  assumes "db_ok d" and "command_valid (in_command input)"
    and "applyMutation sha256 env d input = (res, d')"
  shows "db_ok d' \<and>
    ((\<exists>s e. res = Inr \<lparr>out_httpStatus = 200, out_body = APPLIED s (snap_version s)\<rparr>
        \<and> loadOrderSnapshot d' (in_orderId input) = Some s
        \<and> snap_version s = (case loadOrderSnapshot d (in_orderId input) of
              None \<Rightarrow> 1 | Some before \<Rightarrow> snap_version before + 1)
        \<and> db_outbox d' = db_outbox d @ [e] \<and> ob_aggregateId e = in_orderId input
        \<and> ob_eventVersion e = snap_version s
        \<and> ob_eventType e = EVENT_TYPE_BY_MUTATION (mutation_type_of (in_command input))
        \<and> db_processed d (in_mutationId input) = None \<and> db_processed d' (in_mutationId input) \<noteq> None)
     \<or> ((\<forall>out s v. res = Inr out \<longrightarrow> out_body out \<noteq> APPLIED s v) \<and> same_business d d'))"
  using assms(3)
proof (cases rule: applyMutation_cases)
  case (applied snapshot st)
  let ?s = "snapshot_after env d input st"
  have "db_ok d'" using assms(1,2) applied(2,3) by (simp add: db_ok_committed)
  moreover have "snap_version ?s = (case loadOrderSnapshot d (in_orderId input) of
      None \<Rightarrow> 1 | Some before \<Rightarrow> snap_version before + 1)"
    using row_after_version [OF applied(2)]
    by (auto simp: loadOrderSnapshot_def loadOrderSnapshot_at_def split: option.splits)
  moreover have "db_processed d' (in_mutationId input) \<noteq> None"
    by (simp add: applied(3) committed_def)
  ultimately show ?thesis
    using applied writable_processed [OF applied(2)] by (auto simp: applied_outcome_def)
next
  case (replayed outcome)
  then show ?thesis using assms(1) replayed_not_applied by auto
next
  case (refused sig)
  then show ?thesis using assms(1) catchSignal_frame catchSignal_not_applied by blast
qed

theorem applyMutation_all_or_nothing_witness:
  "db_ok (snd (applyMutation id (demo_env 5 ''e1'') (empty_db demo_restaurants demo_menu)
     (demo_input ''m1'' 0 (CreateOrder ''7''))))"
  using applyMutation_all_or_nothing [OF db_ok_empty _ surjective_pairing,
      of "demo_input ''m1'' 0 (CreateOrder ''7'')" id "demo_env 5 ''e1''" demo_restaurants demo_menu]
  by (simp add: demo_input_def)

text \<open>An accepted mutation leaves its record, with the answer it got.\<close>

lemma accepted_leaves_record:
  assumes "db_processed d (in_mutationId input) = None"
    and first: "applyMutation sha256 env d input = (Inr out, d1)" and "out_httpStatus out = 200"
  shows "\<exists>r1 p. db_orders d1 (in_orderId input) = Some r1
      \<and> ord_restaurantId r1 = in_restaurantId input
      \<and> db_processed d1 (in_mutationId input) = Some p \<and> pm_requestHash p = input_hash sha256 input
      \<and> (out_body out = APPLIED (pm_order p) (pm_serverVersion p)
         \<or> out_body out = ALREADY_APPLIED (pm_order p) (pm_serverVersion p))"
  using first
proof (cases rule: applyMutation_cases)
  case (applied snapshot st)
  have "ord_restaurantId (row_after env d input st) = in_restaurantId input"
    using applied(1)
    by (auto simp: runMutation_read_plan loadOrderSnapshot_same loadOrderSnapshot_Some_iff row_after_def
        split: option.splits)
  then show ?thesis
    using applied by (auto simp: applied_outcome_def committed_def)
next
  case (replayed outcome)
  then show ?thesis using read_processed_None assms(1) by blast
next
  case (refused sig)
  have sig: "sig = AlreadyAppliedSignal"
    using refused(2) assms(1,3)
    by (cases sig) (auto simp: catchSignal_def conflictOutcome_at_def racedOutcome_def
        split: option.splits if_splits)
  have own: "ord_restaurantId r = in_restaurantId input" if "db_orders d (in_orderId input) = Some r" for r
    using read_own [OF refused(1) [unfolded sig]] that by blast
  obtain order where order: "loadOrderSnapshot d (in_orderId input) = Some order"
    and out: "out = \<lparr>out_httpStatus = 200, out_body = ALREADY_APPLIED order (snap_version order)\<rparr>"
    and d1: "insert_processed d input (input_hash sha256 input) order = Inr d1"
    using settled_answer [OF refused(2) [unfolded sig] assms(1,3)] by blast
  obtain r where r: "db_orders d (in_orderId input) = Some r"
    using order by (auto simp: loadOrderSnapshot_Some_iff)
  show ?thesis
    using d1 out r own [OF r] by (auto simp: insert_processed_def split: if_splits)
qed

text \<open>
  C5. A retry is answered from the record, and a mutation id names one request for good. Once a
  mutation was answered 200, sending it again, at any later time and whatever happened to the order
  meanwhile, answers \<open>ALREADY_APPLIED\<close> with the very order and version of the first answer and
  changes nothing; and a different request under the same id is refused as \<open>MUTATION_ID_REUSED\<close> and
  changes nothing either.
\<close>

theorem applyMutation_replay:
  assumes "db_ok d" and "db_processed d (in_mutationId input) = None"
    and first: "applyMutation sha256 env d input = (Inr out, d1)" and "out_httpStatus out = 200"
    and later: "later d1 d2"
    and other: "in_mutationId input' = in_mutationId input" "in_orderId input' = in_orderId input"
      "in_restaurantId input' = in_restaurantId input"
      "input_hash sha256 input' \<noteq> input_hash sha256 input"
  shows "\<exists>s v. (out_body out = APPLIED s v \<or> out_body out = ALREADY_APPLIED s v)
      \<and> applyMutation sha256 env2 d2 input =
          (Inr \<lparr>out_httpStatus = 200, out_body = ALREADY_APPLIED s v\<rparr>, d2)
      \<and> applyMutation sha256 env2 d2 input' =
          (Inr \<lparr>out_httpStatus = 409, out_body = MUTATION_ID_REUSED\<rparr>, d2)"
proof -
  let ?hash = "input_hash sha256 input"
  obtain r1 p where r1: "db_orders d1 (in_orderId input) = Some r1"
      "ord_restaurantId r1 = in_restaurantId input"
      and p: "db_processed d1 (in_mutationId input) = Some p" "pm_requestHash p = ?hash"
      and body: "out_body out = APPLIED (pm_order p) (pm_serverVersion p)
         \<or> out_body out = ALREADY_APPLIED (pm_order p) (pm_serverVersion p)"
    using accepted_leaves_record [OF assms(2-4)] by blast
  obtain r2 where r2: "db_orders d2 (in_orderId input) = Some r2" "ord_restaurantId r2 = in_restaurantId input"
    using later_own [OF later r1(1)] r1(2) by metis
  have p2: "db_processed d2 (in_mutationId input) = Some p"
    using later p(1) by (rule later_processed)
  have "applyMutation sha256 env2 d2 input = (Inr (toAppliedOutcome p), d2)"
    by (rule stored_mutation_answer(1) [OF r2 p2 p(2)])
  moreover have "applyMutation sha256 env2 d2 input' =
      (Inr \<lparr>out_httpStatus = 409, out_body = MUTATION_ID_REUSED\<rparr>, d2)"
    using r2 p2 p(2) other by (intro stored_mutation_answer(2)) auto
  ultimately show ?thesis using body by (auto simp: toAppliedOutcome_def)
qed


definition demo_open :: db where
  "demo_open =
     snd (applyMutation id (demo_env 5 ''e1'') (empty_db demo_restaurants demo_menu)
       (demo_input ''m1'' 0 (CreateOrder ''7'')))"

lemmas demo_defs = demo_open_def demo_env_def demo_input_def demo_menu_def demo_restaurants_def

lemmas run_defs =
  applyMutation_def runMutation_def runMutation_read_def runMutation_write_def loadOrderSnapshot_at_def
  loadOrderSnapshot_def decide_defs applyEffect_def load_own_def insert_order_def insert_processed_def
  insert_event_def empty_db_def applied_outcome_def guardedVersionBump_def applyChange_def

lemma demo_open_run:
  "applyMutation id (demo_env 5 ''e1'') (empty_db demo_restaurants demo_menu)
     (demo_input ''m1'' 0 (CreateOrder ''7'')) =
   (Inr (applied_outcome (snapshot_of ''o1''
      \<lparr>ord_restaurantId = ''demo-restaurant'', ord_tableNumber = ''7'', ord_status = OPEN,
       ord_version = 1, ord_totalCents = 0, ord_createdAt = 5, ord_updatedAt = 5\<rparr> [])), demo_open)"
  by (simp add: demo_defs run_defs snapshot_of_def)

lemma demo_open_ok: "db_ok demo_open"
  using applyMutation_db_ok [OF db_ok_empty _ demo_open_run] by (simp add: demo_input_def)

lemma demo_hashes_differ:
  "command_hash id ''o1'' (CreateOrder ''8'') \<noteq> command_hash id ''o1'' (CreateOrder ''7'')"
  by code_simp

theorem applyMutation_replay_witness:
  "fst (applyMutation id (demo_env 9 ''e9'') demo_open (demo_input ''m1'' 0 (CreateOrder ''8''))) =
     Inr \<lparr>out_httpStatus = 409, out_body = MUTATION_ID_REUSED\<rparr>"
  using applyMutation_replay [OF db_ok_empty _ demo_open_run _ later_refl,
      of "demo_input ''m1'' 0 (CreateOrder ''8'')" "demo_env 9 ''e9''"]
  using demo_hashes_differ by (auto simp: demo_input_def empty_db_def applied_outcome_def input_hash_def)


text \<open>
  C6. One winner per version. Of two requests that read the same version of an order, once one is
  applied the other never is: its write finds the version gone, and it answers 409 \<open>CONFLICT\<close> with the
  version it named and the winner's order, leaves one row in \<open>conflict_log\<close> and changes nothing else.
\<close>

theorem applyMutation_one_winner:
  assumes first: "applyMutation sha256 env d input1 = (Inr out, d1)" and won: "out_body out = APPLIED s v"
    and same: "in_orderId input2 = in_orderId input1" "in_baseVersion input2 = in_baseVersion input1"
      "in_mutationId input2 \<noteq> in_mutationId input1"
    and read2: "runMutation_read d d d input2 (input_hash sha256 input2) = Inr (Inr (Some s2, st2))"
  shows "runMutation_write env2 d1 input2 (input_hash sha256 input2) (Some s2) st2 =
      Inl (ConflictSignal ORDER_VERSION_CONFLICT)
    \<and> catchSignal d1 input2 (input_hash sha256 input2) (ConflictSignal ORDER_VERSION_CONFLICT) =
      (Inr \<lparr>out_httpStatus = 409,
            out_body = CONFLICT_RESPONSE ORDER_VERSION_CONFLICT (in_baseVersion input2) v s\<rparr>,
       d1\<lparr>db_conflicts := db_conflicts d1 @ [conflict_entry input2 s]\<rparr>)"
  using first
proof (cases rule: applyMutation_cases)
  case (applied snapshot st)
  have load: "loadOrderSnapshot d (in_orderId input1) = Some s2"
    using read2 same(1) by (simp add: runMutation_read_plan loadOrderSnapshot_same)
  have plan: "db_processed d (in_mutationId input2) = None" "\<nexists>t. in_command input2 = CreateOrder t"
    using read2 same(1) load by (auto simp: runMutation_read_plan decide_create_apply loadOrderSnapshot_same)
  from load have ex: "db_orders d (in_orderId input1) \<noteq> None"
    by (auto simp: loadOrderSnapshot_Some_iff)
  from applied(2) obtain r where r: "db_orders d (in_orderId input1) = Some r"
      "ord_version r = in_baseVersion input1" "int4 (in_baseVersion input1)"
    using ex by (cases rule: writable_cases) auto
  have v: "s = snapshot_after env d input1 st" "v = ord_version (row_after env d input1 st)"
    using applied(4) won by (simp_all add: applied_outcome_def)
  have newer: "ord_version (row_after env d input1 st) \<noteq> in_baseVersion input2"
    using r same by (simp add: row_after_def)
  have write2: "guardedVersionBump now d1 input2 st2 = Inl (ConflictSignal ORDER_VERSION_CONFLICT)" for now
    using newer r same by (simp add: guardedVersionBump_def applied(3))
  have fresh: "db_processed d1 (in_mutationId input2) = None"
    using plan(1) same(3) by (simp add: applied(3) committed_def)
  have "loadOrderSnapshot d1 (in_orderId input2) = Some s"
    by (simp add: applied(3) same(1) v)
  then show ?thesis
    using plan(2) write2 fresh r same v
    by (cases "in_command input2")
      (simp_all add: runMutation_write_def applyEffect_def catchSignal_def conflictOutcome_at_def
        loadOrderSnapshot_same)
next
  case (replayed outcome)
  then show ?thesis using won replayed_not_applied by blast
next
  case (refused sig)
  then show ?thesis using won catchSignal_not_applied by blast
qed

lemma demo_add_run:
  "\<exists>d1. applyMutation id (demo_env 6 ''e2'') demo_open (demo_input ''m2'' 1 (AddItem ''burger'' 1)) =
   (Inr (applied_outcome (snapshot_of ''o1''
      \<lparr>ord_restaurantId = ''demo-restaurant'', ord_tableNumber = ''7'', ord_status = OPEN,
       ord_version = 2, ord_totalCents = 1200, ord_createdAt = 5, ord_updatedAt = 6\<rparr>
      [\<lparr>line_item = \<lparr>item_productId = ''burger'', item_name = ''Burger'', item_quantity = 1,
                      item_unitPriceCents = 1200\<rparr>, line_createdAt = 6, line_updatedAt = 6\<rparr>])), d1)"
  by (simp add: demo_defs run_defs snapshot_of_def int4_def tx_defs write_lines_def quantities_int4_def
      upsert_line_def recalculateTotal_def lines_total_def line_cents_def line_total_def Let_def
      new_event_def)

theorem applyMutation_one_winner_witness:
  "\<exists>d1 s2. runMutation_write (demo_env 7 ''e3'') d1 (demo_input ''m3'' 1 SendToKitchen)
     (input_hash id (demo_input ''m3'' 1 SendToKitchen)) (Some s2) SENT_TO_KITCHEN =
   Inl (ConflictSignal ORDER_VERSION_CONFLICT)"
proof -
  let ?s2 = "snapshot_of ''o1''
      \<lparr>ord_restaurantId = ''demo-restaurant'', ord_tableNumber = ''7'', ord_status = OPEN,
       ord_version = 1, ord_totalCents = 0, ord_createdAt = 5, ord_updatedAt = 5\<rparr> []"
  have read: "runMutation_read demo_open demo_open demo_open (demo_input ''m3'' 1 SendToKitchen) h =
      Inr (Inr (Some ?s2, SENT_TO_KITCHEN))" for h
    by (simp add: demo_defs run_defs snapshot_of_def)
  from demo_add_run show ?thesis
    using applyMutation_one_winner [OF _ _ _ _ _ read]
    by (fastforce simp: applied_outcome_def demo_input_def)
qed


section \<open>Tenants\<close>

fun answer_order :: "mutation_response \<Rightarrow> order_snapshot option" where
  "answer_order (APPLIED s _) = Some s"
| "answer_order (ALREADY_APPLIED s _) = Some s"
| "answer_order (CONFLICT_RESPONSE _ _ _ s) = Some s"
| "answer_order _ = None"

text \<open>The order of an answer, wherever the answer came from.\<close>

lemma conflict_answer_order:
  assumes "conflictOutcome_at d d d d input hash reason = (Inr out, d')"
    and "answer_order (out_body out) = Some s"
  shows "loadOrderSnapshot d (in_orderId input) = Some s
    \<or> (\<exists>p. db_processed d (in_mutationId input) = Some p \<and> pm_requestHash p = hash \<and> s = pm_order p)"
  using assms
  by (auto simp: conflictOutcome_at_def outcomeFor_def toAppliedOutcome_def loadOrderSnapshot_same
      split: option.splits if_splits)

lemma settle_same: "settle_already_applied d input hash = Inr (d', Inl reason) \<Longrightarrow> d' = d"
  by (auto simp: settle_already_applied_def split: option.splits sum.splits decision.splits)

lemma catchSignal_answer_order:
  assumes "catchSignal d input hash sig = (Inr out, d')" and "answer_order (out_body out) = Some s"
  shows "sig \<noteq> CrossTenantSignal"
    and "loadOrderSnapshot d (in_orderId input) = Some s
      \<or> (\<exists>p. db_processed d (in_mutationId input) = Some p \<and> pm_requestHash p = hash \<and> s = pm_order p)"
proof -
  show "sig \<noteq> CrossTenantSignal" using assms by (auto simp: catchSignal_def)
  show "loadOrderSnapshot d (in_orderId input) = Some s
      \<or> (\<exists>p. db_processed d (in_mutationId input) = Some p \<and> pm_requestHash p = hash \<and> s = pm_order p)"
  proof (cases sig)
    case (ConflictSignal reason)
    then show ?thesis using assms conflict_answer_order by (auto simp: catchSignal_def)
  next
    case AlreadyAppliedSignal
    then have run: "alreadyAppliedOutcome d input hash = (Inr out, d')"
      using assms by (simp add: catchSignal_def)
    show ?thesis
    proof (cases "settle_already_applied d input hash")
      case (Inl e)
      then show ?thesis using run by (simp add: alreadyAppliedOutcome_def)
    next
      case (Inr q)
      obtain d1 settled where q: "q = (d1, settled)" by (cases q)
      show ?thesis
      proof (cases settled)
        case (Inl reason)
        then have "d1 = d" using Inr q settle_same by simp
        then show ?thesis
          using run Inr q Inl conflict_answer_order assms(2) by (auto simp: alreadyAppliedOutcome_def)
      next
        case o1: (Inr o1)
        then have "loadOrderSnapshot d (in_orderId input) = Some s"
          using run Inr q assms(2)
          by (auto simp: alreadyAppliedOutcome_def settle_already_applied_def
              split: option.splits sum.splits decision.splits)
        then show ?thesis ..
      qed
    qed
  qed (use assms in \<open>auto simp: catchSignal_def racedOutcome_def outcomeFor_def toAppliedOutcome_def
        split: option.splits if_splits\<close>)
qed

text \<open>A plan and a replayed answer are both for an order of the request's own restaurant.\<close>

lemma planned_own:
  assumes "runMutation_read d d d input h = Inr (Inr (snapshot, st))" and "db_orders d (in_orderId input) = Some r"
  shows "ord_restaurantId r = in_restaurantId input"
proof -
  have "loadOrderSnapshot d (in_orderId input) = Some (snapshot_of (in_orderId input) r (db_items d (in_orderId input)))"
    using assms(2) by (simp add: loadOrderSnapshot_Some_iff)
  then show ?thesis using assms(1) by (auto simp: runMutation_read_plan loadOrderSnapshot_same)
qed

lemma replayed_own:
  assumes "runMutation_read d d d input h = Inr (Inl outcome)"
  shows "\<exists>p. db_processed d (in_mutationId input) = Some p \<and> pm_requestHash p = h \<and> outcome = toAppliedOutcome p"
    and "\<And>r. db_orders d (in_orderId input) = Some r \<Longrightarrow> ord_restaurantId r = in_restaurantId input"
  using assms
  by (auto simp: runMutation_read_def Let_def loadOrderSnapshot_at_def
      split: option.splits sum.splits decision.splits if_splits)

text \<open>
  C7. A terminal acts on its own restaurant only. Whatever it sends, no order of another restaurant
  changes: not its row, its lines, its payments or its events. And no answer carries an order of
  another restaurant, provided that equal request hashes come from requests about one order (which
  the order id inside the hashed text is for).
\<close>

theorem applyMutation_tenant_isolation:
  assumes "db_ok d" and run: "applyMutation sha256 env d input = (res, d')"
    and hash: "\<And>p. db_processed d (in_mutationId input) = Some p \<Longrightarrow>
      pm_requestHash p = input_hash sha256 input \<Longrightarrow> pm_orderId p = in_orderId input"
  shows "(\<forall>o' r. db_orders d o' = Some r \<longrightarrow> ord_restaurantId r \<noteq> in_restaurantId input \<longrightarrow>
      db_orders d' o' = Some r \<and> db_items d' o' = db_items d o' \<and> payments_of d' o' = payments_of d o'
      \<and> events_of d' o' = events_of d o')
    \<and> (\<forall>out s. res = Inr out \<longrightarrow> answer_order (out_body out) = Some s \<longrightarrow>
        snap_restaurantId s = in_restaurantId input)"
proof -
  have stored: "snap_restaurantId (pm_order p) = in_restaurantId input"
    if p: "db_processed d (in_mutationId input) = Some p" "pm_requestHash p = input_hash sha256 input"
      and own: "\<And>r. db_orders d (in_orderId input) = Some r \<Longrightarrow> ord_restaurantId r = in_restaurantId input"
    for p
  proof -
    have "stored_ok d p" using assms(1) p(1) by (auto simp: db_ok_def processed_ok_def)
    then show ?thesis using hash [OF p] own by (auto simp: stored_ok_def)
  qed
  show ?thesis
    using run
  proof (cases rule: applyMutation_cases)
    case (applied snapshot st)
    note own = planned_own [OF applied(1)]
    have "ord_restaurantId (row_after env d input st) = in_restaurantId input"
      using own by (auto simp: row_after_def split: option.splits)
    then show ?thesis
      using applied(3,4) own
      by (auto simp: applied_outcome_def payments_of_def events_of_def filter_empty_conv
          dest: payments_after_order)
  next
    case (replayed outcome)
    note read = replayed_own [OF replayed(1)]
    then show ?thesis using replayed(2,3) stored [OF _ _ read(2)] by (auto simp: toAppliedOutcome_def)
  next
    case (refused sig)
    have "same_business d d'" using refused(2) catchSignal_frame assms(1) by blast
    moreover have "snap_restaurantId s = in_restaurantId input"
      if "res = Inr out" "answer_order (out_body out) = Some s" for out s
    proof -
      note answer = catchSignal_answer_order [OF refused(2) [unfolded that(1)] that(2)]
      then have own: "ord_restaurantId r = in_restaurantId input"
        if "db_orders d (in_orderId input) = Some r" for r
        using read_own [OF refused(1)] that by blast
      from answer(2) show ?thesis
        using stored [OF _ _ own] own by (auto simp: loadOrderSnapshot_Some_iff)
    qed
    ultimately show ?thesis by (auto simp: same_business_def payments_of_def events_of_def)
  qed
qed

theorem applyMutation_tenant_isolation_witness:
  "db_orders (snd (applyMutation id (demo_env 6 ''e2'') demo_open
     (demo_input ''m2'' 1 (AddItem ''burger'' 1)\<lparr>in_restaurantId := ''second-restaurant''\<rparr>))) ''o1'' =
   db_orders demo_open ''o1''"
proof -
  let ?input = "demo_input ''m2'' 1 (AddItem ''burger'' 1)\<lparr>in_restaurantId := ''second-restaurant''\<rparr>"
  have "db_orders demo_open ''o1'' = Some \<lparr>ord_restaurantId = ''demo-restaurant'',
      ord_tableNumber = ''7'', ord_status = OPEN, ord_version = 1, ord_totalCents = 0,
      ord_createdAt = 5, ord_updatedAt = 5\<rparr>"
    and "db_processed demo_open ''m2'' = None"
    by (simp_all add: demo_defs run_defs)
  then show ?thesis
    using applyMutation_tenant_isolation [OF demo_open_ok surjective_pairing, of ?input id "demo_env 6 ''e2''"]
    by (simp add: demo_input_def)
qed

end
