(* ===== verification/Mutation_Concurrency.thy ===== *)
theory Mutation_Concurrency
  imports Mutation_Properties
begin

text \<open>
  What the write path guarantees of any number of requests in flight at once: each mutation commits
  at most once, the events of an order are gapless, totals are the sums of the lines, a commit of an
  informed request is one atomic run of the handler, and informed payments are made once and in full.
  The last section is the one guarantee that fails for a request that is not informed.
\<close>

section \<open>An executable commit\<close>

text \<open>The request reads the state \<open>i\<close> commits ago in all three of its reads.\<close>

definition commit_from ::
  "(string \<Rightarrow> string) \<Rightarrow> tx_env \<Rightarrow> nat \<Rightarrow> mutation_input \<Rightarrow> server \<Rightarrow> server option" where
  "commit_from sha256 env i input s =
     (let d = srv_history s ! i; hash = input_hash sha256 input in
      case runMutation_read d d d input hash of
        Inr (Inr (snapshot, nextStatus)) \<Rightarrow>
          (case runMutation_write env (current s) input hash snapshot nextStatus of
             Inr (d', outcome) \<Rightarrow>
               Some \<lparr>srv_history = d' # srv_history s, srv_log = srv_log s @ [commit_of input outcome]\<rparr>
           | Inl _ \<Rightarrow> None)
      | _ \<Rightarrow> None)"

lemma commit_from_step:
  assumes "commit_from sha256 env i input s = Some t" and "i < length (srv_history s)"
    and "allowed (srv_history s ! i) input" and "command_valid (in_command input)"
  shows "server_step sha256 allowed s t"
proof -
  from assms(2) obtain cur older where h: "srv_history s = cur # older" by (cases "srv_history s") auto
  let ?d = "srv_history s ! i"
  from assms(1) obtain snapshot st d' outcome
    where read: "runMutation_read ?d ?d ?d input (input_hash sha256 input) = Inr (Inr (snapshot, st))"
      and "write": "runMutation_write env cur input (input_hash sha256 input) snapshot st = Inr (d', outcome)"
      and t: "t = \<lparr>srv_history = d' # cur # older, srv_log = srv_log s @ [commit_of input outcome]\<rparr>"
    by (auto simp: commit_from_def Let_def current_def h split: sum.splits prod.splits)
  show ?thesis
    unfolding t
    by (rule server_step.commit [where i = i and j = i and k = i, OF h _ _ _ _ assms(4) read "write"])
      (use assms(2,3) in simp_all)
qed

lemma reachable_commit:
  assumes "reachable_server sha256 allowed rs ps s" and "commit_from sha256 env i input s = Some t"
    and "i < length (srv_history s)" and "allowed (srv_history s ! i) input"
    and "command_valid (in_command input)"
  shows "reachable_server sha256 allowed rs ps t"
  using assms(1)
proof (rule reachable_server.step)
  show "server_step sha256 allowed s t" using assms(2-5) by (rule commit_from_step)
qed

definition demo_server :: server where
  "demo_server =
     the (commit_from id (demo_env 5 ''e1'') 0 (demo_input ''m1'' 0 (CreateOrder ''7''))
       (initial_server demo_restaurants demo_menu))"

lemma demo_create_commit:
  "commit_from id (demo_env 5 ''e1'') 0 (demo_input ''m1'' 0 (CreateOrder ''7''))
     (initial_server demo_restaurants demo_menu) = Some demo_server"
  by (simp add: demo_server_def commit_from_def initial_server_def current_def demo_defs run_defs)

lemma demo_server_reachable:
  assumes "allowed (empty_db demo_restaurants demo_menu) (demo_input ''m1'' 0 (CreateOrder ''7''))"
  shows "reachable_server id allowed demo_restaurants demo_menu demo_server"
  by (rule reachable_commit [OF reachable_server.start demo_create_commit])
    (use assms in \<open>simp_all add: initial_server_def demo_input_def\<close>)

lemma calculateTotalCents_lines: "calculateTotalCents (map line_item ls) = lines_total ls"
  by (simp add: calculateTotalCents_sum lines_total_def line_cents_def [abs_def] comp_def)

section \<open>Exactly once\<close>

text \<open>
  C3. However the requests interleave, whatever each of them had read, and whatever the publisher did
  to its columns meanwhile: the mutations that committed are distinct, the outbox holds exactly one
  event for each of them in commit order, the events of every order carry the versions
  \<open>1, 2, ..., version\<close> without a gap or a repetition, and the total of every order is the sum of its
  lines, one line per product.
\<close>

theorem mutations_commit_exactly_once:
  assumes "reachable_server sha256 allowed rs ps s"
  shows "distinct (map ce_mutationId (srv_log s))
    \<and> map event_key (db_outbox (current s)) = map commit_key (srv_log s)
    \<and> (\<forall>c \<in> set (srv_log s). db_processed (current s) (ce_mutationId c) \<noteq> None)
    \<and> (\<forall>orderId. case db_orders (current s) orderId of
          None \<Rightarrow> events_of (current s) orderId = []
        | Some r \<Rightarrow>
            map ob_eventVersion (events_of (current s) orderId) = [1..ord_version r]
            \<and> ord_totalCents r = calculateTotalCents (map line_item (db_items (current s) orderId))
            \<and> distinct (map line_product (db_items (current s) orderId)))"
proof -
  have ok: "server_ok s" using assms by (rule reachable_server_ok)
  then have "db_ok (current s)"
    by (cases "srv_history s") (auto simp: server_ok_def history_ok_def current_def)
  then have order: "order_ok (current s) orderId" for orderId by (simp add: db_ok_def)
  have "case db_orders (current s) orderId of
      None \<Rightarrow> events_of (current s) orderId = []
    | Some r \<Rightarrow>
        map ob_eventVersion (events_of (current s) orderId) = [1..ord_version r]
        \<and> ord_totalCents r = calculateTotalCents (map line_item (db_items (current s) orderId))
        \<and> distinct (map line_product (db_items (current s) orderId))" for orderId
    using order [of orderId]
    by (simp add: order_ok_def lines_ok_def calculateTotalCents_lines split: option.splits)
  then show ?thesis
    using ok by (simp add: server_ok_def log_ok_def)
qed

theorem mutations_commit_exactly_once_witness:
  "distinct (map ce_mutationId (srv_log demo_server)) \<and> length (db_outbox (current demo_server)) = 1"
proof -
  have "length (srv_log demo_server) = 1"
    by (simp add: demo_server_def commit_from_def initial_server_def current_def demo_defs run_defs)
  then show ?thesis
    using mutations_commit_exactly_once [OF demo_server_reachable, of any_request]
    by (auto simp: any_request_def dest: map_eq_imp_length_eq)
qed

section \<open>Informed requests\<close>

text \<open>
  C4. The unlocked reads do no harm to an informed request. If the base version it names is not ahead
  of the version in the header it read, and its write goes through, then the outcome and the new
  state of the database are those of \<open>applyMutation\<close> run alone on the latest committed state,
  although its header, its lines and its look at \<open>processed_mutations\<close> may each come from a different
  and older one.
\<close>

theorem informed_commit_is_atomic:
  assumes "reachable_server sha256 allowed rs ps s" and "srv_history s = cur # older"
    and "k \<le> j" "j \<le> i" "i < length (srv_history s)"
    and "informed_request (srv_history s ! i) input"
    and "runMutation_read (srv_history s ! i) (srv_history s ! j) (srv_history s ! k) input
      (input_hash sha256 input) = Inr (Inr (snapshot, st))"
    and "runMutation_write env cur input (input_hash sha256 input) snapshot st = Inr (d', outcome)"
  shows "applyMutation sha256 env cur input = (Inr outcome, d')"
proof -
  have "history_ok (cur # older)"
    using reachable_server_ok [OF assms(1)] assms(2) by (simp add: server_ok_def)
  from informed_commit_atomic(2) [OF this assms(3,4)] assms(2,5-8) show ?thesis
    by (simp add: applyMutation_def)
qed

definition demo_settled :: db where
  "demo_settled =
     snd (applyMutation id (demo_env 6 ''e2'') (current demo_server) (demo_input ''m2'' 1 SendToKitchen))"

lemma demo_server_history: "srv_history demo_server = [demo_open, empty_db demo_restaurants demo_menu]"
  by (simp add: demo_server_def commit_from_def initial_server_def current_def demo_defs run_defs)

theorem informed_commit_is_atomic_witness:
  "\<exists>d'. applyMutation id (demo_env 6 ''e2'') demo_open (demo_input ''m2'' 1 SendToKitchen) =
     (Inr \<lparr>out_httpStatus = 200, out_body = APPLIED (snapshot_of ''o1''
        \<lparr>ord_restaurantId = ''demo-restaurant'', ord_tableNumber = ''7'', ord_status = SENT_TO_KITCHEN,
         ord_version = 2, ord_totalCents = 0, ord_createdAt = 5, ord_updatedAt = 6\<rparr> []) 2\<rparr>, d')"
proof -
  let ?input = "demo_input ''m2'' 1 SendToKitchen"
  let ?s1 = "snapshot_of ''o1''
      \<lparr>ord_restaurantId = ''demo-restaurant'', ord_tableNumber = ''7'', ord_status = OPEN,
       ord_version = 1, ord_totalCents = 0, ord_createdAt = 5, ord_updatedAt = 5\<rparr> []"
  let ?s2 = "snapshot_of ''o1''
      \<lparr>ord_restaurantId = ''demo-restaurant'', ord_tableNumber = ''7'', ord_status = SENT_TO_KITCHEN,
       ord_version = 2, ord_totalCents = 0, ord_createdAt = 5, ord_updatedAt = 6\<rparr> []"
  have read: "runMutation_read demo_open demo_open demo_open ?input h =
      Inr (Inr (Some ?s1, SENT_TO_KITCHEN))" for h
    by (simp add: demo_defs run_defs snapshot_of_def)
  have "writable (demo_env 6 ''e2'') demo_open ?input (Some ?s1)"
    by (simp add: writable_def demo_defs run_defs int4_def new_event_def lines_fit_def payment_free_def)
  moreover have "snapshot_after (demo_env 6 ''e2'') demo_open ?input SENT_TO_KITCHEN = ?s2"
    by (simp add: snapshot_after_def row_after_def total_after_def demo_defs run_defs)
  ultimately obtain d' where "runMutation_write (demo_env 6 ''e2'') demo_open ?input (input_hash id ?input)
      (Some ?s1) SENT_TO_KITCHEN = Inr (d', applied_outcome ?s2)"
    by (simp add: runMutation_write_iff)
  moreover have "informed_request demo_open ?input"
    by (simp add: informed_request_def demo_defs run_defs)
  ultimately have "applyMutation id (demo_env 6 ''e2'') demo_open ?input = (Inr (applied_outcome ?s2), d')"
    by (intro informed_commit_is_atomic [OF demo_server_reachable [of any_request] demo_server_history,
          where i = 0 and j = 0 and k = 0])
      (simp_all add: any_request_def demo_server_history read)
  then show ?thesis by (simp add: applied_outcome_def)
qed

text \<open>
  C8. Money under informed requests: an order that is \<open>PAID\<close> has exactly one payment, of exactly its
  total, and an order that is not \<open>PAID\<close> has none, in every reachable state of a server whose
  requests are all informed, whatever their interleaving.
\<close>

theorem informed_orders_are_paid_once:
  assumes "reachable_server sha256 informed_request rs ps s"
    and "db_orders (current s) orderId = Some r"
  shows "map pay_amountCents (payments_of (current s) orderId) =
    (if ord_status r = PAID
     then [calculateTotalCents (map line_item (db_items (current s) orderId))] else [])"
proof -
  have ok: "server_ok s" using assms(1) by (rule reachable_server_ok)
  then have "order_ok (current s) orderId"
    by (cases "srv_history s") (auto simp: server_ok_def history_ok_def current_def db_ok_def)
  then have "ord_totalCents r = calculateTotalCents (map line_item (db_items (current s) orderId))"
    using assms(2)
    by (simp add: order_ok_def calculateTotalCents_lines)
  then show ?thesis
    using reachable_payment_ok [OF assms(1), of orderId] assms(2) by (simp add: payment_ok_def)
qed

theorem informed_orders_are_paid_once_witness:
  "payments_of (current demo_server) ''o1'' = []"
proof -
  have "db_orders (current demo_server) ''o1'' = Some \<lparr>ord_restaurantId = ''demo-restaurant'',
      ord_tableNumber = ''7'', ord_status = OPEN, ord_version = 1, ord_totalCents = 0,
      ord_createdAt = 5, ord_updatedAt = 5\<rparr>"
    by (simp add: current_def demo_server_history demo_defs run_defs)
  moreover have "informed_request (empty_db demo_restaurants demo_menu)
      (demo_input ''m1'' 0 (CreateOrder ''7''))"
    by (simp add: informed_request_def empty_db_def)
  ultimately show ?thesis
    using informed_orders_are_paid_once [OF demo_server_reachable [of informed_request]] by fastforce
qed


section \<open>A request that is not informed\<close>

text \<open>
  The versioned UPDATE compares the base version of the request, not the version of the order that
  \<open>decide\<close> judged. Four requests: an order is opened, a burger added; a payment reads the order at
  version 2 but names base version 3; another payment of the same order commits version 3; then the
  first one's UPDATE finds the version it named.
\<close>

definition race_requests :: "(nat \<times> tx_env \<times> mutation_input) list" where
  "race_requests =
     [(0, demo_env 5 ''e1'', demo_input ''m1'' 0 (CreateOrder ''7'')),
      (0, demo_env 6 ''e2'', demo_input ''m2'' 1 (AddItem ''burger'' 1)),
      (0, demo_env 7 ''e3'', demo_input ''m3'' 2 (Pay CASH)),
      (1, demo_env 8 ''e4'', demo_input ''m4'' 3 (Pay CARD'))]"

fun commit_all :: "(string \<Rightarrow> string) \<Rightarrow> (nat \<times> tx_env \<times> mutation_input) list \<Rightarrow> server \<Rightarrow> server option" where
  "commit_all sha256 [] s = Some s"
| "commit_all sha256 ((i, env, input) # rest) s =
     (if i < length (srv_history s) \<and> command_valid (in_command input)
      then (case commit_from sha256 env i input s of
              None \<Rightarrow> None
            | Some t \<Rightarrow> commit_all sha256 rest t)
      else None)"

lemma commit_all_reachable:
  "commit_all sha256 reqs s = Some t \<Longrightarrow> reachable_server sha256 any_request rs ps s \<Longrightarrow>
     reachable_server sha256 any_request rs ps t"
proof (induction sha256 reqs s rule: commit_all.induct)
  case (2 sha256 i env input rest s)
  then obtain u where u: "commit_from sha256 env i input s = Some u" "commit_all sha256 rest u = Some t"
      and ok: "i < length (srv_history s)" "command_valid (in_command input)"
    by (auto split: if_splits option.splits)
  have "reachable_server sha256 any_request rs ps u"
    using 2(3) u(1) ok(1) _ ok(2) by (rule reachable_commit) (simp add: any_request_def)
  then show ?case using 2(1) [OF _ u] ok u by auto
qed simp

lemma race_outcome:
  "map_option (\<lambda>s. map (\<lambda>p. (pay_mutationId p, pay_amountCents p)) (payments_of (current s) ''o1''))
     (commit_all sha256 race_requests (initial_server demo_restaurants demo_menu)) =
   Some [(''m3'', 1200), (''m4'', 1200)]"
  by code_simp


lemma race_status:
  "map_option (\<lambda>s. map_option ord_status (db_orders (current s) ''o1''))
     (commit_all sha256 race_requests (initial_server demo_restaurants demo_menu)) = Some (Some PAID)"
  by code_simp

text \<open>
  C9. The guard of the UPDATE is not enough for a request that is not informed. A reachable state
  holds an order that was paid twice in full, by two different mutations: the second one was decided
  on the version before the first one's commit and named the version after it.
\<close>

theorem uninformed_order_paid_twice:
  "\<exists>s. reachable_server sha256 any_request demo_restaurants demo_menu s
    \<and> map_option ord_status (db_orders (current s) ''o1'') = Some PAID
    \<and> map (\<lambda>p. (pay_mutationId p, pay_amountCents p)) (payments_of (current s) ''o1'') =
        [(''m3'', 1200), (''m4'', 1200)]"
proof -
  obtain s where s: "commit_all sha256 race_requests (initial_server demo_restaurants demo_menu) = Some s"
    using race_status [of sha256] by auto
  then have "reachable_server sha256 any_request demo_restaurants demo_menu s"
    by (rule commit_all_reachable) (rule reachable_server.start)
  then show ?thesis using race_status [of sha256] race_outcome [of sha256] s by auto
qed

end
