(* ===== verification/Outbox_Publisher.thy ===== *)
theory Outbox_Publisher
  imports Mutation_Interleaving
begin

text \<open>
  The outbox publisher, \<open>apps/worker/src/modules/events/outbox-publisher.ts\<close>, its two switches
  (\<open>packages/db/src/outbox-controls.ts\<close> and the worker's \<open>outbox-controls.ts\<close>) and the replay of
  \<open>replay-last-event.ts\<close>. The table is the list of outbox rows of the order database.

  Each SQL statement is a function on the rows, with the database's \<open>now()\<close> as an argument.
  \<open>FOR UPDATE SKIP LOCKED\<close> skips the ids in \<open>locked\<close>. A pass reads the clock, the switches and the
  liveness of its session between rows; what it reads and how its send ends come in one \<open>tick\<close> per
  row. The lease deadline is \<open>claimedAt + 0.9 * leaseMs\<close>; to stay in integers the model keeps ten
  times the deadline.
\<close>

section \<open>The switches\<close>

record outbox_controls =
  ctl_paused :: bool
  ctl_publishDelayMs :: nat

definition DEFAULT_OUTBOX_CONTROLS :: outbox_controls where
  "DEFAULT_OUTBOX_CONTROLS = \<lparr>ctl_paused = False, ctl_publishDelayMs = 0\<rparr>"

text \<open>The table holds the one row with id \<open>singleton\<close>, or none.\<close>

definition readOutboxControls :: "outbox_controls option \<Rightarrow> outbox_controls" where
  "readOutboxControls row = (case row of None \<Rightarrow> DEFAULT_OUTBOX_CONTROLS | Some c \<Rightarrow> c)"

definition setOutboxControls ::
  "outbox_controls option \<Rightarrow> bool option \<Rightarrow> nat option \<Rightarrow> outbox_controls option" where
  "setOutboxControls row paused delay =
     Some (case row of
             None \<Rightarrow>
               \<lparr>ctl_paused = (case paused of None \<Rightarrow> ctl_paused DEFAULT_OUTBOX_CONTROLS | Some p \<Rightarrow> p),
                ctl_publishDelayMs =
                  (case delay of None \<Rightarrow> ctl_publishDelayMs DEFAULT_OUTBOX_CONTROLS | Some m \<Rightarrow> m)\<rparr>
           | Some c \<Rightarrow>
               \<lparr>ctl_paused = (case paused of None \<Rightarrow> ctl_paused c | Some p \<Rightarrow> p),
                ctl_publishDelayMs = (case delay of None \<Rightarrow> ctl_publishDelayMs c | Some m \<Rightarrow> m)\<rparr>)"

text \<open>One poll of \<open>watchOutboxControls\<close>: a failed read (\<open>None\<close>) keeps the last value.\<close>

definition poll_controls :: "outbox_controls \<Rightarrow> outbox_controls option \<Rightarrow> outbox_controls" where
  "poll_controls value fresh =
     (case fresh of
        None \<Rightarrow> value
      | Some f \<Rightarrow>
          if ctl_paused f \<noteq> ctl_paused value \<or> ctl_publishDelayMs f \<noteq> ctl_publishDelayMs value
          then f else value)"

section \<open>Claiming\<close>

record publisher_options =
  po_workerId :: string
  po_batchSize :: nat
  po_leaseMs :: nat
  po_maxAttempts :: nat
  po_backoffBaseMs :: nat
  po_backoffMaxMs :: nat

record claimed_row =
  cr_row :: outbox_row
  cr_previousOwner :: "string option"

definition toDomainEvent :: "outbox_row \<Rightarrow> domain_event" where
  "toDomainEvent r =
     \<lparr>ev_eventId = ob_id r, ev_eventType = event_type_name (ob_eventType r),
      ev_aggregateId = ob_aggregateId r, ev_restaurantId = ob_restaurantId r,
      ev_version = ob_eventVersion r, ev_occurredAt = ob_createdAt r, ev_traceId = ob_traceId r,
      ev_payload = ob_payload r\<rparr>"

text \<open>\<open>(event_version, created_at, id)\<close>\<close>

definition event_order :: "outbox_row \<Rightarrow> int \<times> millis \<times> uuid" where
  "event_order r = (ob_eventVersion r, ob_createdAt r, ob_id r)"

definition unsettled :: "outbox_row \<Rightarrow> bool" where
  "unsettled r \<longleftrightarrow> ob_publishedAt r = None \<and> ob_deadLetteredAt r = None"

definition claimable :: "millis \<Rightarrow> outbox_row list \<Rightarrow> outbox_row \<Rightarrow> bool" where
  "claimable now rows pending \<longleftrightarrow>
     unsettled pending \<and> ob_nextAttemptAt pending \<le> now
     \<and> (case ob_claimUntil pending of None \<Rightarrow> True | Some u \<Rightarrow> u < now)
     \<and> \<not> (\<exists>earlier \<in> set rows.
            ob_aggregateId earlier = ob_aggregateId pending \<and> unsettled earlier
            \<and> event_order earlier < event_order pending)"

definition candidates ::
  "millis \<Rightarrow> publisher_options \<Rightarrow> uuid list \<Rightarrow> outbox_row list \<Rightarrow> outbox_row list" where
  "candidates now opts locked rows =
     take (po_batchSize opts)
       (filter (\<lambda>r. ob_id r \<notin> set locked)
          (sort_key ob_nextAttemptAt (filter (claimable now rows) rows)))"

definition claim_row :: "millis \<Rightarrow> publisher_options \<Rightarrow> outbox_row \<Rightarrow> outbox_row" where
  "claim_row now opts r =
     r\<lparr>ob_claimedBy := Some (po_workerId opts), ob_claimUntil := Some (now + po_leaseMs opts),
       ob_reclaimCount := ob_reclaimCount r + (if ob_claimedBy r = None then 0 else 1)\<rparr>"

definition claimBatch ::
  "millis \<Rightarrow> publisher_options \<Rightarrow> uuid list \<Rightarrow> outbox_row list \<Rightarrow> claimed_row list \<times> outbox_row list" where
  "claimBatch now opts locked rows =
     (let cs = candidates now opts locked rows in
      (sort_key (\<lambda>c. (ob_createdAt (cr_row c), ob_eventVersion (cr_row c)))
         (map (\<lambda>r. \<lparr>cr_row = claim_row now opts r, cr_previousOwner = ob_claimedBy r\<rparr>) cs),
       update_where (\<lambda>r. ob_id r \<in> ob_id ` set cs) (claim_row now opts) rows))"

section \<open>Recording the outcome of a send\<close>

definition published_row :: "millis \<Rightarrow> outbox_row \<Rightarrow> outbox_row" where
  "published_row now r =
     r\<lparr>ob_publishedAt := Some now, ob_claimedBy := None, ob_claimUntil := None, ob_lastError := None\<rparr>"

definition markPublished :: "millis \<Rightarrow> outbox_row list \<Rightarrow> uuid \<Rightarrow> outbox_row list" where
  "markPublished now rows eventId = update_where (\<lambda>r. ob_id r = eventId) (published_row now) rows"

definition releaseClaims :: "outbox_row list \<Rightarrow> uuid list \<Rightarrow> string \<Rightarrow> outbox_row list" where
  "releaseClaims rows ids workerId =
     (if ids = [] then rows
      else update_where
             (\<lambda>r. ob_id r \<in> set ids \<and> ob_claimedBy r = Some workerId \<and> ob_publishedAt r = None)
             (\<lambda>r. r\<lparr>ob_claimedBy := None, ob_claimUntil := None\<rparr>) rows)"

definition backoff_delay :: "publisher_options \<Rightarrow> nat \<Rightarrow> nat" where
  "backoff_delay opts attempt =
     min (po_backoffBaseMs opts * 2 ^ (attempt - 1)) (po_backoffMaxMs opts)"

definition recordFailure ::
  "millis \<Rightarrow> publisher_options \<Rightarrow> string \<Rightarrow> outbox_row list \<Rightarrow> outbox_row \<Rightarrow> bool \<times> outbox_row list" where
  "recordFailure now opts message rows row =
     (let attempt = ob_attemptCount row + 1; deadLettered = (attempt \<ge> po_maxAttempts opts) in
      (deadLettered,
       update_where (\<lambda>r. ob_id r = ob_id row)
         (\<lambda>r. r\<lparr>ob_attemptCount := attempt, ob_lastError := Some message,
                ob_nextAttemptAt := now + backoff_delay opts attempt,
                ob_deadLetteredAt := (if deadLettered then Some now else None),
                ob_claimedBy := None, ob_claimUntil := None\<rparr>) rows))"

section \<open>One pass\<close>

datatype stop_reason = TransportStop | PausedStop | LeaseStop

datatype send_outcome = SendPublished | SendFailed string | SendOverran

record run_result =
  rr_claimed :: nat
  rr_published :: nat
  rr_failed :: nat
  rr_deadLettered :: nat
  rr_abandoned :: nat
  rr_reclaimed :: nat
  rr_stoppedBecause :: "stop_reason option"

text \<open>
  What one row meets: liveness, switches and clock before the send, the same after the artificial
  delay, when the send starts, when and how the transport settles (\<open>None\<close>: never), and the
  database's clock when the outcome is written.
\<close>

record tick =
  tk_alive :: bool
  tk_controls :: outbox_controls
  tk_now :: millis
  tk_alive_after :: bool
  tk_controls_after :: outbox_controls
  tk_now_after :: millis
  tk_sendAt :: millis
  tk_settles :: "(millis \<times> string option) option"
  tk_writeAt :: millis

definition leaseDeadline10 :: "publisher_options \<Rightarrow> millis \<Rightarrow> nat" where
  "leaseDeadline10 opts claimedAt = 10 * claimedAt + 9 * po_leaseMs opts"

definition reasonToStop ::
  "bool \<Rightarrow> outbox_controls \<Rightarrow> millis \<Rightarrow> nat \<Rightarrow> nat \<Rightarrow> stop_reason option" where
  "reasonToStop alive controls now deadline10 delayAheadMs =
     (if \<not> alive then Some TransportStop
      else if ctl_paused controls then Some PausedStop
      else if 10 * (now + delayAheadMs) \<ge> deadline10 then Some LeaseStop
      else None)"

text \<open>
  The race of \<open>sendWithinLease\<close>: the timer fires \<open>max(leaseDeadline - now, 0)\<close> after the send starts; a
  send that settles at once wins against a timer of 0. The transport's \<open>None\<close> is an acknowledgement,
  \<open>Some message\<close> a rejection.
\<close>

definition sendWithinLease :: "nat \<Rightarrow> millis \<Rightarrow> (millis \<times> string option) option \<Rightarrow> send_outcome" where
  "sendWithinLease deadline10 now settles =
     (case settles of
        None \<Rightarrow> SendOverran
      | Some (t, answer) \<Rightarrow>
          if t \<le> now \<or> 10 * t < deadline10
          then (case answer of None \<Rightarrow> SendPublished | Some message \<Rightarrow> SendFailed message)
          else SendOverran)"

definition row_stop :: "nat \<Rightarrow> tick \<Rightarrow> stop_reason option" where
  "row_stop deadline10 tk =
     (let controls = tk_controls tk in
      case reasonToStop (tk_alive tk) controls (tk_now tk) deadline10 (ctl_publishDelayMs controls) of
        Some reason \<Rightarrow> Some reason
      | None \<Rightarrow>
          if ctl_publishDelayMs controls > 0
          then reasonToStop (tk_alive_after tk) (tk_controls_after tk) (tk_now_after tk) deadline10 0
          else None)"

definition giveUpFrom ::
  "publisher_options \<Rightarrow> claimed_row list \<Rightarrow> stop_reason \<Rightarrow> run_result \<Rightarrow> outbox_row list
     \<Rightarrow> run_result \<times> outbox_row list" where
  "giveUpFrom opts abandoned reason result rows =
     (result\<lparr>rr_abandoned := length abandoned, rr_stoppedBecause := Some reason\<rparr>,
      releaseClaims rows (map (ob_id \<circ> cr_row) abandoned) (po_workerId opts))"

text \<open>The loop, with the events handed to the transport in order.\<close>

fun publish_rows ::
  "publisher_options \<Rightarrow> nat \<Rightarrow> claimed_row list \<Rightarrow> tick list \<Rightarrow> run_result \<Rightarrow> outbox_row list
     \<Rightarrow> domain_event list \<times> run_result \<times> outbox_row list" where
  "publish_rows opts deadline10 (c # cs) (tk # tks) result rows =
     (case row_stop deadline10 tk of
        Some reason \<Rightarrow> ([], giveUpFrom opts (c # cs) reason result rows)
      | None \<Rightarrow>
          (case sendWithinLease deadline10 (tk_sendAt tk) (tk_settles tk) of
             SendOverran \<Rightarrow>
               ([toDomainEvent (cr_row c)], giveUpFrom opts (c # cs) LeaseStop result rows)
           | SendFailed message \<Rightarrow>
               (let (deadLettered, rows') = recordFailure (tk_writeAt tk) opts message rows (cr_row c);
                    result' = result\<lparr>rr_failed := rr_failed result + 1,
                      rr_deadLettered := rr_deadLettered result + (if deadLettered then 1 else 0)\<rparr>;
                    (sent, out) = publish_rows opts deadline10 cs tks result' rows' in
                (toDomainEvent (cr_row c) # sent, out))
           | SendPublished \<Rightarrow>
               (let rows' = markPublished (tk_writeAt tk) rows (ob_id (cr_row c));
                    result' = result\<lparr>rr_published := rr_published result + 1\<rparr>;
                    (sent, out) = publish_rows opts deadline10 cs tks result' rows' in
                (toDomainEvent (cr_row c) # sent, out))))"
| "publish_rows opts deadline10 _ _ result rows = ([], result, rows)"

definition claim_result :: "claimed_row list \<Rightarrow> run_result" where
  "claim_result claimed =
     \<lparr>rr_claimed = length claimed, rr_published = 0, rr_failed = 0, rr_deadLettered = 0,
      rr_abandoned = 0, rr_reclaimed = length (filter (\<lambda>c. cr_previousOwner c \<noteq> None) claimed),
      rr_stoppedBecause = None\<rparr>"

definition publishOnce ::
  "publisher_options \<Rightarrow> millis \<Rightarrow> millis \<Rightarrow> uuid list \<Rightarrow> tick list \<Rightarrow> outbox_row list
     \<Rightarrow> domain_event list \<times> run_result \<times> outbox_row list" where
  "publishOnce opts claimedAt dbNow locked ticks rows =
     (let (claimed, rows') = claimBatch dbNow opts locked rows in
      publish_rows opts (leaseDeadline10 opts claimedAt) claimed ticks (claim_result claimed) rows')"

text \<open>
  A turn of the worker's loop (\<open>apps/worker/src/index.ts\<close>): no claim without a session or while
  paused; and the loop sleeps unless the pass published something. The pass is given as a function.
\<close>

definition publisher_turn ::
  "bool \<Rightarrow> outbox_controls \<Rightarrow> (outbox_row list \<Rightarrow> domain_event list \<times> run_result \<times> outbox_row list)
     \<Rightarrow> outbox_row list \<Rightarrow> domain_event list \<times> bool \<times> outbox_row list" where
  "publisher_turn connected controls pass rows =
     (if \<not> connected \<or> ctl_paused controls then ([], True, rows)
      else (case pass rows of (sent, result, rows') \<Rightarrow> (sent, rr_published result = 0, rows')))"

section \<open>Replaying the last event\<close>

definition replay_order :: "outbox_row \<Rightarrow> millis \<times> millis \<times> uuid" where
  "replay_order r = (the (ob_publishedAt r), ob_createdAt r, ob_id r)"

definition replay_target :: "uuid list \<Rightarrow> outbox_row list \<Rightarrow> outbox_row option" where
  "replay_target locked rows =
     (case filter (\<lambda>r. ob_id r \<notin> set locked)
             (rev (sort_key replay_order
                (filter (\<lambda>r. ob_publishedAt r \<noteq> None \<and> ob_deadLetteredAt r = None) rows))) of
        [] \<Rightarrow> None
      | r # _ \<Rightarrow> Some r)"

definition replayLastEvent ::
  "millis \<Rightarrow> uuid list \<Rightarrow> outbox_row list \<Rightarrow> outbox_row option \<times> outbox_row list" where
  "replayLastEvent now locked rows =
     (case replay_target locked rows of
        None \<Rightarrow> (None, rows)
      | Some t \<Rightarrow>
          (Some t,
           update_where (\<lambda>r. ob_id r = ob_id t)
             (\<lambda>r. r\<lparr>ob_publishedAt := None, ob_claimedBy := None, ob_claimUntil := None,
                    ob_lastError := None, ob_attemptCount := 0, ob_nextAttemptAt := now\<rparr>) rows))"


section \<open>The contract of a publisher statement\<close>

text \<open>
  Whatever the publisher and the replay do to the table, they never touch what identifies an event.
  The mutation server relies on exactly that (its step \<open>publisher\<close>).
\<close>

lemma identity_events:
  assumes "map event_identity rows = map event_identity rows'"
  shows "map toDomainEvent rows = map toDomainEvent rows'"
proof -
  have "length rows = length rows'" using assms map_eq_imp_length_eq by blast
  then show ?thesis
    using assms
    by (induction rows rows' rule: list_induct2) (auto simp: event_identity_def toDomainEvent_def)
qed

locale publisher_statement =
  fixes stmt :: "outbox_row list \<Rightarrow> outbox_row list"
  assumes identity: "map event_identity (stmt rows) = map event_identity rows"
begin

lemma events: "map toDomainEvent (stmt rows) = map toDomainEvent rows"
  using identity by (rule identity_events)

lemma keys: "map event_key (stmt rows) = map event_key rows" and ids: "map ob_id (stmt rows) = map ob_id rows"
  using identity_projections(1,2) [OF identity [of rows]] by simp_all

lemma keeps_db_ok: "db_ok d \<Longrightarrow> db_ok (d\<lparr>db_outbox := stmt (db_outbox d)\<rparr>)"
  by (rule db_ok_outbox [OF identity])

lemma is_server_step:
  assumes "srv_history s = cur # older"
  shows "server_step sha256 allowed s
    (s\<lparr>srv_history := cur\<lparr>db_outbox := stmt (db_outbox cur)\<rparr> # cur # older\<rparr>)"
  using assms identity by (rule server_step.publisher)

end

lemma identity_update_where:
  "(\<And>r. event_identity (f r) = event_identity r) \<Longrightarrow>
     map event_identity (update_where P f rows) = map event_identity rows"
  by (rule map_update_where)

interpretation claim: publisher_statement "\<lambda>rows. snd (claimBatch now opts locked rows)"
  for now opts locked
  by unfold_locales
    (auto simp: claimBatch_def Let_def event_identity_def claim_row_def intro!: identity_update_where)

interpretation mark: publisher_statement "\<lambda>rows. markPublished now rows eventId" for now eventId
  by unfold_locales
    (auto simp: markPublished_def event_identity_def published_row_def intro!: identity_update_where)

interpretation release: publisher_statement "\<lambda>rows. releaseClaims rows ids workerId" for ids workerId
  by unfold_locales
    (auto simp: releaseClaims_def event_identity_def intro!: identity_update_where)

interpretation failure: publisher_statement "\<lambda>rows. snd (recordFailure now opts message rows row)"
  for now opts message row
  by unfold_locales
    (auto simp: recordFailure_def Let_def event_identity_def intro!: identity_update_where)

interpretation replay: publisher_statement "\<lambda>rows. snd (replayLastEvent now locked rows)"
  for now locked
  by unfold_locales
    (auto simp: replayLastEvent_def event_identity_def split: option.splits intro!: identity_update_where)

end
