(* ===== verification/Outbox_Delivery.thy ===== *)
theory Outbox_Delivery
  imports Outbox_Publisher
begin

text \<open>
  Any number of publishers at work on one outbox, crashes included. A state is the table, the passes
  in progress, the records handed to a transport that may still land, the topic (one partition holds
  all events of an order, so one list is enough) and the ids of events ever dead-lettered. A send may
  land late, land twice, or land although it was reported failed; only an acknowledgement is reliable,
  and it comes after the record landed. A pass may die between any two steps.

  \<open>outbox_ok\<close> is the invariant; the property is that first deliveries of an order's events are in
  version order, with gaps only for dead letters. The executable \<open>publishOnce\<close> is one run of this
  relation (\<open>publishOnce_is_run\<close>).
\<close>

section \<open>Steps\<close>

record publisher_pass =
  pa_opts :: publisher_options
  pa_todo :: "claimed_row list"
  pa_sending :: bool

record outbox_system =
  ox_rows :: "outbox_row list"
  ox_passes :: "publisher_pass list"
  ox_inflight :: "domain_event list"
  ox_topic :: "domain_event list"
  ox_dead :: "uuid list"

definition initial_outbox :: outbox_system where
  "initial_outbox =
     \<lparr>ox_rows = [], ox_passes = [], ox_inflight = [], ox_topic = [], ox_dead = []\<rparr>"

definition fresh_event :: "outbox_row list \<Rightarrow> outbox_row \<Rightarrow> bool" where
  "fresh_event rows e \<longleftrightarrow>
     ob_id e \<notin> ob_id ` set rows \<and> ob_publishedAt e = None \<and> ob_deadLetteredAt e = None
     \<and> (\<forall>r \<in> set rows. ob_aggregateId r = ob_aggregateId e \<longrightarrow> ob_eventVersion r < ob_eventVersion e)"

abbreviation claimed_event :: "claimed_row \<Rightarrow> domain_event" where
  "claimed_event c \<equiv> toDomainEvent (cr_row c)"

inductive outbox_step :: "outbox_system \<Rightarrow> outbox_system \<Rightarrow> bool" where
  append: "fresh_event (ox_rows s) e \<Longrightarrow> outbox_step s (s\<lparr>ox_rows := ox_rows s @ [e]\<rparr>)"
| claim: "claimBatch now opts locked (ox_rows s) = (claimed, rows') \<Longrightarrow>
     outbox_step s (s\<lparr>ox_rows := rows',
       ox_passes := \<lparr>pa_opts = opts, pa_todo = claimed, pa_sending = False\<rparr> # ox_passes s\<rparr>)"
| send: "ox_passes s = ps @ \<lparr>pa_opts = opts, pa_todo = c # cs, pa_sending = False\<rparr> # qs \<Longrightarrow>
     outbox_step s (s\<lparr>ox_inflight := claimed_event c # ox_inflight s,
       ox_passes := ps @ \<lparr>pa_opts = opts, pa_todo = c # cs, pa_sending = True\<rparr> # qs\<rparr>)"
| land: "e \<in> set (ox_inflight s) \<Longrightarrow> outbox_step s (s\<lparr>ox_topic := ox_topic s @ [e]\<rparr>)"
| published: "ox_passes s = ps @ \<lparr>pa_opts = opts, pa_todo = c # cs, pa_sending = True\<rparr> # qs \<Longrightarrow>
     claimed_event c \<in> set (ox_topic s) \<Longrightarrow>
     outbox_step s (s\<lparr>ox_rows := markPublished now (ox_rows s) (ob_id (cr_row c)),
       ox_passes := ps @ \<lparr>pa_opts = opts, pa_todo = cs, pa_sending = False\<rparr> # qs\<rparr>)"
| failed: "ox_passes s = ps @ \<lparr>pa_opts = opts, pa_todo = c # cs, pa_sending = True\<rparr> # qs \<Longrightarrow>
     recordFailure now opts message (ox_rows s) (cr_row c) = (deadLettered, rows') \<Longrightarrow>
     outbox_step s (s\<lparr>ox_rows := rows',
       ox_passes := ps @ \<lparr>pa_opts = opts, pa_todo = cs, pa_sending = False\<rparr> # qs,
       ox_dead := (if deadLettered then [ob_id (cr_row c)] else []) @ ox_dead s\<rparr>)"
| give_up: "ox_passes s = ps @ p # qs \<Longrightarrow>
     outbox_step s (s\<lparr>ox_rows :=
         releaseClaims (ox_rows s) (map (ob_id \<circ> cr_row) (pa_todo p)) (po_workerId (pa_opts p)),
       ox_passes := ps @ qs\<rparr>)"
| gone: "ox_passes s = ps @ p # qs \<Longrightarrow> outbox_step s (s\<lparr>ox_passes := ps @ qs\<rparr>)"
| replay: "replayLastEvent now locked (ox_rows s) = (target, rows') \<Longrightarrow>
     outbox_step s (s\<lparr>ox_rows := rows'\<rparr>)"

inductive_cases outbox_stepE: "outbox_step s t"

definition reachable_outbox :: "outbox_system \<Rightarrow> bool" where
  "reachable_outbox s \<longleftrightarrow> outbox_step\<^sup>*\<^sup>* initial_outbox s"

section \<open>The invariant\<close>

text \<open>Every earlier event of the order of \<open>e\<close> is in \<open>before\<close> or was dead-lettered.\<close>

definition covered :: "domain_event list \<Rightarrow> domain_event list \<Rightarrow> uuid list \<Rightarrow> domain_event \<Rightarrow> bool" where
  "covered events before dead e \<longleftrightarrow>
     e \<in> set events \<and>
     (\<forall>x \<in> set events. ev_aggregateId x = ev_aggregateId e \<longrightarrow> ev_version x < ev_version e \<longrightarrow>
        x \<in> set before \<or> ev_eventId x \<in> set dead)"

fun topic_ok :: "domain_event list \<Rightarrow> uuid list \<Rightarrow> domain_event list \<Rightarrow> domain_event list \<Rightarrow> bool" where
  "topic_ok events dead before [] \<longleftrightarrow> True"
| "topic_ok events dead before (e # es) \<longleftrightarrow>
     covered events before dead e \<and> topic_ok events dead (before @ [e]) es"

abbreviation row_events :: "outbox_system \<Rightarrow> domain_event list" where
  "row_events s \<equiv> map toDomainEvent (ox_rows s)"

definition rows_ok :: "outbox_row list \<Rightarrow> domain_event list \<Rightarrow> uuid list \<Rightarrow> bool" where
  "rows_ok rows topic dead \<longleftrightarrow>
     distinct (map ob_id rows)
     \<and> (\<forall>r \<in> set rows. ob_publishedAt r \<noteq> None \<longrightarrow> toDomainEvent r \<in> set topic)
     \<and> (\<forall>r \<in> set rows. ob_deadLetteredAt r \<noteq> None \<longrightarrow> ob_id r \<in> set dead)"

definition pending_events :: "outbox_system \<Rightarrow> domain_event set" where
  "pending_events s =
     set (ox_inflight s) \<union> (\<Union>p \<in> set (ox_passes s). claimed_event ` set (pa_todo p))"

definition outbox_ok :: "outbox_system \<Rightarrow> bool" where
  "outbox_ok s \<longleftrightarrow>
     rows_ok (ox_rows s) (ox_topic s) (ox_dead s)
     \<and> (\<forall>e \<in> pending_events s. covered (row_events s) (ox_topic s) (ox_dead s) e)
     \<and> topic_ok (row_events s) (ox_dead s) [] (ox_topic s)"

lemma toDomainEvent_fields [simp]:
  "ev_eventId (toDomainEvent r) = ob_id r" "ev_aggregateId (toDomainEvent r) = ob_aggregateId r"
  "ev_version (toDomainEvent r) = ob_eventVersion r"
  "ev_restaurantId (toDomainEvent r) = ob_restaurantId r"
  "ev_eventType (toDomainEvent r) = event_type_name (ob_eventType r)"
  "ev_payload (toDomainEvent r) = ob_payload r"
  by (simp_all add: toDomainEvent_def)

lemma toDomainEvent_columns [simp]:
  "toDomainEvent (r\<lparr>ob_publishedAt := a\<rparr>) = toDomainEvent r"
  "toDomainEvent (r\<lparr>ob_attemptCount := b\<rparr>) = toDomainEvent r"
  "toDomainEvent (r\<lparr>ob_nextAttemptAt := c\<rparr>) = toDomainEvent r"
  "toDomainEvent (r\<lparr>ob_lastError := d\<rparr>) = toDomainEvent r"
  "toDomainEvent (r\<lparr>ob_deadLetteredAt := a\<rparr>) = toDomainEvent r"
  "toDomainEvent (r\<lparr>ob_claimedBy := d\<rparr>) = toDomainEvent r"
  "toDomainEvent (r\<lparr>ob_claimUntil := a\<rparr>) = toDomainEvent r"
  "toDomainEvent (r\<lparr>ob_reclaimCount := b\<rparr>) = toDomainEvent r"
  by (simp_all add: toDomainEvent_def)

lemma covered_mono:
  "covered events before dead e \<Longrightarrow> set before \<subseteq> set before' \<Longrightarrow> set dead \<subseteq> set dead' \<Longrightarrow>
     covered events before' dead' e"
  by (auto simp: covered_def)

lemma covered_append:
  assumes "covered events before dead e"
    and "\<And>x. x \<in> set events \<Longrightarrow> ev_aggregateId x = ev_aggregateId n \<Longrightarrow> ev_version x < ev_version n"
  shows "covered (events @ [n]) before dead e"
  using assms by (fastforce simp: covered_def)

lemma topic_ok_mono:
  "topic_ok events dead before es \<Longrightarrow> set dead \<subseteq> set dead' \<Longrightarrow> topic_ok events dead' before es"
  by (induction es arbitrary: before) (auto intro: covered_mono)

lemma topic_ok_append:
  "topic_ok events dead before es \<Longrightarrow>
     (\<And>x. x \<in> set events \<Longrightarrow> ev_aggregateId x = ev_aggregateId n \<Longrightarrow> ev_version x < ev_version n) \<Longrightarrow>
     topic_ok (events @ [n]) dead before es"
  by (induction es arbitrary: before) (auto intro: covered_append)

lemma topic_ok_snoc:
  "topic_ok events dead before (es @ [e]) \<longleftrightarrow>
     topic_ok events dead before es \<and> covered events (before @ es) dead e"
  by (induction es arbitrary: before) auto

lemma topic_ok_split:
  "topic_ok events dead before (xs @ e # ys) \<Longrightarrow> covered events (before @ xs) dead e"
proof (induction xs arbitrary: before)
  case (Cons a xs)
  from Cons.IH [of "before @ [a]"] Cons.prems show ?case by simp
qed simp

section \<open>Statements keep the rows honest\<close>

lemma rows_okD:
  "rows_ok rows topic dead \<Longrightarrow> r \<in> set rows \<Longrightarrow> ob_publishedAt r = Some t \<Longrightarrow> toDomainEvent r \<in> set topic"
  "rows_ok rows topic dead \<Longrightarrow> r \<in> set rows \<Longrightarrow> ob_deadLetteredAt r = Some t \<Longrightarrow> ob_id r \<in> set dead"
  "rows_ok rows topic dead \<Longrightarrow> distinct (map ob_id rows)"
  by (auto simp: rows_ok_def)

lemma rows_ok_update:
  assumes "rows_ok rows topic dead"
    and "\<And>r. r \<in> set rows \<Longrightarrow> P r \<Longrightarrow>
      ob_id (f r) = ob_id r \<and> toDomainEvent (f r) = toDomainEvent r
      \<and> (ob_publishedAt (f r) \<noteq> None \<longrightarrow> toDomainEvent r \<in> set topic)
      \<and> (ob_deadLetteredAt (f r) \<noteq> None \<longrightarrow> ob_id r \<in> set dead')"
    and "set dead \<subseteq> set dead'"
  shows "rows_ok (update_where P f rows) topic dead'"
proof -
  have "map ob_id (update_where P f rows) = map ob_id rows"
    using assms(2) by (intro map_update_where) simp
  then show ?thesis
    using assms unfolding rows_ok_def in_set_update_where Ball_def by (auto simp: in_set_update_where)
qed

lemma event_of_id:
  assumes "distinct (map ob_id rows)" and "toDomainEvent r' \<in> toDomainEvent ` set rows"
    and "r \<in> set rows" and "ob_id r = ob_id r'"
  shows "toDomainEvent r = toDomainEvent r'"
proof -
  obtain q where q: "q \<in> set rows" "toDomainEvent r' = toDomainEvent q" using assms(2) by auto
  then have "ob_id q = ob_id r" using assms(4) by (metis toDomainEvent_fields(1))
  then have "q = r" using distinct_map_eqD [OF assms(1) q(1) assms(3)] by simp
  then show ?thesis using q(2) by simp
qed

lemma rows_ok_claim:
  "rows_ok rows topic dead \<Longrightarrow> rows_ok (snd (claimBatch now opts locked rows)) topic dead"
  unfolding claimBatch_def Let_def snd_conv
  by (rule rows_ok_update) (auto simp: claim_row_def dest: rows_okD)

lemma rows_ok_mark:
  assumes "rows_ok rows topic dead" and "toDomainEvent row \<in> toDomainEvent ` set rows"
    and "toDomainEvent row \<in> set topic"
  shows "rows_ok (markPublished now rows (ob_id row)) topic dead"
  unfolding markPublished_def
proof (rule rows_ok_update [OF assms(1) _ subset_refl])
  fix r assume r: "r \<in> set rows" "ob_id r = ob_id row"
  have "toDomainEvent r = toDomainEvent row"
    using assms(1,2) r by (intro event_of_id) (auto simp: rows_ok_def)
  then show "ob_id (published_row now r) = ob_id r \<and> toDomainEvent (published_row now r) = toDomainEvent r
      \<and> (ob_publishedAt (published_row now r) \<noteq> None \<longrightarrow> toDomainEvent r \<in> set topic)
      \<and> (ob_deadLetteredAt (published_row now r) \<noteq> None \<longrightarrow> ob_id r \<in> set dead)"
    using assms(1,3) r(1) by (auto simp: published_row_def dest: rows_okD)
qed

lemma rows_ok_release:
  "rows_ok rows topic dead \<Longrightarrow> rows_ok (releaseClaims rows ids w) topic dead"
  by (cases "ids = []")
    (auto simp: releaseClaims_def intro!: rows_ok_update dest: rows_okD)

lemma rows_ok_failure:
  assumes "rows_ok rows topic dead" and "recordFailure now opts message rows row = (deadLettered, rows')"
  shows "rows_ok rows' topic ((if deadLettered then [ob_id row] else []) @ dead)"
proof -
  let ?f = "\<lambda>r. r\<lparr>ob_attemptCount := ob_attemptCount row + 1, ob_lastError := Some message,
      ob_nextAttemptAt := now + backoff_delay opts (ob_attemptCount row + 1),
      ob_deadLetteredAt := (if deadLettered then Some now else None),
      ob_claimedBy := None, ob_claimUntil := None\<rparr>"
  have "rows' = update_where (\<lambda>r. ob_id r = ob_id row) ?f rows"
    using assms(2) by (auto simp: recordFailure_def Let_def)
  then show ?thesis
    using assms(1)
    by (auto intro!: rows_ok_update [OF assms(1)] dest: rows_okD)
qed

lemma rows_ok_replay:
  "rows_ok rows topic dead \<Longrightarrow> rows_ok (snd (replayLastEvent now locked rows)) topic dead"
  unfolding replayLastEvent_def
  by (auto split: option.splits intro!: rows_ok_update dest: rows_okD)

section \<open>What a claim knows\<close>

lemma claimed_claimable:
  assumes "claimBatch now opts locked rows = (claimed, rows')" and "c \<in> set claimed"
  obtains r where "r \<in> set rows" and "claimable now rows r" and "cr_row c = claim_row now opts r"
    and "ob_id r \<notin> set locked" and "cr_previousOwner c = ob_claimedBy r"
proof -
  have "\<exists>r \<in> set (candidates now opts locked rows).
      c = \<lparr>cr_row = claim_row now opts r, cr_previousOwner = ob_claimedBy r\<rparr>"
    using assms by (auto simp: claimBatch_def Let_def)
  then obtain r where r: "r \<in> set (candidates now opts locked rows)"
      "c = \<lparr>cr_row = claim_row now opts r, cr_previousOwner = ob_claimedBy r\<rparr>" by blast
  from r(1) have "r \<in> set rows \<and> claimable now rows r \<and> ob_id r \<notin> set locked"
    by (auto simp: candidates_def dest!: in_set_takeD)
  then show thesis using that [of r] r(2) by simp
qed

lemma claim_row_event [simp]: "toDomainEvent (claim_row now opts r) = toDomainEvent r"
  by (simp add: toDomainEvent_def claim_row_def)

lemma claimed_covered:
  assumes "rows_ok rows topic dead" and "claimBatch now opts locked rows = (claimed, rows')"
    and "c \<in> set claimed"
  shows "covered (map toDomainEvent rows) topic dead (claimed_event c)"
proof -
  obtain r where r: "r \<in> set rows" "claimable now rows r" "cr_row c = claim_row now opts r"
    using assms(2,3) by (rule claimed_claimable)
  have "toDomainEvent x \<in> set topic \<or> ob_id x \<in> set dead"
    if "x \<in> set rows" "ob_aggregateId x = ob_aggregateId r" "ob_eventVersion x < ob_eventVersion r" for x
  proof -
    have "event_order x < event_order r" using that(3) by (simp add: event_order_def)
    then have "\<not> unsettled x" using r(2) that(1,2) by (auto simp: claimable_def)
    then show ?thesis using assms(1) that(1) by (auto simp: unsettled_def rows_ok_def)
  qed
  then show ?thesis using r by (auto simp: covered_def)
qed

section \<open>Every step keeps the invariant\<close>

lemma outbox_ok_same_topic:
  assumes "outbox_ok s" and "row_events t = row_events s" and "ox_topic t = ox_topic s"
    and "rows_ok (ox_rows t) (ox_topic s) (ox_dead t)" and "set (ox_dead s) \<subseteq> set (ox_dead t)"
    and "\<And>e. e \<in> pending_events t \<Longrightarrow>
      e \<in> pending_events s \<or> covered (row_events s) (ox_topic s) (ox_dead s) e"
  shows "outbox_ok t"
  unfolding outbox_ok_def assms(2,3)
proof (intro conjI ballI)
  show "rows_ok (ox_rows t) (ox_topic s) (ox_dead t)" by (rule assms(4))
  show "topic_ok (row_events s) (ox_dead t) [] (ox_topic s)"
    using assms(1,5) topic_ok_mono by (auto simp: outbox_ok_def)
  fix e assume "e \<in> pending_events t"
  then have "covered (row_events s) (ox_topic s) (ox_dead s) e"
    using assms(1,6) by (auto simp: outbox_ok_def)
  then show "covered (row_events s) (ox_topic s) (ox_dead t) e"
    using assms(5) by (auto intro: covered_mono)
qed

lemma outbox_ok_append:
  assumes "outbox_ok s" and "fresh_event (ox_rows s) e"
  shows "outbox_ok (s\<lparr>ox_rows := ox_rows s @ [e]\<rparr>)"
proof -
  have "ev_version x < ev_version (toDomainEvent e)"
    if "x \<in> set (row_events s)" "ev_aggregateId x = ev_aggregateId (toDomainEvent e)" for x
    using assms(2) that by (auto simp: fresh_event_def)
  moreover have "pending_events (s\<lparr>ox_rows := ox_rows s @ [e]\<rparr>) = pending_events s"
    by (simp add: pending_events_def)
  ultimately show ?thesis
    using assms by (auto simp: outbox_ok_def rows_ok_def fresh_event_def intro: covered_append topic_ok_append)
qed

lemma outbox_ok_land:
  assumes "outbox_ok s" and "e \<in> set (ox_inflight s)"
  shows "outbox_ok (s\<lparr>ox_topic := ox_topic s @ [e]\<rparr>)"
proof -
  have e: "covered (row_events s) (ox_topic s) (ox_dead s) e"
    using assms by (auto simp: outbox_ok_def pending_events_def)
  then have "topic_ok (row_events s) (ox_dead s) [] (ox_topic s @ [e])"
    using assms(1) by (simp add: topic_ok_snoc outbox_ok_def)
  moreover have "rows_ok (ox_rows s) (ox_topic s @ [e]) (ox_dead s)"
    using assms(1) by (auto simp: outbox_ok_def rows_ok_def)
  moreover have "pending_events (s\<lparr>ox_topic := ox_topic s @ [e]\<rparr>) = pending_events s"
    by (simp add: pending_events_def)
  moreover have "covered (row_events s) (ox_topic s @ [e]) (ox_dead s) x" if "x \<in> pending_events s" for x
    using assms(1) that by (auto simp: outbox_ok_def intro: covered_mono)
  ultimately show ?thesis by (simp add: outbox_ok_def)
qed

text \<open>A pass that goes on with its own rows makes no new event pending.\<close>

lemma pending_shrinks:
  assumes "ox_passes s = ps @ p # qs" and "ox_passes t = ps @ todo @ qs"
    and "\<And>p'. p' \<in> set todo \<Longrightarrow> set (pa_todo p') \<subseteq> set (pa_todo p)"
    and "set (ox_inflight t) \<subseteq> set (ox_inflight s) \<union> claimed_event ` set (pa_todo p)"
  shows "pending_events t \<subseteq> pending_events s"
proof -
  have "(\<Union>p' \<in> set todo. claimed_event ` set (pa_todo p')) \<subseteq> claimed_event ` set (pa_todo p)"
    using assms(3) by blast
  then show ?thesis
    using assms(4) by (auto simp: pending_events_def assms(1,2))
qed

lemma outbox_ok_step: "outbox_step s t \<Longrightarrow> outbox_ok s \<Longrightarrow> outbox_ok t"
proof (induction rule: outbox_step.induct)
  case (append s e)
  then show ?case by (intro outbox_ok_append)
next
  case (claim now opts locked s claimed rows')
  have ok: "rows_ok (ox_rows s) (ox_topic s) (ox_dead s)" using claim.prems by (simp add: outbox_ok_def)
  have rows: "rows_ok rows' (ox_topic s) (ox_dead s)" "map toDomainEvent rows' = row_events s"
    using rows_ok_claim [OF ok, of now opts locked] claim.events [of now opts locked "ox_rows s"] claim.hyps
    by simp_all
  show ?case
  proof (rule outbox_ok_same_topic [OF claim.prems])
    fix e
    assume "e \<in> pending_events (s\<lparr>ox_rows := rows',
      ox_passes := \<lparr>pa_opts = opts, pa_todo = claimed, pa_sending = False\<rparr> # ox_passes s\<rparr>)"
    then consider "e \<in> pending_events s" | c where "c \<in> set claimed" "e = claimed_event c"
      by (auto simp: pending_events_def)
    then show "e \<in> pending_events s \<or> covered (row_events s) (ox_topic s) (ox_dead s) e"
      using claimed_covered [OF ok claim.hyps] by cases auto
  qed (use rows in simp_all)
next
  case (send s ps opts c cs qs)
  let ?p = "\<lparr>pa_opts = opts, pa_todo = c # cs, pa_sending = True\<rparr>"
  let ?t = "s\<lparr>ox_inflight := claimed_event c # ox_inflight s, ox_passes := ps @ ?p # qs\<rparr>"
  have "pending_events ?t \<subseteq> pending_events s"
    by (rule pending_shrinks [OF send.hyps, of _ "[?p]"]) auto
  then show ?case
    using send.prems by (intro outbox_ok_same_topic [of s ?t]) (auto simp: outbox_ok_def)
next
  case (land e s)
  then show ?case by (intro outbox_ok_land)
next
  case (published s ps opts c cs qs now)
  let ?p = "\<lparr>pa_opts = opts, pa_todo = cs, pa_sending = False\<rparr>"
  let ?t = "s\<lparr>ox_rows := markPublished now (ox_rows s) (ob_id (cr_row c)), ox_passes := ps @ ?p # qs\<rparr>"
  have "claimed_event c \<in> pending_events s" using published.hyps(1) by (auto simp: pending_events_def)
  then have "claimed_event c \<in> toDomainEvent ` set (ox_rows s)"
    using published.prems by (auto simp: outbox_ok_def covered_def)
  then have "rows_ok (ox_rows ?t) (ox_topic s) (ox_dead s)"
    using published.prems published.hyps(2) by (auto simp: outbox_ok_def intro: rows_ok_mark)
  moreover have "pending_events ?t \<subseteq> pending_events s"
    by (rule pending_shrinks [OF published.hyps(1), of _ "[?p]"]) auto
  ultimately show ?case
    using published.prems mark.events by (intro outbox_ok_same_topic [of s ?t]) auto
next
  case (failed s ps opts c cs qs now message deadLettered rows')
  let ?p = "\<lparr>pa_opts = opts, pa_todo = cs, pa_sending = False\<rparr>"
  let ?t = "s\<lparr>ox_rows := rows', ox_passes := ps @ ?p # qs,
    ox_dead := (if deadLettered then [ob_id (cr_row c)] else []) @ ox_dead s\<rparr>"
  have "rows_ok rows' (ox_topic s) (ox_dead ?t)"
    using failed.prems rows_ok_failure [OF _ failed.hyps(2)] by (simp add: outbox_ok_def)
  moreover have "map toDomainEvent rows' = row_events s"
    using failure.events [of now opts message "ox_rows s" "cr_row c"] failed.hyps by simp
  moreover have "pending_events ?t \<subseteq> pending_events s"
    by (rule pending_shrinks [OF failed.hyps(1), of _ "[?p]"]) auto
  ultimately show ?case
    using failed.prems by (intro outbox_ok_same_topic [of s ?t]) auto
next
  case (give_up s ps p qs)
  let ?t = "s\<lparr>ox_rows :=
         releaseClaims (ox_rows s) (map (ob_id \<circ> cr_row) (pa_todo p)) (po_workerId (pa_opts p)),
       ox_passes := ps @ qs\<rparr>"
  have "pending_events ?t \<subseteq> pending_events s"
    by (rule pending_shrinks [OF give_up.hyps, of _ "[]"]) auto
  then show ?case
    using give_up.prems release.events rows_ok_release
    by (intro outbox_ok_same_topic [of s ?t]) (auto simp: outbox_ok_def)
next
  case (gone s ps p qs)
  have "pending_events (s\<lparr>ox_passes := ps @ qs\<rparr>) \<subseteq> pending_events s"
    by (rule pending_shrinks [OF gone.hyps, of _ "[]"]) auto
  then show ?case
    using gone.prems by (intro outbox_ok_same_topic [of s "s\<lparr>ox_passes := ps @ qs\<rparr>"]) (auto simp: outbox_ok_def)
next
  case (replay now locked s target rows')
  have "map toDomainEvent rows' = row_events s"
    using replay.events [of now locked "ox_rows s"] replay.hyps by simp
  moreover have "rows_ok rows' (ox_topic s) (ox_dead s)"
    using replay.prems replay.hyps rows_ok_replay [of "ox_rows s" "ox_topic s" "ox_dead s" now locked]
    by (simp add: outbox_ok_def)
  moreover have "pending_events (s\<lparr>ox_rows := rows'\<rparr>) = pending_events s"
    by (simp add: pending_events_def)
  ultimately show ?case
    using replay.prems by (intro outbox_ok_same_topic [of s "s\<lparr>ox_rows := rows'\<rparr>"]) auto
qed

lemma outbox_ok_initial: "outbox_ok initial_outbox"
  by (simp add: outbox_ok_def initial_outbox_def rows_ok_def pending_events_def)

lemma reachable_outbox_ok: "reachable_outbox s \<Longrightarrow> outbox_ok s"
  unfolding reachable_outbox_def
  by (induction rule: rtranclp_induct) (auto intro: outbox_ok_initial outbox_ok_step)

end
