(* ===== verification/Outbox_Properties.thy ===== *)
theory Outbox_Properties
  imports Outbox_Delivery
begin

text \<open>
  The properties of the outbox publisher: ordered and lossless delivery under any interleaving, the
  accounting of one pass (attempts are charged for failed sends only, and no claim outlives a pass
  that ran to its end), and the draining of a backlog by repeated passes.
\<close>

section \<open>One pass is a run of the system\<close>

lemma publish_rows_is_run:
  assumes "publish_rows opts dl cs tks result (ox_rows s) = (sent, result', rows')"
    and "ox_passes s = \<lparr>pa_opts = opts, pa_todo = cs, pa_sending = False\<rparr> # qs"
  shows "\<exists>t. outbox_step\<^sup>*\<^sup>* s t \<and> ox_rows t = rows' \<and> ox_passes t = qs
    \<and> set sent \<subseteq> set (ox_inflight t) \<and> set (ox_inflight s) \<subseteq> set (ox_inflight t)"
  using assms
proof (induction cs arbitrary: tks result s sent)
  case Nil
  have "outbox_step s (s\<lparr>ox_passes := [] @ qs\<rparr>)"
    using outbox_step.gone [of s "[]"] Nil.prems(2) by simp
  then show ?case using Nil.prems by (intro exI [of _ "s\<lparr>ox_passes := qs\<rparr>"]) auto
next
  case (Cons c cs)
  let ?p = "\<lparr>pa_opts = opts, pa_todo = c # cs, pa_sending = False\<rparr>"
  let ?sending = "s\<lparr>ox_inflight := claimed_event c # ox_inflight s,
    ox_passes := \<lparr>pa_opts = opts, pa_todo = c # cs, pa_sending = True\<rparr> # qs\<rparr>"
  have sending: "outbox_step s ?sending"
    using outbox_step.send [of s "[]" opts c cs qs] Cons.prems(2) by simp
  show ?case
  proof (cases tks)
    case Nil
    have "outbox_step s (s\<lparr>ox_passes := [] @ qs\<rparr>)"
      using outbox_step.gone [of s "[]"] Cons.prems(2) by simp
    then show ?thesis using Nil Cons.prems by (intro exI [of _ "s\<lparr>ox_passes := qs\<rparr>"]) auto
  next
    case tks: (Cons tk tks')
    show ?thesis
    proof (cases "row_stop dl tk")
      case (Some reason)
      let ?t = "s\<lparr>ox_rows := rows', ox_passes := qs\<rparr>"
      have "outbox_step s ?t"
        using outbox_step.give_up [of s "[]" ?p qs] Cons.prems tks Some by (auto simp: giveUpFrom_def)
      then show ?thesis using Cons.prems tks Some by (intro exI [of _ ?t]) auto
    next
      case run: None
      show ?thesis
      proof (cases "sendWithinLease dl (tk_sendAt tk) (tk_settles tk)")
        case SendOverran
        let ?t = "?sending\<lparr>ox_rows := rows', ox_passes := qs\<rparr>"
        have "outbox_step ?sending ?t"
          using outbox_step.give_up [of ?sending "[]" "?p\<lparr>pa_sending := True\<rparr>" qs] Cons.prems tks run SendOverran
          by (auto simp: giveUpFrom_def)
        then have "outbox_step\<^sup>*\<^sup>* s ?t" using sending by (meson r_into_rtranclp rtranclp.rtrancl_into_rtrancl)
        then show ?thesis using Cons.prems tks run SendOverran by (intro exI [of _ ?t]) auto
      next
        case (SendFailed message)
        obtain dead rows1 where fail: "recordFailure (tk_writeAt tk) opts message (ox_rows s) (cr_row c) = (dead, rows1)"
          by (cases "recordFailure (tk_writeAt tk) opts message (ox_rows s) (cr_row c)")
        let ?u = "?sending\<lparr>ox_rows := rows1,
          ox_passes := \<lparr>pa_opts = opts, pa_todo = cs, pa_sending = False\<rparr> # qs,
          ox_dead := (if dead then [ob_id (cr_row c)] else []) @ ox_dead s\<rparr>"
        have u: "outbox_step ?sending ?u"
          using outbox_step.failed [of ?sending "[]" opts c cs qs] fail by auto
        obtain sent1 where sent1: "sent = claimed_event c # sent1"
            "publish_rows opts dl cs tks' (result\<lparr>rr_failed := rr_failed result + 1,
               rr_deadLettered := rr_deadLettered result + (if dead then 1 else 0)\<rparr>) (ox_rows ?u)
             = (sent1, result', rows')"
          using Cons.prems(1) tks run SendFailed fail by (auto simp: Let_def split: prod.splits)
        from Cons.IH [OF sent1(2)] obtain t where "outbox_step\<^sup>*\<^sup>* ?u t" "ox_rows t = rows'" "ox_passes t = qs"
            "set sent1 \<subseteq> set (ox_inflight t)" "set (ox_inflight ?u) \<subseteq> set (ox_inflight t)"
          by auto
        then show ?thesis
          using sending u sent1(1)
          by (intro exI [of _ t]) (auto intro: converse_rtranclp_into_rtranclp)
      next
        case SendPublished
        let ?landed = "?sending\<lparr>ox_topic := ox_topic s @ [claimed_event c]\<rparr>"
        have landed: "outbox_step ?sending ?landed"
          using outbox_step.land [of "claimed_event c" ?sending] by simp
        let ?u = "?landed\<lparr>ox_rows := markPublished (tk_writeAt tk) (ox_rows s) (ob_id (cr_row c)),
          ox_passes := \<lparr>pa_opts = opts, pa_todo = cs, pa_sending = False\<rparr> # qs\<rparr>"
        have u: "outbox_step ?landed ?u"
          using outbox_step.published [of ?landed "[]" opts c cs qs] by auto
        obtain sent1 where sent1: "sent = claimed_event c # sent1"
            "publish_rows opts dl cs tks' (result\<lparr>rr_published := rr_published result + 1\<rparr>) (ox_rows ?u)
             = (sent1, result', rows')"
          using Cons.prems(1) tks run SendPublished by (auto simp: Let_def split: prod.splits)
        from Cons.IH [OF sent1(2)] obtain t where "outbox_step\<^sup>*\<^sup>* ?u t" "ox_rows t = rows'" "ox_passes t = qs"
            "set sent1 \<subseteq> set (ox_inflight t)" "set (ox_inflight ?u) \<subseteq> set (ox_inflight t)"
          by auto
        then show ?thesis
          using sending landed u sent1(1)
          by (intro exI [of _ t]) (auto intro: converse_rtranclp_into_rtranclp)
      qed
    qed
  qed
qed

lemma publishOnce_is_run:
  assumes "publishOnce opts claimedAt now locked ticks (ox_rows s) = (sent, result, rows')"
  shows "\<exists>t. outbox_step\<^sup>*\<^sup>* s t \<and> ox_rows t = rows' \<and> ox_passes t = ox_passes s
    \<and> set sent \<subseteq> set (ox_inflight t)"
proof -
  obtain claimed rows1 where c: "claimBatch now opts locked (ox_rows s) = (claimed, rows1)"
    by (cases "claimBatch now opts locked (ox_rows s)")
  let ?u = "s\<lparr>ox_rows := rows1,
    ox_passes := \<lparr>pa_opts = opts, pa_todo = claimed, pa_sending = False\<rparr> # ox_passes s\<rparr>"
  have "publish_rows opts (leaseDeadline10 opts claimedAt) claimed ticks (claim_result claimed) (ox_rows ?u)
      = (sent, result, rows')"
    using assms c by (simp add: publishOnce_def)
  from publish_rows_is_run [OF this] obtain t where "outbox_step\<^sup>*\<^sup>* ?u t" "ox_rows t = rows'"
      "ox_passes t = ox_passes s" "set sent \<subseteq> set (ox_inflight t)" by auto
  then show ?thesis
    using outbox_step.claim [OF c] by (intro exI [of _ t]) (auto intro: converse_rtranclp_into_rtranclp)
qed


section \<open>The accounts of one pass\<close>

definition attempts_total :: "outbox_row list \<Rightarrow> nat" where
  "attempts_total rows = sum_list (map ob_attemptCount rows)"

definition dead_total :: "outbox_row list \<Rightarrow> nat" where
  "dead_total rows = sum_list (map (\<lambda>r. if ob_deadLetteredAt r = None then 0 else 1) rows)"

text \<open>What the pass holds while it works: its own claims, as the table has them.\<close>

definition held_by_pass :: "string \<Rightarrow> claimed_row list \<Rightarrow> outbox_row list \<Rightarrow> bool" where
  "held_by_pass w cs rows \<longleftrightarrow>
     distinct (map ob_id rows) \<and> distinct (map (ob_id \<circ> cr_row) cs)
     \<and> (\<forall>c \<in> set cs. cr_row c \<in> set rows \<and> ob_claimedBy (cr_row c) = Some w
          \<and> ob_publishedAt (cr_row c) = None \<and> ob_deadLetteredAt (cr_row c) = None)"

lemma held_by_pass_update:
  assumes "held_by_pass w (c # cs) rows" and "\<And>r. ob_id (f r) = ob_id r"
  shows "held_by_pass w cs (update_where (\<lambda>r. ob_id r = ob_id (cr_row c)) f rows)"
proof -
  have "map ob_id (update_where (\<lambda>r. ob_id r = ob_id (cr_row c)) f rows) = map ob_id rows"
    using assms(2) by (intro map_update_where) simp
  moreover have "ob_id (cr_row x) \<noteq> ob_id (cr_row c)" if "x \<in> set cs" for x
    using assms(1) that by (auto simp: held_by_pass_def image_iff)
  ultimately show ?thesis
    using assms(1) by (auto simp: held_by_pass_def in_set_update_where)
qed

lemma release_accounts [simp]:
  "attempts_total (releaseClaims rows ids w) = attempts_total rows"
  "dead_total (releaseClaims rows ids w) = dead_total rows"
  by (simp_all add: attempts_total_def dead_total_def releaseClaims_def map_update_where)

text \<open>A released row was held by somebody else, or published meanwhile, or is free now.\<close>

lemma in_releaseClaims:
  assumes "r \<in> set (releaseClaims rows ids w)"
  obtains q where "q \<in> set rows" and "ob_id q = ob_id r"
    and "if ob_id q \<in> set ids \<and> ob_claimedBy q = Some w \<and> ob_publishedAt q = None
         then ob_claimedBy r = None else r = q"
proof (cases "ids = []")
  case True
  then show thesis using assms that [of r] by (simp add: releaseClaims_def)
next
  case False
  let ?P = "\<lambda>q. ob_id q \<in> set ids \<and> ob_claimedBy q = Some w \<and> ob_publishedAt q = None"
  let ?f = "\<lambda>q. q\<lparr>ob_claimedBy := None, ob_claimUntil := None\<rparr>"
  have "r \<in> set (update_where ?P ?f rows)" using assms False by (simp add: releaseClaims_def)
  then obtain q where q: "q \<in> set rows" "?P q \<and> r = ?f q \<or> \<not> ?P q \<and> r = q"
    unfolding in_set_update_where by (elim bexE)
  show thesis
  proof (cases "?P q")
    case True
    then have r: "r = ?f q" using q(2) by (simp only: simp_thms)
    have "ob_id q = ob_id r" "ob_claimedBy r = None" by (simp_all add: r)
    then show thesis using that [of q] q(1) True by (simp only: simp_thms if_True)
  next
    case F: False
    then have "r = q" using q(2) by (simp only: simp_thms)
    then show thesis using that [of q] q(1) F by (simp only: simp_thms if_False)
  qed
qed

lemma release_frees:
  assumes "held_by_pass w cs rows" and "r \<in> set (releaseClaims rows (map (ob_id \<circ> cr_row) cs) w)"
    and "ob_id r \<in> (ob_id \<circ> cr_row) ` set cs"
  shows "ob_claimedBy r = None"
proof -
  obtain c where c: "c \<in> set cs" "ob_id r = ob_id (cr_row c)" using assms(3) by auto
  from assms(2) obtain q where q: "q \<in> set rows" "ob_id q = ob_id r"
      and r: "if ob_id q \<in> set (map (ob_id \<circ> cr_row) cs) \<and> ob_claimedBy q = Some w \<and> ob_publishedAt q = None
         then ob_claimedBy r = None else r = q"
    by (rule in_releaseClaims)
  have "q = cr_row c"
    using assms(1) q c by (intro distinct_map_eqD [of ob_id rows]) (auto simp: held_by_pass_def)
  then show ?thesis using r c assms(1) by (auto simp: held_by_pass_def)
qed

text \<open>From the books \<open>(result, rows)\<close> to the books \<open>(result', rows')\<close> over the claimed rows \<open>cs\<close>.\<close>

definition pass_accounts ::
  "claimed_row list \<Rightarrow> run_result \<Rightarrow> outbox_row list \<Rightarrow> run_result \<Rightarrow> outbox_row list \<Rightarrow> bool" where
  "pass_accounts cs result rows result' rows' \<longleftrightarrow>
     rr_published result' + rr_failed result' + rr_abandoned result' =
       rr_published result + rr_failed result + length cs
     \<and> rr_claimed result' = rr_claimed result \<and> rr_reclaimed result' = rr_reclaimed result
     \<and> attempts_total rows' + rr_failed result = attempts_total rows + rr_failed result'
     \<and> dead_total rows' + rr_deadLettered result = dead_total rows + rr_deadLettered result'
     \<and> (0 < rr_abandoned result' \<longleftrightarrow> rr_stoppedBecause result' \<noteq> None)
     \<and> (\<forall>r \<in> set rows'. if ob_id r \<in> (ob_id \<circ> cr_row) ` set cs then ob_claimedBy r = None
                         else r \<in> set rows)"

lemma pass_accounts_stop:
  assumes "giveUpFrom opts (c # cs) reason result rows = (result', rows')"
    and "held_by_pass (po_workerId opts) (c # cs) rows"
    and "rr_abandoned result = 0"
  shows "pass_accounts (c # cs) result rows result' rows'"
proof -
  have rows': "rows' = releaseClaims rows (map (ob_id \<circ> cr_row) (c # cs)) (po_workerId opts)"
    and res: "result' = result\<lparr>rr_abandoned := Suc (length cs), rr_stoppedBecause := Some reason\<rparr>"
    using assms(1) by (simp_all add: giveUpFrom_def)
  have "if ob_id r \<in> (ob_id \<circ> cr_row) ` set (c # cs) then ob_claimedBy r = None else r \<in> set rows"
    if r: "r \<in> set rows'" for r
  proof (cases "ob_id r \<in> (ob_id \<circ> cr_row) ` set (c # cs)")
    case True
    then show ?thesis using release_frees [OF assms(2)] r by (simp only: rows') simp
  next
    case False
    from r obtain q where q: "q \<in> set rows" "ob_id q = ob_id r"
        and if_held: "if ob_id q \<in> set (map (ob_id \<circ> cr_row) (c # cs)) \<and> ob_claimedBy q = Some (po_workerId opts)
           \<and> ob_publishedAt q = None then ob_claimedBy r = None else r = q"
      unfolding rows' by (rule in_releaseClaims)
    have "ob_id q \<notin> set (map (ob_id \<circ> cr_row) (c # cs))" using False q(2) by simp
    then have "r = q" using if_held by (simp only: simp_thms if_False)
    then show ?thesis using False q(1) by (simp only: if_False)
  qed
  then show ?thesis unfolding pass_accounts_def rows' res by simp
qed

text \<open>One row settled with a change of its columns, then the rest of the pass.\<close>

lemma pass_accounts_row:
  assumes "held_by_pass w (c # cs) rows"
    and rows1: "rows1 = update_where (\<lambda>r. ob_id r = ob_id (cr_row c)) f rows"
    and f: "\<And>r. ob_id (f r) = ob_id r" "\<And>r. ob_claimedBy (f r) = None"
    and attempts: "ob_attemptCount (f (cr_row c)) + rr_failed result = ob_attemptCount (cr_row c) + rr_failed result1"
    and dead: "(if ob_deadLetteredAt (f (cr_row c)) = None then 0 else 1) + rr_deadLettered result =
      rr_deadLettered result1"
    and "rr_published result1 + rr_failed result1 = rr_published result + rr_failed result + 1"
    and "rr_claimed result1 = rr_claimed result" "rr_reclaimed result1 = rr_reclaimed result"
    and rest: "pass_accounts cs result1 rows1 result' rows'"
  shows "pass_accounts (c # cs) result rows result' rows'"
proof -
  let ?k = "\<lambda>r. if ob_deadLetteredAt r = None then 0 else 1 :: nat"
  have held: "cr_row c \<in> set rows" "distinct (map ob_id rows)" "ob_deadLetteredAt (cr_row c) = None"
    and fresh: "ob_id (cr_row c) \<notin> (ob_id \<circ> cr_row) ` set cs"
    using assms(1) by (auto simp: held_by_pass_def)
  have "attempts_total rows1 + ob_attemptCount (cr_row c) = attempts_total rows + ob_attemptCount (f (cr_row c))"
    using sum_list_update_where_unique [OF held(2,1), of ob_attemptCount f]
    by (simp add: attempts_total_def rows1)
  moreover have "dead_total rows1 = dead_total rows + ?k (f (cr_row c))"
    using sum_list_update_where_unique [OF held(2,1), of ?k f] held(3)
    by (simp add: dead_total_def rows1)
  moreover have "if ob_id r \<in> (ob_id \<circ> cr_row) ` set (c # cs) then ob_claimedBy r = None else r \<in> set rows"
    if "r \<in> set rows'" for r
  proof (cases "ob_id r \<in> (ob_id \<circ> cr_row) ` set cs")
    case True
    then show ?thesis using rest that by (auto simp: pass_accounts_def)
  next
    case False
    then have "r \<in> set rows1" using rest that by (auto simp: pass_accounts_def)
    then show ?thesis using f False by (auto simp: rows1 in_set_update_where)
  qed
  ultimately show ?thesis
    using rest assms(5-9) by (simp add: pass_accounts_def)
qed

lemma publish_rows_accounts:
  assumes "publish_rows opts dl cs tks result rows = (sent, result', rows')"
    and "held_by_pass (po_workerId opts) cs rows" and "length cs \<le> length tks"
    and "rr_abandoned result = 0" and "rr_stoppedBecause result = None"
  shows "pass_accounts cs result rows result' rows'"
  using assms
proof (induction cs arbitrary: tks result rows sent)
  case Nil
  then show ?case by (simp add: pass_accounts_def)
next
  case (Cons c cs)
  then obtain tk tks' where tks: "tks = tk # tks'" by (cases tks) auto
  note stop = pass_accounts_stop [OF _ Cons.prems(2,4)]
  show ?case
  proof (cases "row_stop dl tk")
    case (Some reason)
    then show ?thesis using Cons.prems(1) tks by (intro stop [of reason]) simp
  next
    case run: None
    note step = held_by_pass_update [OF Cons.prems(2)]
    show ?thesis
    proof (cases "sendWithinLease dl (tk_sendAt tk) (tk_settles tk)")
      case SendOverran
      then show ?thesis using Cons.prems(1) tks run by (intro stop [of LeaseStop]) simp
    next
      case SendPublished
      let ?f = "published_row (tk_writeAt tk)"
      let ?rows = "markPublished (tk_writeAt tk) rows (ob_id (cr_row c))"
      let ?result = "result\<lparr>rr_published := rr_published result + 1\<rparr>"
      obtain sent1 where "publish_rows opts dl cs tks' ?result ?rows = (sent1, result', rows')"
        using Cons.prems(1) tks run SendPublished by (auto simp: Let_def split: prod.splits)
      then have "pass_accounts cs ?result ?rows result' rows'"
        using Cons.prems tks step [of ?f]
        by (intro Cons.IH) (auto simp: markPublished_def published_row_def)
      then show ?thesis
        using Cons.prems(2)
        by (intro pass_accounts_row [OF Cons.prems(2), of ?rows ?f])
          (auto simp: markPublished_def published_row_def held_by_pass_def)
    next
      case (SendFailed message)
      define dead where "dead \<longleftrightarrow> ob_attemptCount (cr_row c) + 1 \<ge> po_maxAttempts opts"
      let ?f = "\<lambda>r. r\<lparr>ob_attemptCount := ob_attemptCount (cr_row c) + 1, ob_lastError := Some message,
        ob_nextAttemptAt := tk_writeAt tk + backoff_delay opts (ob_attemptCount (cr_row c) + 1),
        ob_deadLetteredAt := (if dead then Some (tk_writeAt tk) else None),
        ob_claimedBy := None, ob_claimUntil := None\<rparr>"
      let ?rows = "update_where (\<lambda>r. ob_id r = ob_id (cr_row c)) ?f rows"
      let ?result = "result\<lparr>rr_failed := rr_failed result + 1,
        rr_deadLettered := rr_deadLettered result + (if dead then 1 else 0)\<rparr>"
      have "recordFailure (tk_writeAt tk) opts message rows (cr_row c) = (dead, ?rows)"
        by (simp add: recordFailure_def dead_def Let_def)
      then obtain sent1 where "publish_rows opts dl cs tks' ?result ?rows = (sent1, result', rows')"
        using Cons.prems(1) tks run SendFailed by (auto simp: Let_def split: prod.splits)
      then have "pass_accounts cs ?result ?rows result' rows'"
        using Cons.prems tks step [of ?f] by (intro Cons.IH) auto
      then show ?thesis
        by (intro pass_accounts_row [OF Cons.prems(2), of ?rows ?f]) auto
    qed
  qed
qed


lemma candidates_length: "length (candidates now opts locked rows) \<le> length rows"
  unfolding candidates_def
  by (rule order_trans [OF _ length_filter_le [of "claimable now rows" rows]])
    (metis length_filter_le length_sort length_take min.coboundedI1)

lemma claimBatch_held:
  assumes "distinct (map ob_id rows)" and "claimBatch now opts locked rows = (claimed, rows')"
  shows "held_by_pass (po_workerId opts) claimed rows'"
    and "length claimed = length (candidates now opts locked rows)"
    and "(ob_id \<circ> cr_row) ` set claimed = ob_id ` set (candidates now opts locked rows)"
proof -
  let ?cs = "candidates now opts locked rows"
  let ?g = "\<lambda>r. \<lparr>cr_row = claim_row now opts r, cr_previousOwner = ob_claimedBy r\<rparr>"
  have claimed: "mset claimed = mset (map ?g ?cs)"
    and rows': "rows' = update_where (\<lambda>r. ob_id r \<in> ob_id ` set ?cs) (claim_row now opts) rows"
    using assms(2) by (auto simp: claimBatch_def Let_def)
  have id: "ob_id (claim_row now opts r) = ob_id r" for r by (simp add: claim_row_def)
  have ids: "(ob_id \<circ> cr_row) (?g r) = ob_id r" for r by (simp add: id)
  have "distinct (map ob_id (sort_key ob_nextAttemptAt (filter (claimable now rows) rows)))"
    using assms(1) by (simp add: distinct_map_sort_key distinct_map_filter)
  then have "distinct (map ob_id ?cs)"
    by (simp add: candidates_def take_map [symmetric] distinct_map_filter)
  moreover have "mset (map (ob_id \<circ> cr_row) claimed) = mset (map ob_id ?cs)"
    using arg_cong [OF claimed, of "image_mset (ob_id \<circ> cr_row)"] by (simp add: ids comp_def id image_mset.compositionality)
  ultimately have d: "distinct (map (ob_id \<circ> cr_row) claimed)"
    by (metis mset_eq_imp_distinct_iff)
  have "map ob_id rows' = map ob_id rows"
    unfolding rows' by (rule map_update_where) (simp add: id)
  moreover have "cr_row c \<in> set rows' \<and> ob_claimedBy (cr_row c) = Some (po_workerId opts)
      \<and> ob_publishedAt (cr_row c) = None \<and> ob_deadLetteredAt (cr_row c) = None" if c: "c \<in> set claimed" for c
  proof -
    have "c \<in> set (map ?g ?cs)" using c claimed by (metis set_mset_mset)
    then obtain r where r: "r \<in> set ?cs" "c = ?g r" by auto
    then have "r \<in> set rows" "unsettled r"
      by (auto simp: candidates_def claimable_def dest!: in_set_takeD)
    moreover from this(1) have "claim_row now opts r \<in> set rows'"
      using r(1) unfolding rows' by (intro update_where_memI) auto
    ultimately show ?thesis
      using r(2) by (auto simp: claim_row_def unsettled_def)
  qed
  ultimately show "held_by_pass (po_workerId opts) claimed rows'"
    using assms(1) d by (simp add: held_by_pass_def)
  show "length claimed = length ?cs" using claimed by (metis length_map size_mset)
  show "(ob_id \<circ> cr_row) ` set claimed = ob_id ` set ?cs"
    using arg_cong [OF \<open>mset (map (ob_id \<circ> cr_row) claimed) = mset (map ob_id ?cs)\<close>, of set_mset] by simp
qed

section \<open>Rows to evaluate on\<close>

definition demo_row :: "uuid \<Rightarrow> uuid \<Rightarrow> int \<Rightarrow> outbox_row" where
  "demo_row eventId orderId version =
     \<lparr>ob_id = eventId, ob_aggregateId = orderId, ob_restaurantId = ''demo-restaurant'',
      ob_eventType = OrderReady, ob_eventVersion = version,
      ob_payload = OrderStatusChangedPayload orderId ''7'' READY, ob_traceId = None, ob_createdAt = 0,
      ob_publishedAt = None, ob_attemptCount = 0, ob_nextAttemptAt = 0, ob_lastError = None,
      ob_deadLetteredAt = None, ob_claimedBy = None, ob_claimUntil = None, ob_reclaimCount = 0\<rparr>"

definition demo_options :: publisher_options where
  "demo_options =
     \<lparr>po_workerId = ''worker-1'', po_batchSize = 10, po_leaseMs = 1000, po_maxAttempts = 3,
      po_backoffBaseMs = 100, po_backoffMaxMs = 1000\<rparr>"

definition healthy_tick :: "millis \<Rightarrow> tick" where
  "healthy_tick now =
     \<lparr>tk_alive = True, tk_controls = DEFAULT_OUTBOX_CONTROLS, tk_now = now, tk_alive_after = True,
      tk_controls_after = DEFAULT_OUTBOX_CONTROLS, tk_now_after = now, tk_sendAt = now,
      tk_settles = Some (now, None), tk_writeAt = now\<rparr>"

section \<open>Properties\<close>

text \<open>
  C2. Events of an order reach the topic in version order. However many publishers run, crash, lose
  their leases, retry, replay or see a send land late or twice: when an event is on the topic, every
  earlier event of the same order had already been put there before it, or was dead-lettered. And
  nothing is lost: a row marked published is on the topic, and the topic holds events of the table
  only.
\<close>

theorem outbox_delivers_in_version_order:
  assumes "reachable_outbox s"
  shows "(\<forall>before e after r. ox_topic s = before @ e # after \<longrightarrow> r \<in> set (ox_rows s) \<longrightarrow>
      ob_aggregateId r = ev_aggregateId e \<longrightarrow> ob_eventVersion r < ev_version e \<longrightarrow>
      toDomainEvent r \<in> set before \<or> ob_id r \<in> set (ox_dead s))
    \<and> (\<forall>r \<in> set (ox_rows s). ob_publishedAt r \<noteq> None \<longrightarrow> toDomainEvent r \<in> set (ox_topic s))
    \<and> set (ox_topic s) \<subseteq> toDomainEvent ` set (ox_rows s)"
proof -
  have ok: "rows_ok (ox_rows s) (ox_topic s) (ox_dead s)"
    and topic: "topic_ok (row_events s) (ox_dead s) [] (ox_topic s)"
    using reachable_outbox_ok [OF assms] by (simp_all add: outbox_ok_def)
  have split: "covered (row_events s) before (ox_dead s) e" if "ox_topic s = before @ e # after" for before e after
    using topic topic_ok_split [of _ _ "[]" before e after] that by simp
  have known: "e \<in> toDomainEvent ` set (ox_rows s)" if "e \<in> set (ox_topic s)" for e
    using split split_list [OF that] by (auto simp: covered_def)
  have order: "toDomainEvent r \<in> set before \<or> ob_id r \<in> set (ox_dead s)"
    if "ox_topic s = before @ e # after" "r \<in> set (ox_rows s)" "ob_aggregateId r = ev_aggregateId e"
      "ob_eventVersion r < ev_version e" for before e after r
  proof -
    have "toDomainEvent r \<in> set (row_events s)" using that(2) by simp
    with split [OF that(1)] have "ev_aggregateId (toDomainEvent r) = ev_aggregateId e \<longrightarrow>
        ev_version (toDomainEvent r) < ev_version e \<longrightarrow>
        toDomainEvent r \<in> set before \<or> ev_eventId (toDomainEvent r) \<in> set (ox_dead s)"
      unfolding covered_def by blast
    then show ?thesis using that(3,4) by simp
  qed
  show ?thesis
  proof (intro conjI allI impI ballI subsetI)
    show "toDomainEvent r \<in> set before \<or> ob_id r \<in> set (ox_dead s)"
      if "ox_topic s = before @ e # after" "r \<in> set (ox_rows s)" "ob_aggregateId r = ev_aggregateId e"
        "ob_eventVersion r < ev_version e" for before e after r
      using that by (rule order)
    show "toDomainEvent r \<in> set (ox_topic s)" if "r \<in> set (ox_rows s)" "ob_publishedAt r \<noteq> None" for r
      using ok that by (auto dest: rows_okD)
    show "e \<in> toDomainEvent ` set (ox_rows s)" if "e \<in> set (ox_topic s)" for e
      using that by (rule known)
  qed
qed

theorem outbox_delivers_in_version_order_witness:
  "\<exists>(s :: outbox_system) r. r \<in> set (ox_rows s) \<and> ob_publishedAt r = Some 5 \<and> toDomainEvent r \<in> set (ox_topic s)"
proof -
  let ?s = "initial_outbox\<lparr>ox_rows := [demo_row ''e1'' ''o1'' 1]\<rparr>"
  let ?r = "published_row 5 (claim_row 5 demo_options (demo_row ''e1'' ''o1'' 1))"
  have "outbox_step initial_outbox ?s"
    using outbox_step.append [of initial_outbox "demo_row ''e1'' ''o1'' 1"]
    by (simp add: initial_outbox_def fresh_event_def demo_row_def)
  moreover have "\<exists>sent result. publishOnce demo_options 5 5 [] [healthy_tick 5] (ox_rows ?s) = (sent, result, [?r])"
    by (simp add: publishOnce_def claimBatch_def candidates_def claimable_def unsettled_def demo_row_def
        demo_options_def claim_row_def healthy_tick_def row_stop_def reasonToStop_def sendWithinLease_def
        DEFAULT_OUTBOX_CONTROLS_def leaseDeadline10_def markPublished_def Let_def)
  then obtain t where "outbox_step\<^sup>*\<^sup>* ?s t" "ox_rows t = [?r]"
    using publishOnce_is_run by blast
  ultimately have t: "reachable_outbox t" "ox_rows t = [?r]"
    unfolding reachable_outbox_def by (auto intro: converse_rtranclp_into_rtranclp)
  have "ob_publishedAt ?r = Some 5" by (simp add: published_row_def)
  moreover from this have "toDomainEvent ?r \<in> set (ox_topic t)"
    using outbox_delivers_in_version_order [OF t(1)] t(2) by simp
  moreover have "?r \<in> set (ox_rows t)" by (simp add: t(2))
  ultimately have "?r \<in> set (ox_rows t) \<and> ob_publishedAt ?r = Some 5 \<and> toDomainEvent ?r \<in> set (ox_topic t)"
    by simp
  then show ?thesis by blast
qed

text \<open>
  C13. The books of a pass that ran to its end. Every claimed row was published, failed or handed back;
  the attempts charged to the table are exactly the failed sends, so a dead broker, a pause or a
  lease that ran out costs no event an attempt; the dead letters are the ones reported; a pass that
  stopped early says why; and afterwards none of the rows it claimed is still claimed, and no other
  row has changed.
\<close>

theorem publishOnce_accounts:
  assumes "distinct (map ob_id rows)" and "length rows \<le> length ticks"
    and "publishOnce opts claimedAt now locked ticks rows = (sent, result, rows')"
  shows "rr_claimed result = rr_published result + rr_failed result + rr_abandoned result
    \<and> attempts_total rows' = attempts_total rows + rr_failed result
    \<and> dead_total rows' = dead_total rows + rr_deadLettered result
    \<and> (0 < rr_abandoned result \<longleftrightarrow> rr_stoppedBecause result \<noteq> None)
    \<and> (\<forall>r \<in> set rows'. if ob_id r \<in> ob_id ` set (candidates now opts locked rows)
                        then ob_claimedBy r = None else r \<in> set rows)"
proof -
  obtain claimed rows1 where c: "claimBatch now opts locked rows = (claimed, rows1)"
    by (cases "claimBatch now opts locked rows")
  note held = claimBatch_held [OF assms(1) c]
  have run: "publish_rows opts (leaseDeadline10 opts claimedAt) claimed ticks (claim_result claimed) rows1
      = (sent, result, rows')"
    using assms(3) c by (simp add: publishOnce_def)
  note candidates_length [of now opts locked rows]
  then have acc: "pass_accounts claimed (claim_result claimed) rows1 result rows'"
    using publish_rows_accounts [OF run held(1)] held(2) assms(2) by (simp add: claim_result_def)
  let ?ids = "ob_id ` set (candidates now opts locked rows)"
  have rows1: "rows1 = update_where (\<lambda>r. ob_id r \<in> ?ids) (claim_row now opts) rows"
    using c by (simp add: claimBatch_def Let_def)
  have same: "attempts_total rows1 = attempts_total rows" "dead_total rows1 = dead_total rows"
    unfolding rows1 attempts_total_def dead_total_def
    by (simp_all add: map_update_where claim_row_def)
  have other: "r \<in> set rows" if "r \<in> set rows1" "ob_id r \<notin> ?ids" for r
    using that(1) unfolding rows1
  proof (cases rule: update_where_memE)
    case (1 q)
    then show ?thesis using that(2) by (simp add: claim_row_def)
  qed simp
  show ?thesis
    using acc same other unfolding pass_accounts_def held(3) by (auto simp: claim_result_def)
qed


definition demo_rows :: "outbox_row list" where
  "demo_rows = [demo_row ''e1'' ''o1'' 1, demo_row ''e2'' ''o1'' 2, demo_row ''e3'' ''o2'' 1]"

lemma demo_rows_distinct: "distinct (map ob_id demo_rows)"
  by (simp add: demo_rows_def demo_row_def)

theorem publishOnce_accounts_witness:
  "case publishOnce demo_options 5 5 []
          [healthy_tick 5, (healthy_tick 5)\<lparr>tk_settles := Some (6, Some ''refused'')\<rparr>, healthy_tick 5]
          demo_rows
   of (sent, result, rows') \<Rightarrow> attempts_total rows' = rr_failed result"
proof -
  have "attempts_total demo_rows = 0" by (simp add: attempts_total_def demo_rows_def demo_row_def)
  moreover have "length demo_rows = 3" by (simp add: demo_rows_def)
  ultimately show ?thesis
    using publishOnce_accounts [OF demo_rows_distinct, of "[healthy_tick 5,
        (healthy_tick 5)\<lparr>tk_settles := Some (6, Some ''refused'')\<rparr>, healthy_tick 5]" demo_options 5 5 "[]"]
    by (auto split: prod.splits)
qed

section \<open>Draining a backlog\<close>

text \<open>\<open>n\<close> passes in a row, each on a healthy broker.\<close>

fun publish_passes ::
  "publisher_options \<Rightarrow> millis \<Rightarrow> nat \<Rightarrow> outbox_row list \<Rightarrow> domain_event list \<times> outbox_row list" where
  "publish_passes opts now 0 rows = ([], rows)"
| "publish_passes opts now (Suc n) rows =
     (let (sent, _, rows1) =
            publishOnce opts now now [] (replicate (length rows) (healthy_tick now)) rows;
          (sent', rows') = publish_passes opts now n rows1
      in (sent @ sent', rows'))"

definition unsettled_total :: "outbox_row list \<Rightarrow> nat" where
  "unsettled_total rows = sum_list (map (\<lambda>r. if unsettled r then 1 else 0) rows)"

text \<open>Nothing is in a backoff or under another worker's claim.\<close>

definition ready :: "millis \<Rightarrow> outbox_row list \<Rightarrow> bool" where
  "ready now rows \<longleftrightarrow>
     distinct (map ob_id rows)
     \<and> (\<forall>r \<in> set rows. unsettled r \<longrightarrow> ob_nextAttemptAt r \<le> now
          \<and> (case ob_claimUntil r of None \<Rightarrow> True | Some u \<Rightarrow> u < now))"

lemma unsettled_total_0: "unsettled_total rows = 0 \<longleftrightarrow> (\<forall>r \<in> set rows. \<not> unsettled r)"
  by (auto simp: unsettled_total_def)

lemma unsettled_total_pos: "0 < unsettled_total rows \<longleftrightarrow> (\<exists>r \<in> set rows. unsettled r)"
  using unsettled_total_0 [of rows] by auto

lemma claimable_exists:
  assumes "ready now rows" and "r \<in> set rows" and "unsettled r"
  shows "\<exists>r \<in> set rows. claimable now rows r"
proof -
  obtain q where q: "q \<in> set rows" "unsettled q"
      and least: "\<And>x. x \<in> set rows \<Longrightarrow> unsettled x \<Longrightarrow> \<not> event_order x < event_order q"
    by (rule least_by_key [of r rows unsettled event_order, OF assms(2,3)]) (rule that)
  have "\<not> (\<exists>x \<in> set rows. ob_aggregateId x = ob_aggregateId q \<and> unsettled x
      \<and> event_order x < event_order q)"
    using least by (intro notI) (elim bexE conjE, simp)
  moreover note q
  moreover from this have "ob_nextAttemptAt q \<le> now"
      "case ob_claimUntil q of None \<Rightarrow> True | Some u \<Rightarrow> u < now"
    using assms(1) by (simp_all add: ready_def)
  ultimately have "claimable now rows q"
    unfolding claimable_def by (intro conjI)
  then show ?thesis using q(1) by blast
qed

lemma publish_rows_healthy:
  assumes "held_by_pass w cs rows" and "10 * now < dl" and "length cs \<le> n"
  shows "\<exists>result' rows'.
      publish_rows opts dl cs (replicate n (healthy_tick now)) result rows = (map claimed_event cs, result', rows')
    \<and> unsettled_total rows' + length cs = unsettled_total rows
    \<and> map ob_id rows' = map ob_id rows
    \<and> (\<forall>r \<in> set rows'. unsettled r \<longrightarrow> r \<in> set rows \<and> ob_id r \<notin> (ob_id \<circ> cr_row) ` set cs)
    \<and> (\<forall>r \<in> set rows. ob_id r \<notin> (ob_id \<circ> cr_row) ` set cs \<longrightarrow> r \<in> set rows')"
  using assms
proof (induction cs arbitrary: n result rows)
  case Nil
  then show ?case by simp
next
  case (Cons c cs)
  then obtain m where n: "n = Suc m" by (cases n) auto
  let ?rows = "markPublished now rows (ob_id (cr_row c))"
  have go: "row_stop dl (healthy_tick now) = None"
      "sendWithinLease dl (tk_sendAt (healthy_tick now)) (tk_settles (healthy_tick now)) = SendPublished"
    using Cons.prems(2)
    by (simp_all add: row_stop_def reasonToStop_def healthy_tick_def DEFAULT_OUTBOX_CONTROLS_def
        sendWithinLease_def)
  have held: "held_by_pass w cs ?rows"
    unfolding markPublished_def by (rule held_by_pass_update [OF Cons.prems(1)]) (simp add: published_row_def)
  let ?result = "result\<lparr>rr_published := rr_published result + 1\<rparr>"
  obtain result' rows' where
      run: "publish_rows opts dl cs (replicate m (healthy_tick now)) ?result ?rows = (map claimed_event cs, result', rows')"
      and count: "unsettled_total rows' + length cs = unsettled_total ?rows"
      and ids: "map ob_id rows' = map ob_id ?rows"
      and rest: "\<forall>r \<in> set rows'. unsettled r \<longrightarrow> r \<in> set ?rows \<and> ob_id r \<notin> (ob_id \<circ> cr_row) ` set cs"
      and kept: "\<forall>r \<in> set ?rows. ob_id r \<notin> (ob_id \<circ> cr_row) ` set cs \<longrightarrow> r \<in> set rows'"
    using Cons.IH [OF held Cons.prems(2), of m ?result] Cons.prems(3) n by auto
  have one: "unsettled_total ?rows + 1 = unsettled_total rows"
    using sum_list_update_where_unique [of ob_id rows "cr_row c" "\<lambda>r. if unsettled r then 1 else 0"
        "published_row now"] Cons.prems(1)
    by (simp add: unsettled_total_def markPublished_def held_by_pass_def unsettled_def published_row_def)
  have same_ids: "map ob_id ?rows = map ob_id rows" by (rule mark.ids)
  have old: "r \<in> set rows \<and> ob_id r \<noteq> ob_id (cr_row c)" if "r \<in> set ?rows" "unsettled r" for r
    using that(1) unfolding markPublished_def
  proof (cases rule: update_where_memE)
    case (1 q)
    then show ?thesis using that(2) by (simp add: unsettled_def published_row_def)
  qed simp
  have stay: "r \<in> set ?rows" if "r \<in> set rows" "ob_id r \<noteq> ob_id (cr_row c)" for r
    unfolding markPublished_def by (rule update_where_keepI) (use that in simp_all)
  show ?case
  proof (intro exI conjI ballI impI)
    show "publish_rows opts dl (c # cs) (replicate n (healthy_tick now)) result rows =
        (map claimed_event (c # cs), result', rows')"
      using run go by (simp add: n Let_def healthy_tick_def)
    show "unsettled_total rows' + length (c # cs) = unsettled_total rows" using count one by simp
    show "map ob_id rows' = map ob_id rows" using ids same_ids by simp
    show "r \<in> set rows" "ob_id r \<notin> (ob_id \<circ> cr_row) ` set (c # cs)"
      if "r \<in> set rows'" "unsettled r" for r
      using rest old that by simp_all
    show "r \<in> set rows'" if "r \<in> set rows" "ob_id r \<notin> (ob_id \<circ> cr_row) ` set (c # cs)" for r
      using kept stay that by simp
  qed
qed

lemma healthy_pass:
  assumes "ready now rows" and "0 < po_batchSize opts" and "0 < po_leaseMs opts"
    and "publishOnce opts now now [] (replicate (length rows) (healthy_tick now)) rows = (sent, result, rows')"
  shows "ready now rows'" and "unsettled_total rows' + length sent = unsettled_total rows"
    and "0 < unsettled_total rows \<Longrightarrow> sent \<noteq> []"
    and "\<And>r. r \<in> set rows \<Longrightarrow> unsettled r \<Longrightarrow> toDomainEvent r \<in> set sent \<or> r \<in> set rows'"
proof -
  obtain claimed rows1 where c: "claimBatch now opts [] rows = (claimed, rows1)"
    by (cases "claimBatch now opts [] rows")
  have distinct: "distinct (map ob_id rows)" using assms(1) by (simp add: ready_def)
  note held = claimBatch_held [OF distinct c]
  let ?ids = "ob_id ` set (candidates now opts [] rows)"
  have cs: "length claimed \<le> length rows"
    using candidates_length [of now opts "[]" rows] held(2) by simp
  have "10 * now < leaseDeadline10 opts now" using assms(3) by (simp add: leaseDeadline10_def)
  from publish_rows_healthy [OF held(1) this cs, of opts "claim_result claimed"] assms(4) c
  have sent: "sent = map claimed_event claimed"
    and count: "unsettled_total rows' + length claimed = unsettled_total rows1"
    and ids: "map ob_id rows' = map ob_id rows1"
    and rest: "\<And>r. r \<in> set rows' \<Longrightarrow> unsettled r \<Longrightarrow> r \<in> set rows1 \<and> ob_id r \<notin> ?ids"
    and kept: "\<And>r. r \<in> set rows1 \<Longrightarrow> ob_id r \<notin> ?ids \<Longrightarrow> r \<in> set rows'"
    unfolding held(3) by (auto simp: publishOnce_def)
  have rows1: "rows1 = update_where (\<lambda>r. ob_id r \<in> ?ids) (claim_row now opts) rows"
    using c by (simp add: claimBatch_def Let_def)
  have old: "r \<in> set rows" if "r \<in> set rows'" "unsettled r" for r
    using rest [OF that] unfolding rows1 by (auto elim!: update_where_memE simp: claim_row_def)
  have "map ob_id rows1 = map ob_id rows"
    unfolding rows1 by (simp add: map_update_where claim_row_def)
  then show "ready now rows'" using assms(1) ids old by (simp add: ready_def)
  have "unsettled_total rows1 = unsettled_total rows"
    unfolding rows1 unsettled_total_def by (simp add: map_update_where claim_row_def unsettled_def)
  then show "unsettled_total rows' + length sent = unsettled_total rows"
    using count by (simp add: sent)
  show "sent \<noteq> []" if pos: "0 < unsettled_total rows"
  proof -
    obtain r where "r \<in> set rows" "claimable now rows r"
      using claimable_exists [OF assms(1)] pos by (auto simp: unsettled_total_pos)
    then have "filter (claimable now rows) rows \<noteq> []" by (auto simp: filter_empty_conv)
    then have "candidates now opts [] rows \<noteq> []"
      using assms(2) by (simp add: candidates_def) (metis length_0_conv length_sort)
    then show ?thesis using held(2) by (auto simp: sent)
  qed
  show "toDomainEvent r \<in> set sent \<or> r \<in> set rows'" if r: "r \<in> set rows" "unsettled r" for r
  proof (cases "ob_id r \<in> ?ids")
    case True
    then obtain q where q: "ob_id r = ob_id q" "q \<in> set (candidates now opts [] rows)" by (rule imageE)
    then have "q \<in> set rows" by (auto simp: candidates_def dest!: in_set_takeD)
    then have "q = r" using distinct_map_eqD [OF distinct _ r(1)] q(1) by simp
    then have "claim_row now opts r \<in> cr_row ` set claimed"
      using q(2) c by (force simp: claimBatch_def Let_def)
    then obtain x where x: "claim_row now opts r = cr_row x" "x \<in> set claimed" by (rule imageE)
    have "toDomainEvent r = claimed_event x" using claim_row_event [of now opts r] by (simp only: x(1))
    then show ?thesis using x(2) by (simp add: sent)
  next
    case False
    then have "r \<in> set rows1" unfolding rows1 using r(1) by (intro update_where_keepI) auto
    then show ?thesis using kept False by blast
  qed
qed

text \<open>
  C14. A backlog drains. On a healthy broker, with nothing in a backoff or under a live claim, as many
  passes as there are unsettled rows leave none: every pending event has been sent, and in total as
  many sends were made as there were pending events, so each was sent once.
\<close>

theorem publisher_drains_backlog:
  assumes "ready now rows" and "0 < po_batchSize opts" and "0 < po_leaseMs opts"
    and "unsettled_total rows \<le> n" and "publish_passes opts now n rows = (sent, rows')"
  shows "(\<forall>r \<in> set rows'. \<not> unsettled r)
    \<and> (\<forall>r \<in> set rows. unsettled r \<longrightarrow> toDomainEvent r \<in> set sent)
    \<and> length sent = unsettled_total rows"
  using assms
proof (induction n arbitrary: rows sent)
  case 0
  then show ?case using unsettled_total_0 [of rows] by auto
next
  case (Suc n)
  obtain sent1 result rows1 where
      one: "publishOnce opts now now [] (replicate (length rows) (healthy_tick now)) rows = (sent1, result, rows1)"
    by (cases "publishOnce opts now now [] (replicate (length rows) (healthy_tick now)) rows")
  obtain sent2 where two: "publish_passes opts now n rows1 = (sent2, rows')" and sent: "sent = sent1 @ sent2"
    using Suc.prems(5) one by (auto simp: Let_def split: prod.splits)
  note pass = healthy_pass [OF Suc.prems(1-3) one]
  have "unsettled_total rows1 \<le> n"
  proof (cases "unsettled_total rows = 0")
    case False
    then have "length sent1 \<noteq> 0" using pass(3) by simp
    then show ?thesis using pass(2) Suc.prems(4) by linarith
  qed (use pass(2) in simp)
  from Suc.IH [OF pass(1) Suc.prems(2,3) this two] pass(2,4) sent show ?case by fastforce
qed

theorem publisher_drains_backlog_witness:
  "length (fst (publish_passes demo_options 5 3 demo_rows)) = 3"
proof -
  have "ready 5 demo_rows" "unsettled_total demo_rows = 3"
    by (simp_all add: ready_def demo_rows_def demo_row_def unsettled_total_def unsettled_def)
  then show ?thesis
    using publisher_drains_backlog [OF _ _ _ _ surjective_pairing, of 5 demo_rows demo_options 3]
    by (simp add: demo_options_def)
qed

end
