(* ===== verification/Kitchen_Projection.thy ===== *)
theory Kitchen_Projection
  imports Contracts
begin

text \<open>
  The kitchen consumer, \<open>apps/worker/src/modules/kitchen\<close>: \<open>applyKitchenEvent\<close> of \<open>projection.ts\<close> with the
  rows it writes (\<open>processed_events\<close> under the consumer name \<open>kitchen\<close>, and \<open>kitchen_tickets\<close>), and the
  message handler of \<open>consumer.ts\<close> with the enqueue that follows a new ticket.

  The locale \<open>deduplicated\<close> is the contract of a consumer that marks an event id in the transaction of
  its effect: redeliveries change nothing, so a stream has the effect of its first deliveries.
\<close>

section \<open>Consumers that deduplicate\<close>

text \<open>The messages of a stream whose id is neither in \<open>seen\<close> nor earlier in the stream.\<close>

fun first_deliveries :: "('m \<Rightarrow> uuid) \<Rightarrow> uuid set \<Rightarrow> 'm list \<Rightarrow> 'm list" where
  "first_deliveries ident seen [] = []"
| "first_deliveries ident seen (m # ms) =
     (if ident m \<in> seen then first_deliveries ident seen ms
      else m # first_deliveries ident (insert (ident m) seen) ms)"

locale deduplicated =
  fixes ident :: "'m \<Rightarrow> uuid"
    and valid :: "'m \<Rightarrow> bool"
    and seen :: "'s \<Rightarrow> uuid set"
    and handle :: "'m \<Rightarrow> 's \<Rightarrow> 's"
  assumes skips: "ident m \<in> seen s \<Longrightarrow> handle m s = s"
    and marks: "valid m \<Longrightarrow> seen (handle m s) = insert (ident m) (seen s)"
begin

lemma redelivery: "valid m \<Longrightarrow> ident n = ident m \<Longrightarrow> handle n (handle m s) = handle m s"
  by (simp add: skips marks)

lemma seen_fold: "\<forall>m \<in> set ms. valid m \<Longrightarrow> seen (fold handle ms s) = seen s \<union> ident ` set ms"
  by (induction ms arbitrary: s) (auto simp: marks)

lemma first_deliveries_suffice:
  "\<forall>m \<in> set ms. valid m \<Longrightarrow> fold handle ms s = fold handle (first_deliveries ident (seen s) ms) s"
  by (induction ms arbitrary: s) (auto simp: skips marks insert_absorb)

lemma replay_suffix: "ident ` set ms \<subseteq> seen s \<Longrightarrow> fold handle ms s = s"
  by (induction ms) (auto simp: skips)

end

lemma first_deliveries_subset: "set (first_deliveries ident seen ms) \<subseteq> set ms"
  by (induction ident seen ms rule: first_deliveries.induct) auto

lemma first_deliveries_ids:
  "distinct (map ident (first_deliveries ident seen ms))"
  "ident ` set (first_deliveries ident seen ms) = ident ` set ms - seen"
  by (induction ident seen ms rule: first_deliveries.induct) auto

section \<open>Tickets\<close>

datatype kitchen_ticket_state = SENT_TO_KITCHEN' | PREPARING' | READY' | CANCELLED'

record kitchen_ticket =
  kt_restaurantId :: tenant
  kt_tableNumber :: string
  kt_items :: "order_item list"
  kt_state :: kitchen_ticket_state
  kt_sourceEventVersion :: int
  kt_createdAt :: millis
  kt_updatedAt :: millis

record kitchen_db =
  kd_processed :: "(uuid \<times> string) list"
  kd_tickets :: "uuid \<Rightarrow> kitchen_ticket option"

datatype projection_result = Projected | DuplicateEvent | RecordedOnly | StaleEvent

definition KITCHEN_CONSUMER :: string where
  "KITCHEN_CONSUMER = ''kitchen''"

definition STATE_BY_EVENT_TYPE :: "string \<Rightarrow> kitchen_ticket_state option" where
  "STATE_BY_EVENT_TYPE eventType =
     (if eventType = ''OrderPreparing'' then Some PREPARING'
      else if eventType = ''OrderReady'' then Some READY'
      else if eventType = ''OrderCancelled'' then Some CANCELLED'
      else None)"

text \<open>
  The upsert. A payload that is not a kitchen payload violates the \<open>not null\<close> of the columns it should
  fill: the statement fails (\<open>None\<close>).
\<close>

definition createTicket ::
  "millis \<Rightarrow> kitchen_db \<Rightarrow> domain_event \<Rightarrow> (projection_result \<times> kitchen_db) option" where
  "createTicket now d e =
     (case ev_payload e of
        OrderSentToKitchenPayload _ tableNumber items _ \<Rightarrow>
          Some (case kd_tickets d (ev_aggregateId e) of
             None \<Rightarrow>
               (Projected, d\<lparr>kd_tickets := (kd_tickets d)(ev_aggregateId e \<mapsto>
                  \<lparr>kt_restaurantId = ev_restaurantId e, kt_tableNumber = tableNumber, kt_items = items,
                   kt_state = SENT_TO_KITCHEN', kt_sourceEventVersion = ev_version e,
                   kt_createdAt = now, kt_updatedAt = now\<rparr>)\<rparr>)
           | Some t \<Rightarrow>
               if kt_sourceEventVersion t < ev_version e
               then (Projected, d\<lparr>kd_tickets := (kd_tickets d)(ev_aggregateId e \<mapsto>
                  t\<lparr>kt_tableNumber := tableNumber, kt_items := items, kt_state := SENT_TO_KITCHEN',
                    kt_sourceEventVersion := ev_version e, kt_updatedAt := now\<rparr>)\<rparr>)
               else (StaleEvent, d))
      | _ \<Rightarrow> None)"

definition advanceTicket ::
  "millis \<Rightarrow> kitchen_db \<Rightarrow> domain_event \<Rightarrow> kitchen_ticket_state \<Rightarrow> projection_result \<times> kitchen_db" where
  "advanceTicket now d e state =
     (case kd_tickets d (ev_aggregateId e) of
        None \<Rightarrow> (RecordedOnly, d)
      | Some t \<Rightarrow>
          if kt_sourceEventVersion t < ev_version e
          then (Projected, d\<lparr>kd_tickets := (kd_tickets d)(ev_aggregateId e \<mapsto>
             t\<lparr>kt_state := state, kt_sourceEventVersion := ev_version e, kt_updatedAt := now\<rparr>)\<rparr>)
          else (StaleEvent, d))"

text \<open>One transaction: on a failed statement nothing stays, the mark included.\<close>

definition applyKitchenEvent ::
  "millis \<Rightarrow> kitchen_db \<Rightarrow> domain_event \<Rightarrow> (projection_result \<times> kitchen_db) option" where
  "applyKitchenEvent now d e =
     (if (ev_eventId e, KITCHEN_CONSUMER) \<in> set (kd_processed d) then Some (DuplicateEvent, d)
      else let d1 = d\<lparr>kd_processed := (ev_eventId e, KITCHEN_CONSUMER) # kd_processed d\<rparr> in
        if ev_eventType e = ''OrderSentToKitchen'' then createTicket now d1 e
        else (case STATE_BY_EVENT_TYPE (ev_eventType e) of
                None \<Rightarrow> Some (RecordedOnly, d1)
              | Some state \<Rightarrow> Some (advanceTicket now d1 e state)))"

section \<open>The message handler\<close>

record printable_ticket =
  pt_orderId :: uuid
  pt_restaurantId :: tenant
  pt_tableNumber :: string
  pt_items :: "order_item list"

text \<open>
  \<open>enqueue\<close> answers whether the queue took the ticket; a failure is logged and swallowed, and without
  a queue nothing is enqueued. The offset is committed unless the handler throws (\<open>None\<close>).
\<close>

definition enqueueTicket ::
  "(printable_ticket \<Rightarrow> bool) option \<Rightarrow> domain_event \<Rightarrow> printable_ticket list" where
  "enqueueTicket enqueuePrint e =
     (case enqueuePrint of
        None \<Rightarrow> []
      | Some enqueue \<Rightarrow>
          (case ev_payload e of
             OrderSentToKitchenPayload _ tableNumber items _ \<Rightarrow>
               (let ticket = \<lparr>pt_orderId = ev_aggregateId e, pt_restaurantId = ev_restaurantId e,
                              pt_tableNumber = tableNumber, pt_items = items\<rparr>
                in if enqueue ticket then [ticket] else [])
           | _ \<Rightarrow> []))"

record message_outcome =
  mo_db :: kitchen_db
  mo_enqueued :: "printable_ticket list"
  mo_duplicates :: nat

definition eachMessage ::
  "(printable_ticket \<Rightarrow> bool) option \<Rightarrow> millis \<Rightarrow> kitchen_db \<Rightarrow> domain_event \<Rightarrow> message_outcome option" where
  "eachMessage enqueuePrint now d e =
     (case applyKitchenEvent now d e of
        None \<Rightarrow> None
      | Some (result, d') \<Rightarrow>
          Some \<lparr>mo_db = d',
                mo_enqueued =
                  (if result = Projected \<and> ev_eventType e = ''OrderSentToKitchen''
                   then enqueueTicket enqueuePrint e else []),
                mo_duplicates = (if result = DuplicateEvent then 1 else 0)\<rparr>)"

section \<open>Events the handler of mutations writes\<close>

text \<open>Only \<open>OrderSentToKitchen\<close> needs its payload, and always has it.\<close>

definition kitchen_typed :: "domain_event \<Rightarrow> bool" where
  "kitchen_typed e \<longleftrightarrow>
     (ev_eventType e = ''OrderSentToKitchen'' \<longrightarrow>
        (case ev_payload e of OrderSentToKitchenPayload _ _ _ _ \<Rightarrow> True | _ \<Rightarrow> False))"

text \<open>One delivery, with its time: a message whose transaction failed leaves the database alone (and is retried).\<close>

definition project :: "millis \<Rightarrow> domain_event \<Rightarrow> kitchen_db \<Rightarrow> kitchen_db" where
  "project now e d = (case applyKitchenEvent now d e of None \<Rightarrow> d | Some (_, d') \<Rightarrow> d')"

definition empty_kitchen :: kitchen_db where
  "empty_kitchen = \<lparr>kd_processed = [], kd_tickets = (\<lambda>_. None)\<rparr>"

definition kitchen_seen :: "kitchen_db \<Rightarrow> uuid set" where
  "kitchen_seen d = {i. (i, KITCHEN_CONSUMER) \<in> set (kd_processed d)}"

lemma createTicket_typed:
  "(case ev_payload e of OrderSentToKitchenPayload _ _ _ _ \<Rightarrow> True | _ \<Rightarrow> False) \<Longrightarrow>
     \<exists>r d'. createTicket now d e = Some (r, d') \<and> kd_processed d' = kd_processed d"
  by (auto simp: createTicket_def split: event_payload.splits option.splits)

lemma advanceTicket_processed: "kd_processed (snd (advanceTicket now d e st)) = kd_processed d"
  by (simp add: advanceTicket_def split: option.splits)

lemma project_marks:
  assumes "kitchen_typed e"
  shows "kitchen_seen (project now e d) = insert (ev_eventId e) (kitchen_seen d)"
proof (cases "(ev_eventId e, KITCHEN_CONSUMER) \<in> set (kd_processed d)")
  case True
  then show ?thesis by (auto simp: project_def applyKitchenEvent_def kitchen_seen_def)
next
  case False
  let ?d = "d\<lparr>kd_processed := (ev_eventId e, KITCHEN_CONSUMER) # kd_processed d\<rparr>"
  have "kd_processed (project now e d) = kd_processed ?d"
  proof (cases "ev_eventType e = ''OrderSentToKitchen''")
    case True
    then obtain r d' where "createTicket now ?d e = Some (r, d')" "kd_processed d' = kd_processed ?d"
      using assms createTicket_typed [of e now ?d] by (auto simp: kitchen_typed_def)
    then show ?thesis using True False by (simp add: project_def applyKitchenEvent_def Let_def)
  next
    case other: False
    then show ?thesis
      using False advanceTicket_processed [of now ?d e]
      by (auto simp: project_def applyKitchenEvent_def Let_def split: option.splits prod.splits)
        (metis snd_conv)+
  qed
  then show ?thesis by (auto simp: kitchen_seen_def)
qed

lemma project_skips: "ev_eventId e \<in> kitchen_seen d \<Longrightarrow> project now e d = d"
  by (simp add: project_def applyKitchenEvent_def kitchen_seen_def)

abbreviation deliver :: "millis \<times> domain_event \<Rightarrow> kitchen_db \<Rightarrow> kitchen_db" where
  "deliver m \<equiv> project (fst m) (snd m)"

abbreviation message_id :: "millis \<times> domain_event \<Rightarrow> uuid" where
  "message_id m \<equiv> ev_eventId (snd m)"

interpretation kitchen: deduplicated message_id "\<lambda>m. kitchen_typed (snd m)" kitchen_seen deliver
  by unfold_locales (auto simp: project_skips project_marks)

section \<open>What a ticket says of its order\<close>

type_synonym ticket_view = "tenant \<times> string \<times> order_item list \<times> kitchen_ticket_state \<times> int"

definition ticket_view :: "kitchen_ticket \<Rightarrow> ticket_view" where
  "ticket_view t =
     (kt_restaurantId t, kt_tableNumber t, kt_items t, kt_state t, kt_sourceEventVersion t)"

definition view_of :: "kitchen_db \<Rightarrow> uuid \<Rightarrow> ticket_view option" where
  "view_of d orderId = map_option ticket_view (kd_tickets d orderId)"

text \<open>
  The specification: what the next event of an order makes of its ticket, with no regard for
  redelivery or order.
\<close>

definition ticket_step :: "domain_event \<Rightarrow> ticket_view option \<Rightarrow> ticket_view option" where
  "ticket_step e t =
     (if ev_eventType e = ''OrderSentToKitchen''
      then (case ev_payload e of
              OrderSentToKitchenPayload _ tableNumber items _ \<Rightarrow>
                Some (case t of None \<Rightarrow> ev_restaurantId e | Some (r, _) \<Rightarrow> r,
                      tableNumber, items, SENT_TO_KITCHEN', ev_version e)
            | _ \<Rightarrow> t)
      else (case STATE_BY_EVENT_TYPE (ev_eventType e) of
              None \<Rightarrow> t
            | Some state \<Rightarrow> map_option (\<lambda>(r, n, items, _, _). (r, n, items, state, ev_version e)) t))"

definition view_version :: "ticket_view \<Rightarrow> int" where
  "view_version v = (case v of (_, _, _, _, version) \<Rightarrow> version)"

lemma view_version_ticket [simp]: "view_version (ticket_view t) = kt_sourceEventVersion t"
  by (simp add: view_version_def ticket_view_def)

text \<open>A first delivery in order does what the specification says; no other ticket moves.\<close>

lemma project_other: "orderId \<noteq> ev_aggregateId e \<Longrightarrow> kd_tickets (project now e d) orderId = kd_tickets d orderId"
  by (auto simp: project_def applyKitchenEvent_def createTicket_def advanceTicket_def Let_def
      split: option.splits event_payload.splits)

lemma project_view:
  assumes "ev_eventId e \<notin> kitchen_seen d"
    and "\<And>v. view_of d (ev_aggregateId e) = Some v \<Longrightarrow> view_version v < ev_version e"
  shows "view_of (project now e d) (ev_aggregateId e) = ticket_step e (view_of d (ev_aggregateId e))"
proof -
  have newer: "kt_sourceEventVersion t < ev_version e" if "kd_tickets d (ev_aggregateId e) = Some t" for t
    using assms(2) that by (simp add: view_of_def)
  have unseen: "(ev_eventId e, KITCHEN_CONSUMER) \<notin> set (kd_processed d)"
    using assms(1) by (simp add: kitchen_seen_def)
  show ?thesis
  proof (cases "kd_tickets d (ev_aggregateId e)")
    case None
    then show ?thesis
      using unseen
      by (auto simp: project_def applyKitchenEvent_def createTicket_def advanceTicket_def Let_def
          view_of_def ticket_step_def ticket_view_def split: option.splits event_payload.splits)
  next
    case (Some t)
    then show ?thesis
      using unseen newer [OF Some]
      by (auto simp: project_def applyKitchenEvent_def createTicket_def advanceTicket_def Let_def
          view_of_def ticket_step_def ticket_view_def split: option.splits event_payload.splits)
  qed
qed

text \<open>Whatever arrives, a ticket never goes back to an older version and is never removed.\<close>

lemma project_monotone:
  assumes "kd_tickets d orderId = Some t"
  shows "\<exists>t'. kd_tickets (project now e d) orderId = Some t'
    \<and> (t' = t \<or> kt_sourceEventVersion t < kt_sourceEventVersion t')
    \<and> kt_restaurantId t' = kt_restaurantId t"
proof (cases "orderId = ev_aggregateId e")
  case False
  then show ?thesis using assms project_other by simp
next
  case True
  then show ?thesis
    using assms
    by (auto simp: project_def applyKitchenEvent_def createTicket_def advanceTicket_def Let_def
        split: option.splits event_payload.splits)
qed

lemma ticket_step_version:
  "ticket_step e t = Some v \<Longrightarrow> view_version v = ev_version e \<or> t = Some v"
  by (auto simp: ticket_step_def view_version_def split: if_splits event_payload.splits option.splits)

lemma projected_stream:
  assumes "distinct (map message_id ms)" and "message_id ` set ms \<inter> kitchen_seen d = {}"
    and "\<forall>m \<in> set ms. kitchen_typed (snd m)"
    and "sorted_wrt (\<lambda>a b. ev_version a < ev_version b)
      (filter (\<lambda>e. ev_aggregateId e = orderId) (map snd ms))"
    and "\<And>v e. view_of d orderId = Some v \<Longrightarrow> e \<in> snd ` set ms \<Longrightarrow> ev_aggregateId e = orderId \<Longrightarrow>
      view_version v < ev_version e"
  shows "view_of (fold deliver ms d) orderId =
    fold ticket_step (filter (\<lambda>e. ev_aggregateId e = orderId) (map snd ms)) (view_of d orderId)"
  using assms
proof (induction ms arbitrary: d)
  case Nil
  then show ?case by simp
next
  case (Cons m ms)
  let ?d = "deliver m d"
  have seen: "kitchen_seen ?d = insert (message_id m) (kitchen_seen d)"
    using Cons.prems(3) by (simp add: project_marks)
  have unseen: "message_id m \<notin> kitchen_seen d" using Cons.prems(2) by auto
  have disjoint: "message_id ` set ms \<inter> kitchen_seen ?d = {}"
    using Cons.prems(1,2) by (auto simp: seen)
  show ?case
  proof (cases "ev_aggregateId (snd m) = orderId")
    case False
    then have same: "view_of ?d orderId = view_of d orderId"
      using project_other [of orderId "snd m"] by (simp add: view_of_def)
    have "view_of (fold deliver ms ?d) orderId =
        fold ticket_step (filter (\<lambda>e. ev_aggregateId e = orderId) (map snd ms)) (view_of ?d orderId)"
      using Cons.prems False same disjoint by (intro Cons.IH) auto
    then show ?thesis using False same by simp
  next
    case True
    have "view_version v < ev_version (snd m)" if "view_of d (ev_aggregateId (snd m)) = Some v" for v
      using Cons.prems(5) [of v "snd m"] that True by simp
    then have step: "view_of ?d orderId = ticket_step (snd m) (view_of d orderId)"
      using project_view [OF unseen] True by simp
    have "view_version v < ev_version e"
      if "view_of ?d orderId = Some v" "e \<in> snd ` set ms" "ev_aggregateId e = orderId" for v e
    proof -
      have "ev_version (snd m) < ev_version e" using Cons.prems(4) that(2,3) True by auto
      moreover have "view_version v = ev_version (snd m) \<or> view_of d orderId = Some v"
        using ticket_step_version that(1) step by simp
      ultimately show ?thesis using Cons.prems(5) [of v e] that(2,3) by auto
    qed
    then have "view_of (fold deliver ms ?d) orderId =
        fold ticket_step (filter (\<lambda>e. ev_aggregateId e = orderId) (map snd ms)) (view_of ?d orderId)"
      using Cons.prems disjoint True by (intro Cons.IH) auto
    then show ?thesis using True step by simp
  qed
qed

end
