(* ===== verification/Kitchen_Delivery.thy ===== *)
theory Kitchen_Delivery
  imports Outbox_Properties Kitchen_Projection
begin

text \<open>
  From the outbox to the kitchen screen. A consumer reads the topic in order, may be sent back to any
  earlier offset (a crash before the commit, a rebalance) and reads on from there; \<open>consumes\<close> is that
  relation. The tickets that result are those of the order's events, each applied once, in version
  order.
\<close>

section \<open>Reading a topic at least once\<close>

inductive consumes :: "domain_event list \<Rightarrow> (millis \<times> domain_event) list \<Rightarrow> nat \<Rightarrow> bool"
  for topic :: "domain_event list" where
  start: "consumes topic [] 0"
| read: "consumes topic ms p \<Longrightarrow> p < length topic \<Longrightarrow> consumes topic (ms @ [(now, topic ! p)]) (p + 1)"
| rewind: "consumes topic ms p \<Longrightarrow> q \<le> p \<Longrightarrow> consumes topic ms q"

lemma first_deliveries_append:
  "first_deliveries ident seen (xs @ ys) =
     first_deliveries ident seen xs @ first_deliveries ident (seen \<union> ident ` set xs) ys"
  by (induction ident seen xs rule: first_deliveries.induct) (auto simp: insert_absorb Un_insert_left)

lemma first_deliveries_map:
  "map f (first_deliveries (\<lambda>m. ident (f m)) seen ms) = first_deliveries ident seen (map f ms)"
  by (induction ms arbitrary: seen) auto

text \<open>However often it was sent back, a consumer has seen a prefix, and first saw it in order.\<close>

lemma consumes_prefix:
  "consumes topic ms p \<Longrightarrow> \<exists>hi. p \<le> hi \<and> hi \<le> length topic
    \<and> set (map snd ms) = set (take hi topic)
    \<and> first_deliveries ev_eventId {} (map snd ms) = first_deliveries ev_eventId {} (take hi topic)"
proof (induction rule: consumes.induct)
  case start
  then show ?case by (intro exI [of _ 0]) simp
next
  case (read ms p now)
  then obtain hi where hi: "p \<le> hi" "hi \<le> length topic" "set (map snd ms) = set (take hi topic)"
      "first_deliveries ev_eventId {} (map snd ms) = first_deliveries ev_eventId {} (take hi topic)" by blast
  show ?case
  proof (cases "p = hi")
    case True
    then have "take (p + 1) topic = take hi topic @ [topic ! p]"
      using read.hyps(2) by (simp add: take_Suc_conv_app_nth)
    then show ?thesis
      using hi read.hyps(2)
      by (intro exI [of _ "p + 1"]) (simp add: first_deliveries_append flip: hi(3))
  next
    case False
    then have "topic ! p \<in> set (take hi topic)"
      using hi(1,2) by (auto simp: in_set_conv_nth intro!: exI [of _ p])
    then show ?thesis
      using hi False by (intro exI [of _ hi]) (auto simp: first_deliveries_append)
  qed
next
  case (rewind ms p q)
  then show ?case by (meson order_trans)
qed

section \<open>Versions of an order\<close>

abbreviation version_sorted :: "domain_event list \<Rightarrow> bool" where
  "version_sorted \<equiv> sorted_wrt (\<lambda>a b. ev_version a < ev_version b)"

abbreviation order_events :: "uuid \<Rightarrow> domain_event list \<Rightarrow> domain_event list" where
  "order_events orderId \<equiv> filter (\<lambda>e. ev_aggregateId e = orderId)"

lemma version_sorted_unique:
  assumes "version_sorted xs" and "version_sorted ys" and "set xs = set ys"
  shows "xs = ys"
proof -
  have sorted: "sorted_wrt (<) (map ev_version xs)" "sorted_wrt (<) (map ev_version ys)"
    using assms(1,2) by (simp_all add: sorted_wrt_map)
  then have "map ev_version xs = map ev_version ys"
    using assms(3) by (intro strict_sorted_equal) simp_all
  moreover have "inj_on ev_version (set xs \<union> set ys)"
    using sorted(1) assms(3) by (simp add: strict_sorted_iff distinct_map)
  ultimately show ?thesis by (simp add: inj_on_map_eq_map)
qed

lemma rows_version_sorted: "outbox_step s t \<Longrightarrow>
   (\<forall>orderId. version_sorted (order_events orderId (row_events s))) \<Longrightarrow>
   (\<forall>orderId. version_sorted (order_events orderId (row_events t)))"
proof (induction rule: outbox_step.induct)
  case (append s e)
  then show ?case by (fastforce simp: sorted_wrt_append fresh_event_def)
next
  case (claim now opts locked s claimed rows')
  then show ?case using claim.events [of now opts locked "ox_rows s"] by simp
next
  case (failed s ps opts c cs qs now message deadLettered rows')
  then show ?case using failure.events [of now opts message "ox_rows s" "cr_row c"] by simp
next
  case (replay now locked s target rows')
  then show ?case using replay.events [of now locked "ox_rows s"] by simp
qed (simp_all add: mark.events release.events)

lemma reachable_version_sorted:
  assumes "reachable_outbox s"
  shows "version_sorted (order_events orderId (row_events s))"
proof -
  have "\<forall>orderId. version_sorted (order_events orderId (row_events s))"
    using assms unfolding reachable_outbox_def
  proof (induction rule: rtranclp_induct)
    case base
    then show ?case by (simp add: initial_outbox_def)
  next
    case (step t u)
    then show ?case using rows_version_sorted by blast
  qed
  then show ?thesis ..
qed

lemma topic_first_deliveries_sorted:
  assumes "topic_ok events [] before es" and "ev_eventId ` set before \<subseteq> seen"
    and "\<And>a b. a \<in> set events \<Longrightarrow> b \<in> set events \<Longrightarrow> ev_aggregateId a = ev_aggregateId b \<Longrightarrow>
      ev_version a = ev_version b \<Longrightarrow> a = b"
  shows "version_sorted (order_events orderId (first_deliveries ev_eventId seen es))"
  using assms
proof (induction es arbitrary: before seen)
  case (Cons e es)
  have rest: "version_sorted (order_events orderId
      (first_deliveries ev_eventId (insert (ev_eventId e) seen) es))"
    using Cons.prems by (intro Cons.IH [of "before @ [e]"]) auto
  show ?case
  proof (cases "ev_eventId e \<in> seen")
    case True
    then show ?thesis using rest by (simp add: insert_absorb)
  next
    case False
    have "ev_version e < ev_version x"
      if x: "x \<in> set (first_deliveries ev_eventId (insert (ev_eventId e) seen) es)"
        "ev_aggregateId x = ev_aggregateId e" for x
    proof (rule ccontr)
      assume "\<not> ev_version e < ev_version x"
      have xe: "x \<in> set es" using x(1) first_deliveries_subset by fastforce
      have fresh: "ev_eventId x \<notin> insert (ev_eventId e) seen"
        using x(1) first_deliveries_ids(2) [of ev_eventId "insert (ev_eventId e) seen" es] by blast
      have cov: "covered events before [] e" using Cons.prems(1) by simp
      obtain ys zs where "es = ys @ x # zs" using split_list [OF xe] by blast
      then have "covered events (before @ [e] @ ys) [] x"
        using Cons.prems(1) topic_ok_split [of events "[]" "before @ [e]" ys x zs] by simp
      then have in_events: "x \<in> set events" "e \<in> set events" using cov by (simp_all add: covered_def)
      have "ev_version x \<noteq> ev_version e"
        using Cons.prems(3) [OF in_events] x(2) fresh by auto
      then have "ev_version x < ev_version e" using \<open>\<not> ev_version e < ev_version x\<close> by simp
      then have "x \<in> set before" using cov in_events(1) x(2) by (simp add: covered_def)
      then show False using Cons.prems(2) fresh by auto
    qed
    then show ?thesis using rest False by auto
  qed
qed simp

lemma version_sorted_inj:
  "version_sorted xs \<Longrightarrow> a \<in> set xs \<Longrightarrow> b \<in> set xs \<Longrightarrow> ev_version a = ev_version b \<Longrightarrow> a = b"
  by (induction xs) auto

section \<open>Property\<close>

lemma topic_events_known:
  assumes reach: "reachable_outbox s" and "ox_dead s = []" and e: "e \<in> set (ox_topic s)"
  shows "e \<in> set (row_events s)"
proof -
  obtain xs ys where "ox_topic s = xs @ e # ys" using split_list [OF e] by blast
  then have "covered (row_events s) ([] @ xs) [] e"
    using topic_ok_split [of "row_events s" "[]" "[]" xs e ys] reachable_outbox_ok [OF reach] assms(2) by (simp add: outbox_ok_def)
  then show ?thesis by (simp add: covered_def)
qed

text \<open>When every event of an order is published, the first deliveries of the topic are its events.\<close>

lemma topic_has_the_events:
  assumes reach: "reachable_outbox s" and "ox_dead s = []"
    and published: "\<forall>r \<in> set (ox_rows s). ob_aggregateId r = orderId \<longrightarrow> ob_publishedAt r \<noteq> None"
  shows "version_sorted (order_events orderId (first_deliveries ev_eventId {} (ox_topic s)))"
    and "order_events orderId (first_deliveries ev_eventId {} (ox_topic s)) = order_events orderId (row_events s)"
proof -
  let ?events = "row_events s"
  let ?firsts = "first_deliveries ev_eventId {} (ox_topic s)"
  have rows: "rows_ok (ox_rows s) (ox_topic s) []" and topic: "topic_ok ?events [] [] (ox_topic s)"
    using reachable_outbox_ok [OF reach] assms(2) by (simp_all add: outbox_ok_def)
  note known = topic_events_known [OF assms(1,2)]
  have unique: "a = b" if "a \<in> set ?events" "b \<in> set ?events" "ev_aggregateId a = ev_aggregateId b"
      "ev_version a = ev_version b" for a b
    using version_sorted_inj [OF reachable_version_sorted [OF reach, of "ev_aggregateId b"]] that by simp
  show sorted: "version_sorted (order_events orderId ?firsts)"
    by (rule topic_first_deliveries_sorted [OF topic _ unique]) simp_all
  show "order_events orderId ?firsts = order_events orderId ?events"
  proof (rule version_sorted_unique [OF sorted reachable_version_sorted [OF reach]])
    show "set (order_events orderId ?firsts) = set (order_events orderId ?events)"
    proof (intro equalityI subsetI)
      fix e assume "e \<in> set (order_events orderId ?firsts)"
      then show "e \<in> set (order_events orderId ?events)"
        using known first_deliveries_subset [of ev_eventId "{}" "ox_topic s"] by auto
    next
      fix e assume e: "e \<in> set (order_events orderId ?events)"
      then obtain r where r: "r \<in> set (ox_rows s)" "e = toDomainEvent r" by auto
      then have "e \<in> set (ox_topic s)" using e published rows by (auto dest: rows_okD)
      then have "ev_eventId e \<in> ev_eventId ` set ?firsts"
        using first_deliveries_ids(2) [of ev_eventId "{}" "ox_topic s"] by simp
      then obtain x where x: "ev_eventId e = ev_eventId x" "x \<in> set ?firsts" by (rule imageE)
      then have "x \<in> set ?events" using known first_deliveries_subset [of ev_eventId "{}" "ox_topic s"] by blast
      then obtain q where q: "q \<in> set (ox_rows s)" "x = toDomainEvent q" by auto
      have "ob_id q = ob_id r" using x(1) unfolding q(2) r(2) by simp
      then have "q = r" by (rule distinct_map_eqD [OF rows_okD(3) [OF rows] q(1) r(1)])
      then have "x = e" by (simp only: q(2) r(2))
      then have "e \<in> set ?firsts" using x(2) by (simp only:)
      then show "e \<in> set (order_events orderId ?firsts)" using e by (simp only: set_filter mem_Collect_eq simp_thms)
    qed
  qed
qed

text \<open>
  C11. From the outbox to the screen. Take any run of the publishers in which no event was
  dead-lettered and every event of an order is published, and any consumer that has read the whole
  topic, with whatever duplicates the publishers made and however often it was sent back and read
  events again. The ticket of that order is then the one its outbox events give, each applied exactly
  once and in the order they were written.
\<close>

theorem kitchen_ticket_follows_outbox:
  assumes reach: "reachable_outbox s" and "ox_dead s = []"
    and typed: "\<forall>r \<in> set (ox_rows s). kitchen_typed (toDomainEvent r)"
    and published: "\<forall>r \<in> set (ox_rows s). ob_aggregateId r = orderId \<longrightarrow> ob_publishedAt r \<noteq> None"
    and consumed: "consumes (ox_topic s) ms (length (ox_topic s))"
  shows "view_of (fold deliver ms empty_kitchen) orderId =
    fold ticket_step (map toDomainEvent (filter (\<lambda>r. ob_aggregateId r = orderId) (ox_rows s))) None"
proof -
  let ?events = "row_events s"
  let ?firsts = "first_deliveries ev_eventId {} (ox_topic s)"
  note known = topic_events_known [OF assms(1,2)]
  obtain hi where hi: "length (ox_topic s) \<le> hi" "hi \<le> length (ox_topic s)"
      "set (map snd ms) = set (take hi (ox_topic s))"
      "first_deliveries ev_eventId {} (map snd ms) = first_deliveries ev_eventId {} (take hi (ox_topic s))"
    using consumes_prefix [OF consumed] by blast
  then have firsts: "first_deliveries ev_eventId {} (map snd ms) = ?firsts"
    and same: "set (map snd ms) = set (ox_topic s)" by simp_all
  let ?ms = "first_deliveries message_id {} ms"
  have snd_ms: "map snd ?ms = ?firsts" using first_deliveries_map [of snd ev_eventId "{}" ms] firsts by simp
  have valid: "\<forall>m \<in> set ms. kitchen_typed (snd m)"
  proof
    fix m assume "m \<in> set ms"
    then have "snd m \<in> set ?events" using same known by auto
    then show "kitchen_typed (snd m)" using typed by auto
  qed
  note events = topic_has_the_events [OF reach assms(2) published]
  have "fold deliver ms empty_kitchen = fold deliver ?ms empty_kitchen"
    using kitchen.first_deliveries_suffice [OF valid, of empty_kitchen]
    by (simp add: kitchen_seen_def empty_kitchen_def)
  moreover have "view_of (fold deliver ?ms empty_kitchen) orderId =
      fold ticket_step (order_events orderId (map snd ?ms)) (view_of empty_kitchen orderId)"
  proof (rule projected_stream)
    show "distinct (map message_id ?ms)" by (rule first_deliveries_ids)
    show "\<forall>m \<in> set ?ms. kitchen_typed (snd m)" using valid first_deliveries_subset by fastforce
    show "version_sorted (order_events orderId (map snd ?ms))" using events(1) snd_ms by simp
  qed (simp_all add: kitchen_seen_def empty_kitchen_def view_of_def)
  moreover have table: "order_events orderId ?events =
      map toDomainEvent (filter (\<lambda>r. ob_aggregateId r = orderId) (ox_rows s))"
    by (simp add: filter_map comp_def)
  moreover have "view_of empty_kitchen orderId = None" by (simp add: view_of_def empty_kitchen_def)
  ultimately show ?thesis by (simp only: snd_ms events(2) table)
qed


lemma consumes_all: "p \<le> length topic \<Longrightarrow> consumes topic (map (\<lambda>e. (0, e)) (take p topic)) p"
proof (induction p)
  case 0
  show ?case by (simp add: consumes.start)
next
  case (Suc p)
  then have "consumes topic (map (\<lambda>e. (0, e)) (take p topic) @ [(0, topic ! p)]) (p + 1)"
    by (intro consumes.read) auto
  then show ?case using Suc.prems by (simp add: take_Suc_conv_app_nth)
qed

definition kitchen_row :: outbox_row where
  "kitchen_row = (demo_row ''e1'' ''o1'' 1)\<lparr>ob_eventType := OrderSentToKitchen,
     ob_payload := OrderSentToKitchenPayload ''o1'' ''7'' [] 0\<rparr>"

lemma kitchen_row_published:
  "\<exists>s. reachable_outbox s \<and> ox_rows s = [published_row 5 (claim_row 5 demo_options kitchen_row)]
     \<and> ox_topic s = [toDomainEvent kitchen_row] \<and> ox_dead s = []"
proof -
  let ?c = "\<lparr>cr_row = claim_row 5 demo_options kitchen_row, cr_previousOwner = None\<rparr>"
  let ?s1 = "initial_outbox\<lparr>ox_rows := [kitchen_row]\<rparr>"
  let ?s2 = "?s1\<lparr>ox_rows := [claim_row 5 demo_options kitchen_row],
    ox_passes := [\<lparr>pa_opts = demo_options, pa_todo = [?c], pa_sending = False\<rparr>]\<rparr>"
  let ?s3 = "?s2\<lparr>ox_inflight := [claimed_event ?c],
    ox_passes := [\<lparr>pa_opts = demo_options, pa_todo = [?c], pa_sending = True\<rparr>]\<rparr>"
  let ?s4 = "?s3\<lparr>ox_topic := [claimed_event ?c]\<rparr>"
  let ?s5 = "?s4\<lparr>ox_rows := markPublished 5 [claim_row 5 demo_options kitchen_row] ''e1'',
    ox_passes := [\<lparr>pa_opts = demo_options, pa_todo = [], pa_sending = False\<rparr>]\<rparr>"
  have "outbox_step initial_outbox ?s1"
    using outbox_step.append [of initial_outbox kitchen_row]
    by (simp add: initial_outbox_def fresh_event_def kitchen_row_def demo_row_def)
  moreover have "claimBatch 5 demo_options [] [kitchen_row] = ([?c], [claim_row 5 demo_options kitchen_row])"
    by (simp add: claimBatch_def candidates_def claimable_def unsettled_def kitchen_row_def demo_row_def
        demo_options_def Let_def)
  then have "outbox_step ?s1 ?s2"
    using outbox_step.claim [of 5 demo_options "[]" ?s1] by (simp add: initial_outbox_def)
  moreover have "outbox_step ?s2 ?s3"
    using outbox_step.send [of ?s2 "[]" demo_options ?c "[]" "[]"] by (simp add: initial_outbox_def)
  moreover have "outbox_step ?s3 ?s4"
    using outbox_step.land [of "claimed_event ?c" ?s3] by (simp add: initial_outbox_def)
  moreover have "ob_id (claim_row 5 demo_options kitchen_row) = ''e1''"
    by (simp add: claim_row_def kitchen_row_def demo_row_def)
  then have "outbox_step ?s4 ?s5"
    using outbox_step.published [of ?s4 "[]" demo_options ?c "[]" "[]" 5] by (simp add: initial_outbox_def)
  ultimately have "reachable_outbox ?s5"
    unfolding reachable_outbox_def by (meson converse_rtranclp_into_rtranclp r_into_rtranclp)
  moreover have "ox_rows ?s5 = [published_row 5 (claim_row 5 demo_options kitchen_row)]"
    by (simp add: markPublished_def claim_row_def kitchen_row_def demo_row_def)
  ultimately show ?thesis by (intro exI [of _ ?s5]) (simp add: initial_outbox_def)
qed

theorem kitchen_ticket_follows_outbox_witness:
  "\<exists>ms. view_of (fold deliver ms empty_kitchen) ''o1'' =
     Some (''demo-restaurant'', ''7'', [], SENT_TO_KITCHEN', 1)"
proof -
  let ?r = "published_row 5 (claim_row 5 demo_options kitchen_row)"
  obtain s where s: "reachable_outbox s" "ox_rows s = [?r]" "ox_dead s = []"
    using kitchen_row_published by blast
  have r: "toDomainEvent ?r = toDomainEvent kitchen_row" "ob_aggregateId ?r = ''o1''" "ob_publishedAt ?r = Some 5"
    by (simp_all add: toDomainEvent_def published_row_def claim_row_def kitchen_row_def demo_row_def)
  have "view_of (fold deliver (map (\<lambda>e. (0, e)) (take (length (ox_topic s)) (ox_topic s))) empty_kitchen) ''o1''
      = fold ticket_step (map toDomainEvent (filter (\<lambda>r. ob_aggregateId r = ''o1'') (ox_rows s))) None"
  proof (rule kitchen_ticket_follows_outbox [OF s(1) s(3)])
    show "\<forall>r \<in> set (ox_rows s). kitchen_typed (toDomainEvent r)"
      using r(1) by (simp add: s(2) kitchen_typed_def kitchen_row_def)
    show "\<forall>r \<in> set (ox_rows s). ob_aggregateId r = ''o1'' \<longrightarrow> ob_publishedAt r \<noteq> None"
      using r by (simp add: s(2))
  qed (rule consumes_all, simp)
  then have "view_of (fold deliver (map (\<lambda>e. (0, e)) (take (length (ox_topic s)) (ox_topic s))) empty_kitchen) ''o1''
      = Some (''demo-restaurant'', ''7'', [], SENT_TO_KITCHEN', 1)"
    using r by (simp add: s(2) ticket_step_def kitchen_row_def demo_row_def toDomainEvent_def)
  then show ?thesis by blast
qed

text \<open>
  C12. Redelivery and disorder are safe at the kitchen. Whatever is delivered, in whatever order and
  however often: the tickets are those of the first deliveries alone; a ticket once made is never
  removed, never changes restaurant, and only ever moves to a higher event version; and replaying
  messages already seen changes nothing.
\<close>

theorem kitchen_projection_is_stable:
  assumes "\<forall>m \<in> set ms. kitchen_typed (snd m)" and "set again \<subseteq> set ms"
  shows "fold deliver ms d = fold deliver (first_deliveries message_id (kitchen_seen d) ms) d
    \<and> fold deliver (ms @ again) d = fold deliver ms d
    \<and> (\<forall>orderId t. kd_tickets d orderId = Some t \<longrightarrow>
        (\<exists>t'. kd_tickets (fold deliver ms d) orderId = Some t'
          \<and> (t' = t \<or> kt_sourceEventVersion t < kt_sourceEventVersion t')
          \<and> kt_restaurantId t' = kt_restaurantId t))"
proof (intro conjI allI impI)
  show "fold deliver ms d = fold deliver (first_deliveries message_id (kitchen_seen d) ms) d"
    using assms(1) by (rule kitchen.first_deliveries_suffice)
  have "message_id ` set again \<subseteq> kitchen_seen (fold deliver ms d)"
    using assms(2) kitchen.seen_fold [OF assms(1), of d] by blast
  then show "fold deliver (ms @ again) d = fold deliver ms d"
    by (simp add: kitchen.replay_suffix)
  show "\<exists>t'. kd_tickets (fold deliver ms d) orderId = Some t'
      \<and> (t' = t \<or> kt_sourceEventVersion t < kt_sourceEventVersion t') \<and> kt_restaurantId t' = kt_restaurantId t"
    if "kd_tickets d orderId = Some t" for orderId t
    using that
  proof (induction ms arbitrary: d t)
    case (Cons m ms)
    obtain t1 where t1: "kd_tickets (deliver m d) orderId = Some t1"
        "t1 = t \<or> kt_sourceEventVersion t < kt_sourceEventVersion t1" "kt_restaurantId t1 = kt_restaurantId t"
      using project_monotone [OF Cons.prems] by blast
    from Cons.IH [OF t1(1)] t1(2,3) show ?case by fastforce
  qed simp
qed

theorem kitchen_projection_is_stable_witness:
  "fold deliver ([(3, toDomainEvent kitchen_row)] @ [(3, toDomainEvent kitchen_row)]) empty_kitchen =
   fold deliver [(3, toDomainEvent kitchen_row)] empty_kitchen"
proof -
  have "\<forall>m \<in> set [(3, toDomainEvent kitchen_row)]. kitchen_typed (snd m)"
    by (simp add: kitchen_typed_def kitchen_row_def)
  from kitchen_projection_is_stable [OF this subset_refl, of empty_kitchen] show ?thesis
    by (elim conjE)
qed

end
