(* ===== verification/Client_Queue.thy ===== *)
theory Client_Queue
  imports Domain_Rules
begin

text \<open>
  The queue of the browser and what it predicts: the stored rows of \<open>apps/web/src/persistence/db.ts\<close>,
  the projection of \<open>domain/project-queue.ts\<close> and the snapshot rule of \<open>domain/order-snapshot.ts\<close>. A stored
  row keeps the type and the payload of its mutation; the model keeps their union
  (\<open>commandOf\<close>). \<open>createdAt\<close> is an ISO string of fixed length, whose order is that of the instant: the
  model keeps the instant.
\<close>

section \<open>Rows\<close>

datatype pending_status = PENDING | SYNCING | CONFLICT | BLOCKED | SYNCED

record pending_row =
  pn_mutationId :: uuid
  pn_restaurantId :: tenant
  pn_terminalId :: string
  pn_orderId :: uuid
  pn_baseVersion :: int
  pn_command :: mutation_command
  pn_createdAt :: millis
  pn_status :: pending_status

definition commandOf :: "pending_row \<Rightarrow> mutation_command" where
  "commandOf row = pn_command row"

section \<open>The projection\<close>

type_synonym menu_lookup = "string \<Rightarrow> menu_item option"

text \<open>A JavaScript \<open>Map\<close> keeps the last entry of a key.\<close>

definition menuLookup :: "menu_item list \<Rightarrow> menu_lookup" where
  "menuLookup items = map_of (rev (map (\<lambda>item. (menu_id item, item)) items))"

definition withItems :: "order_snapshot \<Rightarrow> order_item list \<Rightarrow> order_snapshot" where
  "withItems order items = order\<lparr>snap_items := items, snap_totalCents := calculateTotalCents items\<rparr>"

text \<open>The items after an item command; \<open>None\<close> for the commands that only move the status.\<close>

fun projected_items :: "menu_lookup \<Rightarrow> mutation_command \<Rightarrow> order_item list \<Rightarrow> order_item list option" where
  "projected_items lookup (AddItem productId q) items =
     Some (case held_line items productId of
             Some _ \<Rightarrow>
               map (\<lambda>i. if item_productId i = productId
                        then i\<lparr>item_quantity := item_quantity i + q\<rparr> else i) items
           | None \<Rightarrow>
               items @ [\<lparr>item_productId = productId,
                         item_name = (case lookup productId of None \<Rightarrow> productId | Some m \<Rightarrow> menu_name m),
                         item_quantity = q,
                         item_unitPriceCents =
                           (case lookup productId of None \<Rightarrow> 0 | Some m \<Rightarrow> menu_priceCents m)\<rparr>])"
| "projected_items lookup (RemoveItem productId) items =
     Some (filter (\<lambda>i. item_productId i \<noteq> productId) items)"
| "projected_items lookup (ChangeQuantity productId q) items =
     Some (map (\<lambda>i. if item_productId i = productId then i\<lparr>item_quantity := q\<rparr> else i) items)"
| "projected_items lookup _ items = None"

definition applyOne :: "menu_lookup \<Rightarrow> pending_row \<Rightarrow> order_snapshot option \<Rightarrow> order_snapshot option" where
  "applyOne lookup row order =
     (case order of
        None \<Rightarrow>
          (case pn_command row of
             CreateOrder tableNumber \<Rightarrow>
               Some \<lparr>snap_id = pn_orderId row, snap_restaurantId = pn_restaurantId row,
                     snap_tableNumber = tableNumber, snap_status = OPEN,
                     snap_version = pn_baseVersion row + 1, snap_totalCents = 0, snap_items = [],
                     snap_createdAt = pn_createdAt row, snap_updatedAt = pn_createdAt row\<rparr>
           | _ \<Rightarrow> None)
      | Some o' \<Rightarrow>
          (case decide (Some o') (commandOf row) of
             Inr (Apply nextStatus) \<Rightarrow>
               (let next = o'\<lparr>snap_status := nextStatus, snap_version := pn_baseVersion row + 1,
                              snap_updatedAt := pn_createdAt row\<rparr> in
                case projected_items lookup (pn_command row) (snap_items next) of
                  None \<Rightarrow> Some next
                | Some items \<Rightarrow> Some (withItems next items))
           | _ \<Rightarrow> Some o'))"

definition projectQueue ::
  "order_snapshot option \<Rightarrow> pending_row list \<Rightarrow> menu_lookup \<Rightarrow> order_snapshot option" where
  "projectQueue canonical queue lookup = fold (applyOne lookup) queue canonical"

definition nextBaseVersion :: "order_snapshot option \<Rightarrow> int" where
  "nextBaseVersion projected = (case projected of None \<Rightarrow> 0 | Some o' \<Rightarrow> snap_version o')"

lemma projectQueue_simps [simp]:
  "projectQueue p [] lookup = p"
  "projectQueue p (row # rows) lookup = projectQueue (applyOne lookup row p) rows lookup"
  by (simp_all add: projectQueue_def)

lemma projectQueue_append:
  "projectQueue p (rows @ [row]) lookup = applyOne lookup row (projectQueue p rows lookup)"
  by (simp add: projectQueue_def)

section \<open>Snapshots move forward\<close>

definition acceptsSnapshot :: "order_snapshot option \<Rightarrow> order_snapshot \<Rightarrow> bool" where
  "acceptsSnapshot held incoming \<longleftrightarrow>
     (case held of
        None \<Rightarrow> True
      | Some h \<Rightarrow> snap_id h \<noteq> snap_id incoming \<or> snap_version incoming \<ge> snap_version h)"

text \<open>A queue whose rows were stamped with \<open>nextBaseVersion\<close> when they were formed.\<close>

fun stamped :: "menu_lookup \<Rightarrow> order_snapshot option \<Rightarrow> pending_row list \<Rightarrow> bool" where
  "stamped lookup p [] \<longleftrightarrow> True"
| "stamped lookup p (row # rows) \<longleftrightarrow>
     pn_baseVersion row = nextBaseVersion p \<and> stamped lookup (applyOne lookup row p) rows"

lemma stamped_append:
  "stamped lookup p (rows @ [row]) \<longleftrightarrow>
     stamped lookup p rows \<and> pn_baseVersion row = nextBaseVersion (projectQueue p rows lookup)"
  by (induction rows arbitrary: p) auto

lemma applyOne_version:
  "pn_baseVersion row = nextBaseVersion p \<Longrightarrow>
     nextBaseVersion (applyOne lookup row p) =
       (if applyOne lookup row p = p then nextBaseVersion p else nextBaseVersion p + 1)
     \<or> nextBaseVersion (applyOne lookup row p) = nextBaseVersion p + 1"
  by (auto simp: applyOne_def nextBaseVersion_def withItems_def Let_def
      split: option.splits mutation_command.splits sum.splits decision.splits)

end
