(* ===== verification/Local_Store.thy ===== *)
theory Local_Store
  imports Client_Queue
begin

text \<open>
  The browser's database, \<open>apps/web/src/persistence/db.ts\<close>, and the repository over it,
  \<open>persistence/local-store.ts\<close>: the cached orders, the queue of pending mutations, the pointer of each
  terminal and the sync counters, with one definition per function of the repository.

  A table of IndexedDB is the list of its rows in primary-key order. Every function of the repository
  runs inside \<open>guarded\<close> and is one step here, which either runs or fails as a whole. In the source most are one storage operation or
  one transaction; \<open>savePending\<close> (two reads and a write) and \<open>readTerminalState\<close> (three reads) are several with no
  transaction around them. They write at most once and last, so a failure leaves nothing behind either way, but another function
  could run in between; that is not modelled.

  Which calls fail is the environment's choice: \<open>ls_faults\<close> lists it, one entry per guarded call
  (\<open>None\<close>: it runs; \<open>Some detail\<close>: it raises), and an exhausted list means that storage works. The list is finite: from some call
  on storage works again, and a storage that fails for ever is no state of the model.
\<close>

section \<open>Tables with a primary key\<close>

definition put_row :: "('r \<Rightarrow> 'k::linorder) \<Rightarrow> 'r \<Rightarrow> 'r list \<Rightarrow> 'r list" where
  "put_row key row rows = insort_key key row (delete_where (\<lambda>r. key r = key row) rows)"

definition get_row :: "('r \<Rightarrow> 'k) \<Rightarrow> 'k \<Rightarrow> 'r list \<Rightarrow> 'r option" where
  "get_row key k rows = find (\<lambda>r. key r = k) rows"

definition keyed :: "('r \<Rightarrow> 'k::linorder) \<Rightarrow> 'r list \<Rightarrow> bool" where
  "keyed key rows \<longleftrightarrow> sorted (map key rows) \<and> distinct (map key rows)"

lemma keyed_Nil [simp]: "keyed key []"
  by (simp add: keyed_def)

lemma set_put_row [simp]: "set (put_row key row rows) = insert row {r \<in> set rows. key r \<noteq> key row}"
  by (auto simp: put_row_def set_insort_key)

lemma sorted_map_delete_where: "sorted (map key rows) \<Longrightarrow> sorted (map key (delete_where P rows))"
  by (simp add: delete_where_def sorted_filter)

lemma keyed_delete_where: "keyed key rows \<Longrightarrow> keyed key (delete_where P rows)"
  by (simp add: keyed_def sorted_map_delete_where distinct_map_delete_where)

lemma keyed_put_row: "keyed key rows \<Longrightarrow> keyed key (put_row key row rows)"
proof -
  assume "keyed key rows"
  then have "keyed key (delete_where (\<lambda>r. key r = key row) rows)" by (rule keyed_delete_where)
  then show ?thesis by (auto simp: keyed_def put_row_def sorted_insort_key distinct_map_insort)
qed

lemma keyed_update_where:
  "keyed key rows \<Longrightarrow> (\<And>r. key (f r) = key r) \<Longrightarrow> keyed key (update_where P f rows)"
  by (simp add: keyed_def map_update_where)

lemma get_row_Some: "get_row key k rows = Some r \<Longrightarrow> r \<in> set rows \<and> key r = k"
  by (auto simp: get_row_def dest: find_Some_in)

lemma get_row_None: "get_row key k rows = None \<longleftrightarrow> k \<notin> key ` set rows"
  by (auto simp: get_row_def find_None_iff_not)

lemma get_row_iff:
  "keyed key rows \<Longrightarrow> get_row key k rows = Some r \<longleftrightarrow> r \<in> set rows \<and> key r = k"
  using find_key_unique [of key rows r] get_row_Some [of key k rows r]
  by (auto simp: keyed_def get_row_def)

lemma get_put_same [simp]: "get_row key (key row) (put_row key row rows) = Some row"
proof (cases "get_row key (key row) (put_row key row rows)")
  case None
  then show ?thesis by (simp add: get_row_None)
next
  case (Some r)
  then show ?thesis by (auto dest: get_row_Some)
qed

lemma get_put_row:
  assumes "keyed key rows"
  shows "get_row key k (put_row key row rows) = (if k = key row then Some row else get_row key k rows)"
proof (cases "k = key row")
  case True
  then show ?thesis by (simp add: get_row_iff keyed_put_row assms)
next
  case False
  show ?thesis
  proof (cases "get_row key k rows")
    case None
    then have "get_row key k (put_row key row rows) = None" using False by (auto simp: get_row_None)
    with None False show ?thesis by simp
  next
    case (Some r)
    then have "get_row key k (put_row key row rows) = Some r"
      using False assms by (auto simp: get_row_iff keyed_put_row)
    with Some False show ?thesis by simp
  qed
qed

section \<open>The database\<close>

record cached_order =
  co_id :: uuid
  co_terminalId :: string
  co_snapshot :: order_snapshot
  co_updatedAt :: millis

record sync_metadata =
  sm_terminalId :: string
  sm_currentOrderId :: "uuid option"
  sm_updatedAt :: millis

record sync_counter =
  sc_terminalId :: string
  sc_successes :: nat
  sc_failures :: nat
  sc_updatedAt :: millis

record local_store =
  ls_orders :: "cached_order list"
  ls_pending :: "pending_row list"
  ls_metadata :: "sync_metadata list"
  ls_counters :: "sync_counter list"
  ls_error :: "string option"
  ls_faults :: "string option list"

text \<open>What a terminal needs back after a reload.\<close>

record terminal_state =
  ts_currentOrderId :: "uuid option"
  ts_order :: "order_snapshot option"
  ts_queue :: "pending_row list"

definition guarded :: "string \<Rightarrow> (local_store \<Rightarrow> 'a \<times> local_store) \<Rightarrow> 'a \<Rightarrow> local_store \<Rightarrow> 'a \<times> local_store" where
  "guarded what run fallback s =
     (case ls_faults s of
        [] \<Rightarrow> run s
      | None # faults \<Rightarrow> run (s\<lparr>ls_faults := faults\<rparr>)
      | Some detail # faults \<Rightarrow>
          (fallback, s\<lparr>ls_faults := faults, ls_error := Some (what @ '' failed: '' @ detail)\<rparr>))"

text \<open>A repository call with no answer of its own.\<close>

abbreviation write_through ::
  "string \<Rightarrow> (local_store \<Rightarrow> local_store) \<Rightarrow> local_store \<Rightarrow> local_store" where
  "write_through what f s \<equiv> snd (guarded what (\<lambda>s'. ((), f s')) () s)"

section \<open>Snapshots\<close>

definition putSnapshotIfNewer ::
  "string \<Rightarrow> order_snapshot \<Rightarrow> millis \<Rightarrow> local_store \<Rightarrow> local_store" where
  "putSnapshotIfNewer terminalId snapshot updatedAt s =
     (if acceptsSnapshot (map_option co_snapshot (get_row co_id (snap_id snapshot) (ls_orders s))) snapshot
      then s\<lparr>ls_orders := put_row co_id
               \<lparr>co_id = snap_id snapshot, co_terminalId = terminalId, co_snapshot = snapshot,
                co_updatedAt = updatedAt\<rparr> (ls_orders s)\<rparr>
      else s)"

definition put_pointer :: "string \<Rightarrow> uuid option \<Rightarrow> millis \<Rightarrow> local_store \<Rightarrow> local_store" where
  "put_pointer terminalId orderId updatedAt s =
     s\<lparr>ls_metadata := put_row sm_terminalId
         \<lparr>sm_terminalId = terminalId, sm_currentOrderId = orderId, sm_updatedAt = updatedAt\<rparr>
         (ls_metadata s)\<rparr>"

definition saveOrder :: "millis \<Rightarrow> string \<Rightarrow> order_snapshot \<Rightarrow> local_store \<Rightarrow> local_store" where
  "saveOrder now terminalId snapshot =
     write_through ''Caching the order''
       (\<lambda>s. put_pointer terminalId (Some (snap_id snapshot)) now
              (putSnapshotIfNewer terminalId snapshot now s))"

definition cacheOrder :: "millis \<Rightarrow> string \<Rightarrow> order_snapshot \<Rightarrow> local_store \<Rightarrow> local_store" where
  "cacheOrder now terminalId snapshot =
     write_through ''Caching the order'' (putSnapshotIfNewer terminalId snapshot now)"

definition clearCurrentOrder :: "millis \<Rightarrow> string \<Rightarrow> local_store \<Rightarrow> local_store" where
  "clearCurrentOrder now terminalId =
     write_through ''Clearing the current order'' (put_pointer terminalId None now)"

definition setCurrentOrder :: "millis \<Rightarrow> string \<Rightarrow> uuid \<Rightarrow> local_store \<Rightarrow> local_store" where
  "setCurrentOrder now terminalId orderId =
     write_through ''Pointing the terminal at the order'' (put_pointer terminalId (Some orderId) now)"

definition readOrder :: "uuid \<Rightarrow> local_store \<Rightarrow> order_snapshot option \<times> local_store" where
  "readOrder orderId =
     guarded ''Reading the cached order''
       (\<lambda>s. (map_option co_snapshot (get_row co_id orderId (ls_orders s)), s)) None"

section \<open>The queue\<close>

text \<open>\<open>orderBy('createdAt').last()\<close>\<close>

definition newest_pending :: "pending_row list \<Rightarrow> pending_row option" where
  "newest_pending rows = (if rows = [] then None else Some (last (sort_key pn_createdAt rows)))"

definition queueStamp :: "millis \<Rightarrow> pending_row list \<Rightarrow> millis" where
  "queueStamp now rows =
     max now (case newest_pending rows of None \<Rightarrow> 0 | Some newest \<Rightarrow> pn_createdAt newest + 1)"

definition isLaterInQueue :: "pending_row \<Rightarrow> pending_row \<Rightarrow> bool" where
  "isLaterInQueue row head \<longleftrightarrow>
     (if pn_createdAt row \<noteq> pn_createdAt head then pn_createdAt row > pn_createdAt head
      else pn_mutationId row > pn_mutationId head)"

text \<open>The input of \<open>savePending\<close> is a row without its \<open>createdAt\<close>; the field of the argument is not read.\<close>

definition stored_pending :: "millis \<Rightarrow> pending_row \<Rightarrow> pending_row list \<Rightarrow> pending_row" where
  "stored_pending now input rows =
     input\<lparr>pn_createdAt := (case get_row pn_mutationId (pn_mutationId input) rows of
                              Some existing \<Rightarrow> pn_createdAt existing
                            | None \<Rightarrow> queueStamp now rows)\<rparr>"

definition savePending :: "millis \<Rightarrow> pending_row \<Rightarrow> local_store \<Rightarrow> bool \<times> local_store" where
  "savePending now input =
     guarded ''Recording the pending mutation''
       (\<lambda>s. (True, s\<lparr>ls_pending := put_row pn_mutationId (stored_pending now input (ls_pending s))
                                   (ls_pending s)\<rparr>))
       False"

definition setPendingStatus :: "uuid \<Rightarrow> pending_status \<Rightarrow> local_store \<Rightarrow> local_store" where
  "setPendingStatus mutationId status =
     write_through ''Updating the pending mutation''
       (\<lambda>s. s\<lparr>ls_pending := update_where (\<lambda>r. pn_mutationId r = mutationId)
                             (\<lambda>r. r\<lparr>pn_status := status\<rparr>) (ls_pending s)\<rparr>)"

definition deletePending :: "uuid \<Rightarrow> local_store \<Rightarrow> local_store" where
  "deletePending mutationId =
     write_through ''Deleting the pending mutation''
       (\<lambda>s. s\<lparr>ls_pending := delete_where (\<lambda>r. pn_mutationId r = mutationId) (ls_pending s)\<rparr>)"

text \<open>\<open>where('terminalId').equals(terminalId).sortBy('createdAt')\<close>: a stable sort of the rows in key order.\<close>

definition terminal_queue :: "string \<Rightarrow> pending_row list \<Rightarrow> pending_row list" where
  "terminal_queue terminalId rows =
     sort_key pn_createdAt (filter (\<lambda>r. pn_terminalId r = terminalId) rows)"

definition readTerminalState :: "string \<Rightarrow> local_store \<Rightarrow> terminal_state \<times> local_store" where
  "readTerminalState terminalId =
     guarded ''Reading the local state''
       (\<lambda>s. let orderId = Option.bind (get_row sm_terminalId terminalId (ls_metadata s)) sm_currentOrderId;
                cached = Option.bind orderId (\<lambda>i. get_row co_id i (ls_orders s))
            in (\<lparr>ts_currentOrderId = orderId, ts_order = map_option co_snapshot cached,
                 ts_queue = terminal_queue terminalId (ls_pending s)\<rparr>, s))
       \<lparr>ts_currentOrderId = None, ts_order = None, ts_queue = []\<rparr>"

definition readQueue :: "string \<Rightarrow> local_store \<Rightarrow> pending_row list \<times> local_store" where
  "readQueue terminalId =
     guarded ''Reading the queue'' (\<lambda>s. (terminal_queue terminalId (ls_pending s), s)) []"

definition readPendingForTerminalInRestaurant ::
  "string \<Rightarrow> tenant \<Rightarrow> local_store \<Rightarrow> pending_row list \<times> local_store" where
  "readPendingForTerminalInRestaurant terminalId restaurantId =
     guarded ''Reading the pending commands''
       (\<lambda>s. (filter (\<lambda>r. pn_restaurantId r = restaurantId) (terminal_queue terminalId (ls_pending s)), s)) []"

definition normalizeSyncing :: "string \<Rightarrow> local_store \<Rightarrow> local_store" where
  "normalizeSyncing terminalId =
     write_through ''Recovering interrupted mutations''
       (\<lambda>s. s\<lparr>ls_pending := update_where (\<lambda>r. pn_terminalId r = terminalId \<and> pn_status r = SYNCING)
                             (\<lambda>r. r\<lparr>pn_status := PENDING\<rparr>) (ls_pending s)\<rparr>)"

definition halted_rows :: "pending_row \<Rightarrow> pending_row list \<Rightarrow> pending_row list" where
  "halted_rows head rows =
     update_where (\<lambda>r. pn_orderId r = pn_orderId head \<and> pn_terminalId r = pn_terminalId head \<and> isLaterInQueue r head)
       (\<lambda>r. r\<lparr>pn_status := BLOCKED\<rparr>)
       (update_where (\<lambda>r. pn_mutationId r = pn_mutationId head) (\<lambda>r. r\<lparr>pn_status := CONFLICT\<rparr>) rows)"

definition haltQueue :: "pending_row \<Rightarrow> local_store \<Rightarrow> local_store" where
  "haltQueue head =
     write_through ''Halting the queue'' (\<lambda>s. s\<lparr>ls_pending := halted_rows head (ls_pending s)\<rparr>)"

definition discardOrderQueue :: "string \<Rightarrow> uuid \<Rightarrow> local_store \<Rightarrow> local_store" where
  "discardOrderQueue terminalId orderId =
     write_through ''Discarding the halted mutations''
       (\<lambda>s. s\<lparr>ls_pending := delete_where (\<lambda>r. pn_orderId r = orderId \<and> pn_terminalId r = terminalId)
                             (ls_pending s)\<rparr>)"

definition reissue :: "pending_row \<Rightarrow> uuid \<Rightarrow> int \<Rightarrow> local_store \<Rightarrow> pending_row option \<times> local_store" where
  "reissue previous mutationId baseVersion =
     (let reissued = previous\<lparr>pn_mutationId := mutationId, pn_baseVersion := baseVersion,
                              pn_status := PENDING\<rparr> in
      guarded ''Re-issuing the mutation''
        (\<lambda>s. (Some reissued,
              s\<lparr>ls_pending := delete_where (\<lambda>r. pn_mutationId r = pn_mutationId previous)
                                (put_row pn_mutationId reissued (ls_pending s))\<rparr>))
        None)"

section \<open>Pruning and counting\<close>

definition referenced_orders :: "local_store \<Rightarrow> uuid set" where
  "referenced_orders s =
     set (List.map_filter sm_currentOrderId (ls_metadata s)) \<union> pn_orderId ` set (ls_pending s)"

definition pruneOrders :: "local_store \<Rightarrow> local_store" where
  "pruneOrders =
     write_through ''Pruning cached orders''
       (\<lambda>s. s\<lparr>ls_orders := delete_where (\<lambda>r. co_id r \<notin> referenced_orders s) (ls_orders s)\<rparr>)"

definition recordSyncOutcome :: "millis \<Rightarrow> string \<Rightarrow> bool \<Rightarrow> local_store \<Rightarrow> local_store" where
  "recordSyncOutcome now terminalId succeeded =
     write_through ''Recording a sync outcome''
       (\<lambda>s. let current = get_row sc_terminalId terminalId (ls_counters s) in
            s\<lparr>ls_counters := put_row sc_terminalId
               \<lparr>sc_terminalId = terminalId,
                sc_successes = (case current of None \<Rightarrow> 0 | Some c \<Rightarrow> sc_successes c) + (if succeeded then 1 else 0),
                sc_failures = (case current of None \<Rightarrow> 0 | Some c \<Rightarrow> sc_failures c) + (if succeeded then 0 else 1),
                sc_updatedAt = now\<rparr> (ls_counters s)\<rparr>)"

text \<open>The collation of \<open>localeCompare\<close> is the browser's, here an argument.\<close>

definition readSyncCounters :: "(string \<Rightarrow> 'k::linorder) \<Rightarrow> local_store \<Rightarrow> sync_counter list \<times> local_store" where
  "readSyncCounters collate =
     guarded ''Reading the sync counters''
       (\<lambda>s. (sort_key (\<lambda>c. collate (sc_terminalId c)) (ls_counters s), s)) []"


section \<open>What a guarded call can do\<close>

lemma guarded_cases:
  obtains (runs) faults where "guarded what run fallback s = run (s\<lparr>ls_faults := faults\<rparr>)"
  | (fails) faults detail where
      "guarded what run fallback s = (fallback, s\<lparr>ls_faults := faults, ls_error := Some detail\<rparr>)"
proof (cases "ls_faults s")
  case Nil
  have g: "guarded what run fallback s = run s" by (simp add: guarded_def Nil)
  have e: "s\<lparr>ls_faults := []\<rparr> = s" using Nil by (cases s) simp
  show thesis by (rule runs [of "[]"], unfold e, rule g)
next
  case (Cons f faults)
  show thesis
  proof (cases f)
    case None
    with Cons have "guarded what run fallback s = run (s\<lparr>ls_faults := faults\<rparr>)"
      by (simp add: guarded_def)
    then show thesis by (rule runs)
  next
    case (Some detail)
    with Cons have "guarded what run fallback s
      = (fallback, s\<lparr>ls_faults := faults, ls_error := Some (what @ '' failed: '' @ detail)\<rparr>)"
      by (simp add: guarded_def)
    then show thesis by (rule fails)
  qed
qed

lemma guarded_healthy [simp]: "ls_faults s = [] \<Longrightarrow> guarded what run fallback s = run s"
  by (simp add: guarded_def)

text \<open>
  A field that neither the bookkeeping of faults nor the operation touches is kept; one that the
  operation rewrites is rewritten or kept.
\<close>

lemma guarded_keeps:
  assumes "\<And>s' fs. fld (snd (run (s\<lparr>ls_faults := fs\<rparr>))) = fld s"
    and "\<And>fs e. fld (s\<lparr>ls_faults := fs, ls_error := e\<rparr>) = fld s"
  shows "fld (snd (guarded what run fallback s)) = fld s"
  by (cases rule: guarded_cases [of what run fallback s]) (simp_all add: assms)

lemma guarded_rewrites:
  assumes "\<And>fs. fld (snd (run (s\<lparr>ls_faults := fs\<rparr>))) = v"
    and "\<And>fs e. fld (s\<lparr>ls_faults := fs, ls_error := e\<rparr>) = fld s"
  shows "fld (snd (guarded what run fallback s)) = v \<or> fld (snd (guarded what run fallback s)) = fld s"
  by (cases rule: guarded_cases [of what run fallback s]) (simp_all add: assms)

lemmas writer_defs = saveOrder_def cacheOrder_def clearCurrentOrder_def setCurrentOrder_def
  savePending_def setPendingStatus_def deletePending_def normalizeSyncing_def haltQueue_def
  discardOrderQueue_def reissue_def pruneOrders_def recordSyncOutcome_def
lemmas reader_defs = readOrder_def readTerminalState_def readQueue_def
  readPendingForTerminalInRestaurant_def readSyncCounters_def

text \<open>Which table an operation may touch.\<close>

lemma pending_frame [simp]:
  "ls_pending (saveOrder now t snap s) = ls_pending s"
  "ls_pending (cacheOrder now t snap s) = ls_pending s"
  "ls_pending (clearCurrentOrder now t s) = ls_pending s"
  "ls_pending (setCurrentOrder now t i s) = ls_pending s"
  "ls_pending (pruneOrders s) = ls_pending s"
  "ls_pending (recordSyncOutcome now t b s) = ls_pending s"
  unfolding writer_defs
  by (rule guarded_keeps; simp add: putSnapshotIfNewer_def put_pointer_def Let_def)+

lemma pending_reads [simp]:
  "ls_pending (snd (readOrder i s)) = ls_pending s"
  "ls_pending (snd (readTerminalState t s)) = ls_pending s"
  "ls_pending (snd (readQueue t s)) = ls_pending s"
  "ls_pending (snd (readPendingForTerminalInRestaurant t r s)) = ls_pending s"
  unfolding reader_defs by (rule guarded_keeps; simp add: Let_def)+

lemma orders_frame [simp]:
  "ls_orders (clearCurrentOrder now t s) = ls_orders s"
  "ls_orders (setCurrentOrder now t i s) = ls_orders s"
  "ls_orders (snd (savePending now row s)) = ls_orders s"
  "ls_orders (setPendingStatus m st s) = ls_orders s"
  "ls_orders (deletePending m s) = ls_orders s"
  "ls_orders (normalizeSyncing t s) = ls_orders s"
  "ls_orders (haltQueue row s) = ls_orders s"
  "ls_orders (discardOrderQueue t i s) = ls_orders s"
  "ls_orders (snd (reissue row m v s)) = ls_orders s"
  "ls_orders (recordSyncOutcome now t b s) = ls_orders s"
  unfolding writer_defs Let_def by (rule guarded_keeps; simp add: put_pointer_def Let_def)+

lemma orders_reads [simp]:
  "ls_orders (snd (readOrder i s)) = ls_orders s"
  "ls_orders (snd (readTerminalState t s)) = ls_orders s"
  "ls_orders (snd (readQueue t s)) = ls_orders s"
  "ls_orders (snd (readPendingForTerminalInRestaurant t r s)) = ls_orders s"
  unfolding reader_defs by (rule guarded_keeps; simp add: Let_def)+

text \<open>What an operation on the queue leaves there: its effect, or the queue as it was.\<close>

lemma setPendingStatus_pending:
  "ls_pending (setPendingStatus m st s) =
     update_where (\<lambda>r. pn_mutationId r = m) (\<lambda>r. r\<lparr>pn_status := st\<rparr>) (ls_pending s)
   \<or> ls_pending (setPendingStatus m st s) = ls_pending s"
  unfolding setPendingStatus_def by (rule guarded_rewrites) simp_all

lemma deletePending_pending:
  "ls_pending (deletePending m s) = delete_where (\<lambda>r. pn_mutationId r = m) (ls_pending s)
   \<or> ls_pending (deletePending m s) = ls_pending s"
  unfolding deletePending_def by (rule guarded_rewrites) simp_all

lemma normalizeSyncing_pending:
  "ls_pending (normalizeSyncing t s) =
     update_where (\<lambda>r. pn_terminalId r = t \<and> pn_status r = SYNCING) (\<lambda>r. r\<lparr>pn_status := PENDING\<rparr>) (ls_pending s)
   \<or> ls_pending (normalizeSyncing t s) = ls_pending s"
  unfolding normalizeSyncing_def by (rule guarded_rewrites) simp_all

lemma haltQueue_pending:
  "ls_pending (haltQueue row s) = halted_rows row (ls_pending s) \<or> ls_pending (haltQueue row s) = ls_pending s"
  unfolding haltQueue_def by (rule guarded_rewrites) simp_all

lemma discardOrderQueue_pending:
  "ls_pending (discardOrderQueue t i s) =
     delete_where (\<lambda>r. pn_orderId r = i \<and> pn_terminalId r = t) (ls_pending s)
   \<or> ls_pending (discardOrderQueue t i s) = ls_pending s"
  unfolding discardOrderQueue_def by (rule guarded_rewrites) simp_all

lemma guarded_answer:
  assumes "\<And>fs. fst (run (s\<lparr>ls_faults := fs\<rparr>)) = x \<and> ls_pending (snd (run (s\<lparr>ls_faults := fs\<rparr>))) = v"
  shows "(fst (guarded what run fallback s) = x \<and> ls_pending (snd (guarded what run fallback s)) = v)
    \<or> (fst (guarded what run fallback s) = fallback
         \<and> ls_pending (snd (guarded what run fallback s)) = ls_pending s)"
  by (cases rule: guarded_cases [of what run fallback s]) (simp_all add: assms)

lemma savePending_cases:
  "(fst (savePending now row s) = True
     \<and> ls_pending (snd (savePending now row s)) =
         put_row pn_mutationId (stored_pending now row (ls_pending s)) (ls_pending s))
   \<or> (fst (savePending now row s) = False \<and> ls_pending (snd (savePending now row s)) = ls_pending s)"
  unfolding savePending_def by (rule guarded_answer) simp

definition reissued :: "pending_row \<Rightarrow> uuid \<Rightarrow> int \<Rightarrow> pending_row" where
  "reissued row mutationId baseVersion =
     row\<lparr>pn_mutationId := mutationId, pn_baseVersion := baseVersion, pn_status := PENDING\<rparr>"

lemma reissue_cases:
  "(fst (reissue row m v s) = Some (reissued row m v)
     \<and> ls_pending (snd (reissue row m v s)) =
         delete_where (\<lambda>r. pn_mutationId r = pn_mutationId row)
           (put_row pn_mutationId (reissued row m v) (ls_pending s)))
   \<or> (fst (reissue row m v s) = None \<and> ls_pending (snd (reissue row m v s)) = ls_pending s)"
  unfolding reissue_def Let_def reissued_def by (rule guarded_answer) simp

end
