(* ===== verification/Local_Store_Properties.thy ===== *)
theory Local_Store_Properties
  imports Local_Store "HOL-Library.Multiset"
begin

text \<open>
  The invariant of the browser database and what its functions promise: the queue is read in the
  order intents were formed, a cached snapshot never moves backwards, an order created offline
  survives a reload. \<open>perform\<close> enumerates the functions that write, so that the invariant is stated
  for every sequence of calls.
\<close>

section \<open>The invariant of the database\<close>

definition queue_ok :: "pending_row list \<Rightarrow> bool" where
  "queue_ok rows \<longleftrightarrow> keyed pn_mutationId rows \<and> distinct (map pn_createdAt rows)"

definition cache_ok :: "cached_order list \<Rightarrow> bool" where
  "cache_ok rows \<longleftrightarrow> keyed co_id rows \<and> (\<forall>r \<in> set rows. co_id r = snap_id (co_snapshot r))"

definition local_ok :: "local_store \<Rightarrow> bool" where
  "local_ok s \<longleftrightarrow> queue_ok (ls_pending s) \<and> cache_ok (ls_orders s)"

lemma keyed_eqI:
  assumes "keyed key xs" and "keyed key ys" and "set xs = set ys"
  shows "xs = ys"
  using assms map_sorted_distinct_set_unique [of key xs ys] by (auto simp: keyed_def distinct_map)

lemma put_row_existing:
  assumes "keyed key rows" and "key row \<in> key ` set rows"
  shows "put_row key row rows = update_where (\<lambda>r. key r = key row) (\<lambda>_. row) rows"
proof (rule keyed_eqI)
  show "keyed key (put_row key row rows)" by (rule keyed_put_row [OF assms(1)])
  have "map key (update_where (\<lambda>r. key r = key row) (\<lambda>_. row) rows) = map key rows"
    by (simp add: map_update_where)
  with assms(1) show "keyed key (update_where (\<lambda>r. key r = key row) (\<lambda>_. row) rows)"
    by (simp add: keyed_def)
  show "set (put_row key row rows) = set (update_where (\<lambda>r. key r = key row) (\<lambda>_. row) rows)"
    using assms(2) by (auto simp: update_where_def)
qed

lemma mset_put_row: "mset (put_row key row rows) = add_mset row (mset (delete_where (\<lambda>r. key r = key row) rows))"
  by (simp add: put_row_def)

lemma put_row_new:
  assumes "key row \<notin> key ` set rows"
  shows "put_row key row rows = insort_key key row rows"
proof -
  have "delete_where (\<lambda>r. key r = key row) rows = rows"
    by (rule delete_where_none) (use assms in \<open>metis imageI\<close>)
  then show ?thesis by (simp add: put_row_def)
qed

text \<open>The stamp of a new row is later than every stamp on disk.\<close>

lemma newest_pending_max:
  assumes "r \<in> set rows"
  shows "\<exists>n. newest_pending rows = Some n \<and> pn_createdAt r \<le> pn_createdAt n"
proof -
  let ?xs = "sort_key pn_createdAt rows"
  have ne: "?xs \<noteq> []" using assms by (metis empty_iff empty_set set_sort)
  have "r \<in> set ?xs" using assms by simp
  then obtain i where i: "i < length ?xs" "?xs ! i = r" by (metis in_set_conv_nth)
  have "map pn_createdAt ?xs ! i \<le> map pn_createdAt ?xs ! (length ?xs - 1)"
    using i(1) by (intro sorted_nth_mono) auto
  then have "pn_createdAt r \<le> pn_createdAt (last ?xs)"
    using i ne by (simp add: last_conv_nth)
  moreover have "rows \<noteq> []" using assms by auto
  ultimately show ?thesis by (simp add: newest_pending_def)
qed

lemma queueStamp_later: "r \<in> set rows \<Longrightarrow> pn_createdAt r < queueStamp now rows"
  using newest_pending_max [of r rows] by (auto simp: queueStamp_def)

lemma queueStamp_now: "now \<le> queueStamp now rows"
  by (simp add: queueStamp_def)

text \<open>Changes of a row that keep its key and its stamp keep the invariant and the order of the queue.\<close>

lemma queue_ok_update:
  assumes "queue_ok rows" and "\<And>r. pn_mutationId (f r) = pn_mutationId r" and "\<And>r. pn_createdAt (f r) = pn_createdAt r"
  shows "queue_ok (update_where P f rows)"
  using assms by (simp add: queue_ok_def keyed_update_where map_update_where)

lemma queue_ok_delete: "queue_ok rows \<Longrightarrow> queue_ok (delete_where P rows)"
  by (simp add: queue_ok_def keyed_delete_where distinct_map_delete_where)

lemma terminal_queue_update:
  assumes "\<And>r. pn_terminalId (f r) = pn_terminalId r" and "\<And>r. pn_createdAt (f r) = pn_createdAt r"
  shows "terminal_queue t (update_where P f rows) = update_where P f (terminal_queue t rows)"
proof -
  have "sort_key pn_createdAt (update_where P f xs) = update_where P f (sort_key pn_createdAt xs)" for xs
    unfolding update_where_def by (rule sort_key_map_same) (simp add: assms(2))
  then show ?thesis
    by (simp add: terminal_queue_def filter_update_where assms(1))
qed

lemma terminal_queue_delete:
  "terminal_queue t (delete_where P rows) = delete_where P (terminal_queue t rows)"
proof -
  have "filter (\<lambda>r. pn_terminalId r = t) (filter (\<lambda>r. \<not> P r) rows)
      = filter (\<lambda>r. \<not> P r) (filter (\<lambda>r. pn_terminalId r = t) rows)"
    by (simp add: conj_commute)
  then show ?thesis
    by (simp only: terminal_queue_def delete_where_def filter_sort)
qed

lemma set_terminal_queue [simp]: "set (terminal_queue t rows) = {r \<in> set rows. pn_terminalId r = t}"
  by (auto simp: terminal_queue_def)

lemma sorted_terminal_queue: "sorted (map pn_createdAt (terminal_queue t rows))"
  by (simp add: terminal_queue_def)

lemma terminal_queue_stored_new:
  assumes ok: "queue_ok rows" and new: "pn_mutationId row \<notin> pn_mutationId ` set rows"
    and late: "\<forall>r \<in> set rows. pn_createdAt r < pn_createdAt row"
  shows "terminal_queue t (put_row pn_mutationId row rows) =
    terminal_queue t rows @ (if pn_terminalId row = t then [row] else [])"
proof -
  let ?q = "\<lambda>rows. filter (\<lambda>r. pn_terminalId r = t) rows"
  let ?rows = "insort_key pn_mutationId row rows"
  have inj: "inj_on pn_createdAt (insert row (set rows))"
    using ok late by (auto simp: queue_ok_def distinct_map)
  have "sort_key pn_createdAt (?q ?rows) = sort_key pn_createdAt (?q rows) @ ?q [row]"
  proof (rule sort_key_inj_key_eq)
    show "mset (?q ?rows) = mset (sort_key pn_createdAt (?q rows) @ ?q [row])" by (simp add: mset_filter)
    show "inj_on pn_createdAt (set (?q ?rows))" by (rule inj_on_subset [OF inj]) (auto simp: set_insort_key)
    show "sorted (map pn_createdAt (sort_key pn_createdAt (?q rows) @ ?q [row]))"
      using late by (auto simp: sorted_append intro: less_imp_le)
  qed
  then show ?thesis by (simp add: terminal_queue_def put_row_new [OF new])
qed

section \<open>The repository as a machine\<close>

text \<open>One constructor per function of the repository that writes; the reads change no table.\<close>

datatype store_op =
    SaveOrder millis string order_snapshot
  | CacheOrder millis string order_snapshot
  | ClearCurrentOrder millis string
  | SetCurrentOrder millis string uuid
  | SavePending millis pending_row
  | SetPendingStatus uuid pending_status
  | DeletePending uuid
  | NormalizeSyncing string
  | HaltQueue pending_row
  | DiscardOrderQueue string uuid
  | Reissue pending_row uuid int
  | PruneOrders
  | RecordSyncOutcome millis string bool

fun perform :: "store_op \<Rightarrow> local_store \<Rightarrow> local_store" where
  "perform (SaveOrder now t snap) s = saveOrder now t snap s"
| "perform (CacheOrder now t snap) s = cacheOrder now t snap s"
| "perform (ClearCurrentOrder now t) s = clearCurrentOrder now t s"
| "perform (SetCurrentOrder now t i) s = setCurrentOrder now t i s"
| "perform (SavePending now row) s = snd (savePending now row s)"
| "perform (SetPendingStatus m st) s = setPendingStatus m st s"
| "perform (DeletePending m) s = deletePending m s"
| "perform (NormalizeSyncing t) s = normalizeSyncing t s"
| "perform (HaltQueue row) s = haltQueue row s"
| "perform (DiscardOrderQueue t i) s = discardOrderQueue t i s"
| "perform (Reissue row m v) s = snd (reissue row m v s)"
| "perform PruneOrders s = pruneOrders s"
| "perform (RecordSyncOutcome now t b) s = recordSyncOutcome now t b s"

text \<open>A rebase re-issues a row of the queue under an id that no row has.\<close>

fun op_admissible :: "store_op \<Rightarrow> local_store \<Rightarrow> bool" where
  "op_admissible (Reissue row m v) s \<longleftrightarrow>
     m \<notin> pn_mutationId ` set (ls_pending s)
     \<and> (\<exists>r \<in> set (ls_pending s). pn_mutationId r = pn_mutationId row \<and> pn_createdAt r = pn_createdAt row)"
| "op_admissible _ s \<longleftrightarrow> True"

fun run_ops :: "store_op list \<Rightarrow> local_store \<Rightarrow> local_store option" where
  "run_ops [] s = Some s"
| "run_ops (op # ops) s = (if op_admissible op s then run_ops ops (perform op s) else None)"

lemma queue_ok_put_new:
  assumes "queue_ok rows" and "pn_mutationId row \<notin> pn_mutationId ` set rows"
    and "pn_createdAt row \<notin> pn_createdAt ` set rows"
  shows "queue_ok (put_row pn_mutationId row rows)"
  using assms keyed_put_row [of pn_mutationId rows row]
  by (simp add: queue_ok_def put_row_new distinct_map_insort)

lemma queue_ok_savePending:
  assumes ok: "queue_ok rows"
  shows "queue_ok (put_row pn_mutationId (stored_pending now row rows) rows)"
proof (cases "get_row pn_mutationId (pn_mutationId row) rows")
  case None
  have late: "queueStamp now rows \<notin> pn_createdAt ` set rows"
    using queueStamp_later [of _ rows now] by (metis imageE less_irrefl)
  have st: "stored_pending now row rows = row\<lparr>pn_createdAt := queueStamp now rows\<rparr>"
    using None by (simp add: stored_pending_def)
  from None have "pn_mutationId row \<notin> pn_mutationId ` set rows" by (simp add: get_row_None)
  with late show ?thesis unfolding st by (intro queue_ok_put_new ok) simp_all
next
  case (Some old)
  then have old: "old \<in> set rows" "pn_mutationId old = pn_mutationId row" by (auto dest: get_row_Some)
  let ?new = "stored_pending now row rows"
  have new: "pn_mutationId ?new = pn_mutationId old" "pn_createdAt ?new = pn_createdAt old"
    using Some old by (simp_all add: stored_pending_def)
  have k: "keyed pn_mutationId rows" using ok by (simp add: queue_ok_def)
  have only: "r = old" if "r \<in> set rows" "pn_mutationId r = pn_mutationId old" for r
    using that old(1) k by (auto simp: keyed_def dest: distinct_map_eqD)
  have "put_row pn_mutationId ?new rows = update_where (\<lambda>r. pn_mutationId r = pn_mutationId ?new) (\<lambda>_. ?new) rows"
    using k old(1) new(1) by (intro put_row_existing) auto
  moreover have "map pn_createdAt (update_where (\<lambda>r. pn_mutationId r = pn_mutationId ?new) (\<lambda>_. ?new) rows)
      = map pn_createdAt rows"
    using only new by (intro map_update_where) auto
  ultimately show ?thesis
    using ok keyed_put_row [OF k, of ?new] by (simp add: queue_ok_def)
qed

lemma queue_ok_halted: "queue_ok rows \<Longrightarrow> queue_ok (halted_rows row rows)"
  by (simp add: halted_rows_def queue_ok_update)

lemma queue_ok_reissue:
  assumes ok: "queue_ok rows" and new: "m \<notin> pn_mutationId ` set rows"
    and old: "r \<in> set rows" "pn_mutationId r = pn_mutationId row" "pn_createdAt r = pn_createdAt row"
  shows "queue_ok (delete_where (\<lambda>x. pn_mutationId x = pn_mutationId row) (put_row pn_mutationId (reissued row m v) rows))"
proof -
  let ?n = "reissued row m v" and ?P = "\<lambda>x. pn_mutationId x = pn_mutationId row"
  have id: "pn_mutationId ?n = m" "pn_createdAt ?n = pn_createdAt r" using old(3) by (simp_all add: reissued_def)
  have ne: "m \<noteq> pn_mutationId row" using new old by (metis imageI)
  have swap: "delete_where ?P (put_row pn_mutationId ?n rows) = put_row pn_mutationId ?n (delete_where ?P rows)"
  proof (rule keyed_eqI)
    show "keyed pn_mutationId (delete_where ?P (put_row pn_mutationId ?n rows))"
      and "keyed pn_mutationId (put_row pn_mutationId ?n (delete_where ?P rows))"
      using ok by (simp_all add: queue_ok_def keyed_put_row keyed_delete_where)
  qed (use ne id in auto)
  have "pn_createdAt x \<noteq> pn_createdAt r" if "x \<in> set (delete_where ?P rows)" for x
  proof
    assume "pn_createdAt x = pn_createdAt r"
    with that old(1) ok have "x = r" by (auto simp: queue_ok_def dest: distinct_map_eqD)
    with that old(2) show False by simp
  qed
  then have "pn_createdAt r \<notin> pn_createdAt ` set (delete_where ?P rows)" by (metis imageE)
  with ok new id show ?thesis
    unfolding swap by (intro queue_ok_put_new queue_ok_delete) auto
qed

lemma perform_queue_ok:
  assumes ok: "queue_ok (ls_pending s)" and adm: "op_admissible op s"
  shows "queue_ok (ls_pending (perform op s))"
proof (cases op)
  case (SavePending now row)
  then show ?thesis using ok savePending_cases [of now row s] queue_ok_savePending [OF ok, of now row] by auto
next
  case (Reissue row m v)
  with adm obtain r where r: "m \<notin> pn_mutationId ` set (ls_pending s)" "r \<in> set (ls_pending s)"
    "pn_mutationId r = pn_mutationId row" "pn_createdAt r = pn_createdAt row" by auto
  from queue_ok_reissue [OF ok r] Reissue show ?thesis
    using ok reissue_cases [of row m v s] by auto
next
  case (SetPendingStatus m st)
  then show ?thesis using ok setPendingStatus_pending [of m st s]
    by (elim disjE) (simp_all add: queue_ok_update)
next
  case (DeletePending m)
  then show ?thesis using ok deletePending_pending [of m s] by (elim disjE) (simp_all add: queue_ok_delete)
next
  case (NormalizeSyncing t)
  then show ?thesis using ok normalizeSyncing_pending [of t s] by (elim disjE) (simp_all add: queue_ok_update)
next
  case (HaltQueue row)
  then show ?thesis using ok haltQueue_pending [of row s] by (elim disjE) (simp_all add: queue_ok_halted)
next
  case (DiscardOrderQueue t i)
  then show ?thesis using ok discardOrderQueue_pending [of t i s] by (elim disjE) (simp_all add: queue_ok_delete)
qed (simp_all add: ok)


text \<open>What a cache write leaves in the table of orders.\<close>

definition cached_rows :: "string \<Rightarrow> order_snapshot \<Rightarrow> millis \<Rightarrow> cached_order list \<Rightarrow> cached_order list" where
  "cached_rows terminalId snapshot updatedAt rows =
     (if acceptsSnapshot (map_option co_snapshot (get_row co_id (snap_id snapshot) rows)) snapshot
      then put_row co_id \<lparr>co_id = snap_id snapshot, co_terminalId = terminalId, co_snapshot = snapshot,
                          co_updatedAt = updatedAt\<rparr> rows
      else rows)"

lemma putSnapshotIfNewer_orders:
  "ls_orders (putSnapshotIfNewer t snap now s) = cached_rows t snap now (ls_orders s)"
  by (simp add: putSnapshotIfNewer_def cached_rows_def)

lemma cache_writes:
  "ls_orders (saveOrder now t snap s) = cached_rows t snap now (ls_orders s)
   \<or> ls_orders (saveOrder now t snap s) = ls_orders s"
  "ls_orders (cacheOrder now t snap s) = cached_rows t snap now (ls_orders s)
   \<or> ls_orders (cacheOrder now t snap s) = ls_orders s"
  unfolding saveOrder_def cacheOrder_def
  by (rule guarded_rewrites; simp add: putSnapshotIfNewer_orders put_pointer_def)+

lemma pruneOrders_orders:
  "ls_orders (pruneOrders s) = delete_where (\<lambda>r. co_id r \<notin> referenced_orders s) (ls_orders s)
   \<or> ls_orders (pruneOrders s) = ls_orders s"
  unfolding pruneOrders_def by (rule guarded_rewrites) (simp_all add: referenced_orders_def)

lemma cache_ok_cached_rows: "cache_ok rows \<Longrightarrow> cache_ok (cached_rows t snap now rows)"
  by (auto simp: cache_ok_def cached_rows_def keyed_put_row)

lemma cached_rows_forward:
  assumes "cache_ok rows" and "c \<in> set rows"
  shows "\<exists>c' \<in> set (cached_rows t snap now rows).
           co_id c' = co_id c \<and> snap_version (co_snapshot c) \<le> snap_version (co_snapshot c')"
proof (cases "co_id c = snap_id snap")
  case False
  then have "c \<in> set (cached_rows t snap now rows)" using assms(2) by (simp add: cached_rows_def)
  then show ?thesis by auto
next
  case True
  then have "get_row co_id (snap_id snap) rows = Some c"
    using assms by (simp add: cache_ok_def get_row_iff)
  moreover have "snap_id (co_snapshot c) = snap_id snap" using True assms by (auto simp: cache_ok_def)
  ultimately show ?thesis
    using assms(2) True by (auto simp: cached_rows_def acceptsSnapshot_def)
qed

lemma perform_cache:
  assumes ok: "cache_ok (ls_orders s)" and c: "c \<in> set (ls_orders s)" and np: "op \<noteq> PruneOrders"
  shows "\<exists>c' \<in> set (ls_orders (perform op s)).
           co_id c' = co_id c \<and> snap_version (co_snapshot c) \<le> snap_version (co_snapshot c')"
proof (cases op)
  case (SaveOrder now t snap)
  then show ?thesis
    using cache_writes(1) [of now t snap s] cached_rows_forward [OF ok c, of t snap now] c by auto
next
  case (CacheOrder now t snap)
  then show ?thesis
    using cache_writes(2) [of now t snap s] cached_rows_forward [OF ok c, of t snap now] c by auto
qed (use c np in \<open>auto intro: bexI [of _ c]\<close>)

lemma perform_cache_ok:
  assumes ok: "cache_ok (ls_orders s)"
  shows "cache_ok (ls_orders (perform op s))"
proof (cases op)
  case (SaveOrder now t snap)
  then show ?thesis using cache_writes(1) [of now t snap s] cache_ok_cached_rows [OF ok] ok by auto
next
  case (CacheOrder now t snap)
  then show ?thesis using cache_writes(2) [of now t snap s] cache_ok_cached_rows [OF ok] ok by auto
next
  case PruneOrders
  then show ?thesis using pruneOrders_orders [of s] ok by (auto simp: cache_ok_def keyed_delete_where)
qed (simp_all add: ok)

lemma perform_local_ok: "local_ok s \<Longrightarrow> op_admissible op s \<Longrightarrow> local_ok (perform op s)"
  by (simp add: local_ok_def perform_queue_ok perform_cache_ok)

section \<open>Properties\<close>

text \<open>
  C17. The browser database stays well-formed under every sequence of repository calls and every
  pattern of storage failures: one row per mutation id, pairwise different queue stamps, one cached
  snapshot per order, filed under its own id. And the cache never moves backwards: unless a prune
  ran, every order that was cached still is, at the same or a later version, in whatever order the
  answers arrived.
\<close>

theorem local_store_invariant:
  assumes "local_ok s" and "run_ops ops s = Some s'"
  shows "local_ok s' \<and>
    (PruneOrders \<notin> set ops \<longrightarrow>
      (\<forall>c \<in> set (ls_orders s). \<exists>c' \<in> set (ls_orders s').
         co_id c' = co_id c \<and> snap_version (co_snapshot c) \<le> snap_version (co_snapshot c')))"
  using assms
proof (induction ops arbitrary: s)
  case Nil
  then show ?case by auto
next
  case (Cons op ops)
  then have adm: "op_admissible op s" and run: "run_ops ops (perform op s) = Some s'"
    by (auto split: if_splits)
  have ok: "local_ok (perform op s)" using Cons.prems(1) adm by (rule perform_local_ok)
  note later = Cons.IH [OF ok run]
  have "\<exists>c' \<in> set (ls_orders s'). co_id c' = co_id c \<and> snap_version (co_snapshot c) \<le> snap_version (co_snapshot c')"
    if c: "c \<in> set (ls_orders s)" and np: "PruneOrders \<notin> set (op # ops)" for c
  proof -
    obtain d where d: "d \<in> set (ls_orders (perform op s))" "co_id d = co_id c"
      "snap_version (co_snapshot c) \<le> snap_version (co_snapshot d)"
      using perform_cache [of s c op] Cons.prems(1) c np by (auto simp: local_ok_def)
    obtain c' where "c' \<in> set (ls_orders s')" "co_id c' = co_id d"
      "snap_version (co_snapshot d) \<le> snap_version (co_snapshot c')" using later np d(1) by auto
    with d show ?thesis by (intro bexI [of _ c']) auto
  qed
  with later show ?case by blast
qed

definition empty_store :: local_store where
  "empty_store = \<lparr>ls_orders = [], ls_pending = [], ls_metadata = [], ls_counters = [], ls_error = None, ls_faults = []\<rparr>"

definition sample_order :: "int \<Rightarrow> order_snapshot" where
  "sample_order v = \<lparr>snap_id = ''o1'', snap_restaurantId = ''r1'', snap_tableNumber = ''7'',
     snap_status = OPEN, snap_version = v, snap_totalCents = 0, snap_items = [], snap_createdAt = 0,
     snap_updatedAt = 0\<rparr>"

definition sample_row :: "uuid \<Rightarrow> mutation_command \<Rightarrow> int \<Rightarrow> pending_row" where
  "sample_row m c v = \<lparr>pn_mutationId = m, pn_restaurantId = ''r1'', pn_terminalId = ''pos-1'',
     pn_orderId = ''o1'', pn_baseVersion = v, pn_command = c, pn_createdAt = 0, pn_status = PENDING\<rparr>"

lemma sample_row_simps [simp]:
  "pn_mutationId (sample_row m c v) = m" "pn_terminalId (sample_row m c v) = ''pos-1''"
  "pn_orderId (sample_row m c v) = ''o1''" "pn_status (sample_row m c v) = PENDING"
  "pn_baseVersion (sample_row m c v) = v" "pn_command (sample_row m c v) = c"
  "pn_restaurantId (sample_row m c v) = ''r1''"
  by (simp_all add: sample_row_def)

lemma empty_store_simps [simp]:
  "ls_orders empty_store = []" "ls_pending empty_store = []" "ls_faults empty_store = []"
  by (simp_all add: empty_store_def)

lemma local_ok_empty [simp]: "local_ok empty_store"
  by (simp add: local_ok_def queue_ok_def cache_ok_def empty_store_def)

lemmas store_eval = empty_store_def sample_order_def sample_row_def guarded_def put_row_def get_row_def
  put_pointer_def putSnapshotIfNewer_def acceptsSnapshot_def

theorem local_store_invariant_witness:
  "local_ok (perform (CacheOrder 9 ''pos-1'' (sample_order 4)) (perform (SaveOrder 8 ''pos-1'' (sample_order 5)) empty_store))"
proof -
  let ?ops = "[SaveOrder 8 ''pos-1'' (sample_order 5), CacheOrder 9 ''pos-1'' (sample_order 4)]"
  have "run_ops ?ops empty_store = Some (perform (?ops ! 1) (perform (?ops ! 0) empty_store))" by simp
  from local_store_invariant [OF local_ok_empty this] show ?thesis by simp
qed


lemma terminal_queue_retry:
  assumes ok: "queue_ok rows" and old: "old \<in> set rows" "pn_mutationId old = pn_mutationId row"
    "pn_terminalId old = pn_terminalId row"
  shows "map pn_mutationId (terminal_queue t (put_row pn_mutationId (stored_pending now row rows) rows))
    = map pn_mutationId (terminal_queue t rows)"
proof -
  let ?new = "stored_pending now row rows"
  let ?P = "\<lambda>r. pn_mutationId r = pn_mutationId row"
  let ?f = "\<lambda>r. row\<lparr>pn_createdAt := pn_createdAt r, pn_terminalId := pn_terminalId r,
                    pn_mutationId := pn_mutationId r\<rparr>"
  have k: "keyed pn_mutationId rows" using ok by (simp add: queue_ok_def)
  then have "get_row pn_mutationId (pn_mutationId row) rows = Some old" using old by (simp add: get_row_iff)
  then have new: "?new = ?f old" using old by (simp add: stored_pending_def)
  have only: "r = old" if "r \<in> set rows" "?P r" for r
    using that old k by (auto simp: keyed_def dest: distinct_map_eqD)
  have "put_row pn_mutationId ?new rows = update_where ?P (\<lambda>_. ?new) rows"
    using put_row_existing [OF k, of ?new] imageI [OF old(1), of pn_mutationId] old(2) by (simp add: new)
  also have "\<dots> = update_where ?P ?f rows"
    unfolding update_where_def by (rule map_cong) (auto simp: new dest: only)
  finally have "terminal_queue t (put_row pn_mutationId ?new rows) = update_where ?P ?f (terminal_queue t rows)"
    by (simp add: terminal_queue_update)
  then show ?thesis by (simp add: map_update_where)
qed

text \<open>
  C18. The queue replays intents in the order the operator formed them, whatever the clock does: a new
  mutation goes to the end of its own terminal's queue, stamped strictly later than every row on disk
  even within one millisecond or after the clock was set back; a retry of a stored mutation keeps its
  place; and a write that fails is reported and leaves every queue as it was.
\<close>

theorem queue_keeps_formation_order:
  assumes ok: "local_ok s"
    and retry: "\<forall>r \<in> set (ls_pending s). pn_mutationId r = pn_mutationId row \<longrightarrow> pn_terminalId r = pn_terminalId row"
    and saved: "savePending now row s = (stored, s')"
  shows "(\<forall>t. map pn_mutationId (terminal_queue t (ls_pending s')) =
           map pn_mutationId (terminal_queue t (ls_pending s)) @
             (if stored \<and> pn_mutationId row \<notin> pn_mutationId ` set (ls_pending s) \<and> t = pn_terminalId row
              then [pn_mutationId row] else []))
    \<and> (stored \<and> pn_mutationId row \<notin> pn_mutationId ` set (ls_pending s) \<longrightarrow>
         (\<exists>r \<in> set (ls_pending s'). pn_mutationId r = pn_mutationId row
            \<and> (\<forall>x \<in> set (ls_pending s). isLaterInQueue r x)))
    \<and> (\<not> stored \<longrightarrow> ls_pending s' = ls_pending s)"
proof -
  let ?rows = "ls_pending s"
  let ?new = "stored_pending now row ?rows"
  have q: "queue_ok ?rows" using ok by (simp add: local_ok_def)
  from savePending_cases [of now row s] saved
  consider (wrote) "stored" "ls_pending s' = put_row pn_mutationId ?new ?rows"
    | (failed) "\<not> stored" "ls_pending s' = ?rows" by auto
  then show ?thesis
  proof cases
    case failed
    then show ?thesis by simp
  next
    case wrote
    show ?thesis
    proof (cases "pn_mutationId row \<in> pn_mutationId ` set ?rows")
      case True
      then obtain old where old: "old \<in> set ?rows" "pn_mutationId old = pn_mutationId row" by force
      have "pn_terminalId old = pn_terminalId row" using retry old by blast
      from terminal_queue_retry [OF q old this] wrote True show ?thesis by simp
    next
      case False
      then have new: "pn_mutationId ?new = pn_mutationId row" "pn_terminalId ?new = pn_terminalId row"
        "pn_createdAt ?new = queueStamp now ?rows"
        by (simp_all add: stored_pending_def get_row_None [THEN iffD2])
      have late: "\<forall>x \<in> set ?rows. pn_createdAt x < pn_createdAt ?new"
        by (simp add: new queueStamp_later)
      have "terminal_queue t (ls_pending s') = terminal_queue t ?rows @ (if pn_terminalId row = t then [?new] else [])" for t
        using terminal_queue_stored_new [OF q _ late] False wrote(2) new by simp
      moreover have "\<exists>r \<in> set (ls_pending s'). pn_mutationId r = pn_mutationId row \<and> (\<forall>x \<in> set ?rows. isLaterInQueue r x)"
        using late wrote(2) new by (intro bexI [of _ ?new]) (auto simp: isLaterInQueue_def)
      ultimately show ?thesis using False wrote(1) new by auto
    qed
  qed
qed

theorem queue_keeps_formation_order_witness:
  "map pn_mutationId (terminal_queue ''pos-1''
     (ls_pending (snd (savePending 5 (sample_row ''b'' (AddItem ''cola'' 1) 1)
       (snd (savePending 5 (sample_row ''c'' (CreateOrder ''7'') 0) empty_store))))))
   = [''c'', ''b'']"
proof -
  let ?s = "snd (savePending 5 (sample_row ''c'' (CreateOrder ''7'') 0) empty_store)"
  let ?b = "sample_row ''b'' (AddItem ''cola'' 1) 1"
  have rows: "ls_pending ?s = [(sample_row ''c'' (CreateOrder ''7'') 0)\<lparr>pn_createdAt := 5\<rparr>]"
    by (simp add: savePending_def empty_store_def put_row_def get_row_def stored_pending_def queueStamp_def newest_pending_def)
  have ok: "local_ok ?s" using perform_local_ok [of empty_store "SavePending 5 (sample_row ''c'' (CreateOrder ''7'') 0)"] by simp
  have st: "savePending 5 ?b ?s = (True, snd (savePending 5 ?b ?s))"
    by (simp add: savePending_def store_eval)
  have "\<forall>r \<in> set (ls_pending ?s). pn_mutationId r = pn_mutationId ?b \<longrightarrow> pn_terminalId r = pn_terminalId ?b"
    by (simp add: rows)
  from queue_keeps_formation_order [OF ok this st] show ?thesis
    by (simp add: rows terminal_queue_def)
qed

text \<open>
  C19. An order created while the device is offline survives a reload: the pointer and the queued
  intents written before the tab went away are what the next hydration reads back, with every
  interrupted request put back to \<open>PENDING\<close>, even though no snapshot was ever cached for the order.
\<close>

theorem offline_order_survives_reload:
  assumes works: "ls_faults s = []" and ok: "local_ok s"
    and fresh: "pn_mutationId row \<notin> pn_mutationId ` set (ls_pending s)"
    and st: "pn_status row = PENDING \<or> pn_status row = SYNCING"
  shows "fst (readTerminalState (pn_terminalId row)
           (normalizeSyncing (pn_terminalId row)
             (snd (savePending now row (setCurrentOrder now (pn_terminalId row) (pn_orderId row) s)))))
    = \<lparr>ts_currentOrderId = Some (pn_orderId row),
       ts_order = map_option co_snapshot (get_row co_id (pn_orderId row) (ls_orders s)),
       ts_queue = map (\<lambda>r. if pn_status r = SYNCING then r\<lparr>pn_status := PENDING\<rparr> else r)
                    (terminal_queue (pn_terminalId row) (ls_pending s))
                  @ [row\<lparr>pn_createdAt := queueStamp now (ls_pending s), pn_status := PENDING\<rparr>]\<rparr>"
proof -
  let ?t = "pn_terminalId row" and ?rows = "ls_pending s"
  let ?new = "stored_pending now row ?rows"
  have new: "?new = row\<lparr>pn_createdAt := queueStamp now ?rows\<rparr>"
    using fresh by (simp add: stored_pending_def get_row_None [THEN iffD2])
  have "terminal_queue ?t (put_row pn_mutationId ?new ?rows) = terminal_queue ?t ?rows @ [?new]"
    using ok fresh by (subst terminal_queue_stored_new) (auto simp: local_ok_def new queueStamp_later)
  moreover have "update_where (\<lambda>r. pn_terminalId r = ?t \<and> pn_status r = SYNCING) (\<lambda>r. r\<lparr>pn_status := PENDING\<rparr>) (terminal_queue ?t ?rows)
    = map (\<lambda>r. if pn_status r = SYNCING then r\<lparr>pn_status := PENDING\<rparr> else r) (terminal_queue ?t ?rows)"
    unfolding update_where_def by (rule map_cong) auto
  ultimately show ?thesis
    using works st
    by (auto simp: readTerminalState_def normalizeSyncing_def savePending_def setCurrentOrder_def
        put_pointer_def Let_def terminal_queue_update new
        get_put_same [of sm_terminalId "\<lparr>sm_terminalId = _, sm_currentOrderId = _, sm_updatedAt = _\<rparr>", simplified])
qed


theorem offline_order_survives_reload_witness:
  "ts_currentOrderId (fst (readTerminalState ''pos-1'' (normalizeSyncing ''pos-1''
     (snd (savePending 5 (sample_row ''c'' (CreateOrder ''7'') 0)
       (setCurrentOrder 5 ''pos-1'' ''o1'' empty_store)))))) = Some ''o1''"
  using offline_order_survives_reload [of empty_store "sample_row ''c'' (CreateOrder ''7'') 0" 5]
  by simp

end
