(* ===== verification/Sync_Engine.thy ===== *)
theory Sync_Engine
  imports Local_Store_Properties
begin

text \<open>
  The sync engine of the browser, \<open>apps/web/src/sync/engine.ts\<close>: the send gate, the split of the queue
  per order, one attempt, one pass, the coalescing loop and the rebase.

  What the engine is given (\<open>SyncEngineDeps\<close>) is the record \<open>deps\<close> of functions on the state of the
  client: the local database, the pending request of the coalescing (\<open>requested\<close>) and whatever else the
  dependencies act on (\<open>'w\<close>: the screen, the network, the server). A request takes time, so \<open>post\<close> may
  change any of it, as the code that runs while the engine awaits the answer does.

  \<open>loop\<close> and \<open>rebase\<close> are endless loops in the source; here they take fuel and answer \<open>None\<close> when it
  runs out.
\<close>

section \<open>Requests and what may come back\<close>

definition requestOf :: "pending_row \<Rightarrow> mutation_request" where
  "requestOf row =
     \<lparr>mr_mutationId = pn_mutationId row, mr_terminalId = pn_terminalId row,
      mr_restaurantId = pn_restaurantId row, mr_baseVersion = pn_baseVersion row,
      mr_command = pn_command row\<rparr>"

text \<open>The answer of \<open>post\<close>, or what it throws; the last case is any other value thrown.\<close>

datatype post_result =
    Answered mutation_response
  | OfflineError string
  | ApiRequestError string string nat
  | OtherError "string option"

datatype halt_cause =
    ConflictCause conflict_reason int int
  | RefusedCause string

datatype pass_outcome = drained | halted | offline | failed

datatype attempt =
    AttemptApplied order_snapshot
  | AttemptHalted
  | AttemptOffline
  | AttemptFailed

definition PERMANENT_API_ERRORS :: "string list" where
  "PERMANENT_API_ERRORS =
     [''VALIDATION_FAILED'', ''PRODUCT_NOT_FOUND'', ''ROUTE_NOT_FOUND'', ''ORDER_NOT_FOUND'']"

definition isPermanentRefusal :: "post_result \<Rightarrow> bool" where
  "isPermanentRefusal error =
     (case error of ApiRequestError code _ _ \<Rightarrow> code \<in> set PERMANENT_API_ERRORS | _ \<Rightarrow> False)"

section \<open>The state and the dependencies\<close>

record 'w client =
  cl_store :: local_store
  cl_requested :: "string option"
  cl_now :: millis
  cl_world :: 'w

definition on_store :: "(local_store \<Rightarrow> local_store) \<Rightarrow> 'w client \<Rightarrow> 'w client" where
  "on_store f c = c\<lparr>cl_store := f (cl_store c)\<rparr>"

record 'w deps =
  post :: "uuid \<Rightarrow> mutation_request \<Rightarrow> 'w client \<Rightarrow> post_result \<times> 'w client"
  newMutationId :: "'w client \<Rightarrow> uuid \<times> 'w client"
  onCanonical :: "string \<Rightarrow> order_snapshot \<Rightarrow> 'w client \<Rightarrow> 'w client"
  onHalt :: "pending_row \<Rightarrow> halt_cause \<Rightarrow> 'w client \<Rightarrow> 'w client"
  onQueueChanged :: "'w client \<Rightarrow> 'w client"
  canonicalVersion :: "uuid \<Rightarrow> 'w client \<Rightarrow> int"
  onTransportError :: "string \<Rightarrow> 'w client \<Rightarrow> 'w client"

section \<open>The gate and the groups\<close>

definition isSendable :: "pending_row list \<Rightarrow> bool" where
  "isSendable grp \<longleftrightarrow> (\<forall>row \<in> set grp. pn_status row = PENDING \<or> pn_status row = SYNCING)"

text \<open>A JavaScript \<open>Map\<close> iterates its keys in the order they were first set.\<close>

fun add_to_group :: "pending_row \<Rightarrow> (uuid \<times> pending_row list) list \<Rightarrow> (uuid \<times> pending_row list) list" where
  "add_to_group row [] = [(pn_orderId row, [row])]"
| "add_to_group row ((i, grp) # groups) =
     (if i = pn_orderId row then (i, grp @ [row]) # groups
      else (i, grp) # add_to_group row groups)"

definition groupByOrder :: "pending_row list \<Rightarrow> (uuid \<times> pending_row list) list" where
  "groupByOrder rows = fold add_to_group rows []"

section \<open>One attempt\<close>

definition attempt :: "'w deps \<Rightarrow> pending_row \<Rightarrow> 'w client \<Rightarrow> attempt \<times> 'w client" where
  "attempt deps row c =
     (let c1 = on_store (setPendingStatus (pn_mutationId row) SYNCING) c;
          (result, c2) = post deps (pn_orderId row) (requestOf row) c1 in
      case result of
        OfflineError _ \<Rightarrow>
          (AttemptOffline, on_store (setPendingStatus (pn_mutationId row) PENDING) c2)
      | ApiRequestError code message _ \<Rightarrow>
          if isPermanentRefusal result
          then (AttemptHalted,
                onHalt deps row (RefusedCause (code @ '': '' @ message)) (on_store (haltQueue row) c2))
          else (AttemptFailed,
                onTransportError deps message (on_store (setPendingStatus (pn_mutationId row) PENDING) c2))
      | OtherError message \<Rightarrow>
          (AttemptFailed,
           onTransportError deps (case message of Some m \<Rightarrow> m | None \<Rightarrow> ''The mutation failed.'')
             (on_store (setPendingStatus (pn_mutationId row) PENDING) c2))
      | Answered response \<Rightarrow>
          (case response of
             APPLIED order _ \<Rightarrow>
               (AttemptApplied order,
                on_store (deletePending (pn_mutationId row)) (onCanonical deps (pn_terminalId row) order c2))
           | ALREADY_APPLIED order _ \<Rightarrow>
               (AttemptApplied order,
                on_store (deletePending (pn_mutationId row)) (onCanonical deps (pn_terminalId row) order c2))
           | CONFLICT_RESPONSE reason clientBaseVersion serverVersion canonicalOrder \<Rightarrow>
               (AttemptHalted,
                onHalt deps row (ConflictCause reason clientBaseVersion serverVersion)
                  (on_store (haltQueue row) (onCanonical deps (pn_terminalId row) canonicalOrder c2)))
           | MUTATION_ID_REUSED \<Rightarrow>
               (AttemptHalted, onHalt deps row (RefusedCause ''PAYLOAD_MISMATCH'') (on_store (haltQueue row) c2))
           | REJECTED \<Rightarrow>
               (AttemptHalted, onHalt deps row (RefusedCause ''CROSS_TENANT_MUTATION'') (on_store (haltQueue row) c2))))"

section \<open>One pass\<close>

text \<open>The inner loop: how the grp ended, \<open>None\<close> when every row was applied.\<close>

fun send_group :: "'w deps \<Rightarrow> pending_row list \<Rightarrow> 'w client \<Rightarrow> pass_outcome option \<times> 'w client" where
  "send_group deps [] c = (None, c)"
| "send_group deps (row # rows) c =
     (case attempt deps row c of
        (AttemptApplied _, c') \<Rightarrow> send_group deps rows c'
      | (AttemptHalted, c') \<Rightarrow> (Some halted, c')
      | (AttemptOffline, c') \<Rightarrow> (Some offline, c')
      | (AttemptFailed, c') \<Rightarrow> (Some failed, c'))"

fun pass_groups ::
  "'w deps \<Rightarrow> pending_row list list \<Rightarrow> pass_outcome \<Rightarrow> 'w client \<Rightarrow> pass_outcome \<times> 'w client" where
  "pass_groups deps [] outcome c = (outcome, c)"
| "pass_groups deps (grp # groups) outcome c =
     (if \<not> isSendable grp then pass_groups deps groups halted c
      else case send_group deps grp c of
        (None, c') \<Rightarrow> pass_groups deps groups outcome c'
      | (Some halted, c') \<Rightarrow> pass_groups deps groups halted c'
      | (Some stop, c') \<Rightarrow> (stop, c'))"

definition pass :: "'w deps \<Rightarrow> string \<Rightarrow> 'w client \<Rightarrow> pass_outcome \<times> 'w client" where
  "pass deps terminalId c =
     (let (rows, s) = readQueue terminalId (cl_store c)
      in pass_groups deps (map snd (groupByOrder rows)) drained (c\<lparr>cl_store := s\<rparr>))"

section \<open>The loop\<close>

definition loop_step :: "'w deps \<Rightarrow> string \<Rightarrow> 'w client \<Rightarrow> pass_outcome \<times> 'w client" where
  "loop_step deps terminalId c =
     (let (outcome, c') = pass deps terminalId (c\<lparr>cl_requested := None\<rparr>)
      in (outcome,
          onQueueChanged deps (on_store (recordSyncOutcome (cl_now c') terminalId (outcome = drained)) c')))"

fun loop :: "nat \<Rightarrow> 'w deps \<Rightarrow> string \<Rightarrow> 'w client \<Rightarrow> (pass_outcome \<times> 'w client) option" where
  "loop 0 deps terminalId c = None"
| "loop (Suc fuel) deps terminalId c =
     (let (outcome, c') = loop_step deps terminalId c in
      case cl_requested c' of
        None \<Rightarrow> Some (outcome, c')
      | Some next \<Rightarrow> loop fuel deps next c')"

text \<open>
  \<open>run\<close> while a pass is running: the caller only leaves its terminal behind and joins the running
  promise; otherwise the call is the loop.
\<close>

definition run :: "nat \<Rightarrow> bool \<Rightarrow> 'w deps \<Rightarrow> string \<Rightarrow> 'w client \<Rightarrow> (pass_outcome option \<times> 'w client) option" where
  "run fuel running deps terminalId c =
     (if running then Some (None, c\<lparr>cl_requested := Some terminalId\<rparr>)
      else map_option (\<lambda>(outcome, c'). (Some outcome, c')) (loop fuel deps terminalId c))"

section \<open>Rebase\<close>

definition rebase_version :: "pending_row \<Rightarrow> int \<Rightarrow> int" where
  "rebase_version head version = (if mutation_type_of (pn_command head) = CREATE_ORDER then 0 else version)"

fun rebase_loop ::
  "nat \<Rightarrow> 'w deps \<Rightarrow> string \<Rightarrow> uuid \<Rightarrow> int \<Rightarrow> 'w client \<Rightarrow> (pass_outcome \<times> 'w client) option" where
  "rebase_loop 0 deps terminalId orderId version c = None"
| "rebase_loop (Suc fuel) deps terminalId orderId version c =
     (let (rows, s) = readQueue terminalId (cl_store c) in
      case filter (\<lambda>r. pn_orderId r = orderId) rows of
        [] \<Rightarrow> Some (drained, c\<lparr>cl_store := s\<rparr>)
      | head # _ \<Rightarrow>
          (let (mutationId, c1) = newMutationId deps (c\<lparr>cl_store := s\<rparr>);
               (answer, s2) = reissue head mutationId (rebase_version head version) (cl_store c1);
               c2 = c1\<lparr>cl_store := s2\<rparr> in
           case answer of
             None \<Rightarrow> Some (failed, c2)
           | Some row \<Rightarrow>
               (case attempt deps row c2 of
                  (AttemptApplied snapshot, c3) \<Rightarrow>
                    rebase_loop fuel deps terminalId orderId (snap_version snapshot) c3
                | (AttemptHalted, c3) \<Rightarrow> Some (halted, c3)
                | (AttemptOffline, c3) \<Rightarrow> Some (offline, c3)
                | (AttemptFailed, c3) \<Rightarrow> Some (failed, c3))))"

definition rebase :: "nat \<Rightarrow> 'w deps \<Rightarrow> string \<Rightarrow> uuid \<Rightarrow> 'w client \<Rightarrow> (pass_outcome \<times> 'w client) option" where
  "rebase fuel deps terminalId orderId c =
     map_option (\<lambda>(outcome, c'). (outcome, onQueueChanged deps c'))
       (rebase_loop fuel deps terminalId orderId (canonicalVersion deps orderId c) c)"

section \<open>The groups of a queue\<close>

definition groups_of :: "pending_row list \<Rightarrow> (uuid \<times> pending_row list) list \<Rightarrow> bool" where
  "groups_of rows groups \<longleftrightarrow>
     distinct (map fst groups) \<and> fst ` set groups = pn_orderId ` set rows
     \<and> (\<forall>(i, grp) \<in> set groups. grp = filter (\<lambda>r. pn_orderId r = i) rows)"

lemma fst_add_to_group: "fst ` set (add_to_group row groups) = insert (pn_orderId row) (fst ` set groups)"
proof (induction groups)
  case (Cons g groups)
  then show ?case by (cases g) (simp add: insert_commute)
qed simp

lemma distinct_add_to_group:
  "distinct (map fst groups) \<Longrightarrow> distinct (map fst (add_to_group row groups))"
proof (induction groups)
  case (Cons g groups)
  obtain i grp where g: "g = (i, grp)" by (cases g)
  have "i \<notin> fst ` set (add_to_group row groups)" if "i \<noteq> pn_orderId row"
    using that Cons.prems by (simp add: g fst_add_to_group)
  then show ?case using Cons by (cases "i = pn_orderId row") (simp_all add: g)
qed simp

lemma mem_add_to_group:
  assumes "distinct (map fst groups)" and "(i, grp) \<in> set (add_to_group row groups)"
  shows "(i \<noteq> pn_orderId row \<and> (i, grp) \<in> set groups)
    \<or> (i = pn_orderId row \<and> (\<exists>old. (i, old) \<in> set groups \<and> grp = old @ [row]))
    \<or> (i = pn_orderId row \<and> i \<notin> fst ` set groups \<and> grp = [row])"
  using assms
proof (induction groups)
  case (Cons g groups)
  obtain j old where g: "g = (j, old)" by (cases g)
  show ?case
  proof (cases "j = pn_orderId row")
    case True
    then have "j \<notin> fst ` set groups" using Cons.prems(1) by (simp add: g)
    then show ?thesis using Cons.prems(2) True by (force simp: g)
  next
    case False
    then show ?thesis using Cons by (auto simp: g)
  qed
qed simp

lemma groups_of_add:
  assumes "groups_of rows groups"
  shows "groups_of (rows @ [row]) (add_to_group row groups)"
proof -
  have d: "distinct (map fst groups)" and dom: "fst ` set groups = pn_orderId ` set rows"
    and mem: "\<And>i grp. (i, grp) \<in> set groups \<Longrightarrow> grp = filter (\<lambda>r. pn_orderId r = i) rows"
    using assms by (auto simp: groups_of_def)
  have "grp = filter (\<lambda>r. pn_orderId r = i) (rows @ [row])" if "(i, grp) \<in> set (add_to_group row groups)" for i grp
    using mem_add_to_group [OF d that]
  proof (elim disjE conjE exE)
    assume i: "i = pn_orderId row" "i \<notin> fst ` set groups" "grp = [row]"
    then have "filter (\<lambda>r. pn_orderId r = i) rows = []"
      unfolding dom by (intro filter_False) (metis imageI)
    with i show ?thesis by simp
  qed (auto dest: mem)
  then show ?thesis
    using distinct_add_to_group [OF d] by (auto simp: groups_of_def fst_add_to_group dom)
qed

lemma groupByOrder_groups: "groups_of rows (groupByOrder rows)"
proof (induction rows rule: rev_induct)
  case Nil
  show ?case by (simp add: groups_of_def groupByOrder_def)
next
  case (snoc row rows)
  then show ?case using groups_of_add by (simp add: groupByOrder_def)
qed

lemma groupByOrder_pair:
  "(i, grp) \<in> set (groupByOrder rows) \<Longrightarrow> grp = filter (\<lambda>r. pn_orderId r = i) rows"
  using groupByOrder_groups [of rows] by (auto simp: groups_of_def)

lemma groupByOrder_mem:
  assumes "grp \<in> snd ` set (groupByOrder rows)"
  shows "\<exists>i. grp = filter (\<lambda>r. pn_orderId r = i) rows"
proof -
  from assms obtain i where "(i, grp) \<in> set (groupByOrder rows)" by force
  then have "grp = filter (\<lambda>r. pn_orderId r = i) rows" by (rule groupByOrder_pair)
  then show ?thesis ..
qed

lemma groupByOrder_covers:
  assumes "r \<in> set rows"
  shows "\<exists>grp \<in> snd ` set (groupByOrder rows). r \<in> set grp"
proof -
  have "pn_orderId r \<in> fst ` set (groupByOrder rows)"
    using assms groupByOrder_groups [of rows] by (simp add: groups_of_def)
  then obtain grp where g: "(pn_orderId r, grp) \<in> set (groupByOrder rows)" by force
  from groupByOrder_pair [OF g] assms have "r \<in> set grp" by simp
  with g show ?thesis by force
qed

section \<open>What the engine relies on\<close>

definition accepted :: "mutation_response \<Rightarrow> bool" where
  "accepted response = (case response of APPLIED _ _ \<Rightarrow> True | ALREADY_APPLIED _ _ \<Rightarrow> True | _ \<Rightarrow> False)"

definition queued :: "'w client \<Rightarrow> uuid set" where
  "queued c = pn_mutationId ` set (ls_pending (cl_store c))"

text \<open>
  A dependency that is not the request: it drops no row of the queue, forgets no settled mutation and
  sends nothing.
\<close>

definition quiet ::
  "(uuid \<Rightarrow> 'w client \<Rightarrow> bool) \<Rightarrow> ('w client \<Rightarrow> (uuid \<times> mutation_request) list) \<Rightarrow> 'w client \<Rightarrow> 'w client \<Rightarrow> bool" where
  "quiet settled sent c c' \<longleftrightarrow>
     queued c' = queued c \<and> (\<forall>m. settled m c \<longrightarrow> settled m c') \<and> sent c' = sent c"

text \<open>
  \<open>settled m\<close>: the server has a record of the mutation. \<open>sent\<close>: the requests that left this client, in
  order. The laws: an accepting answer means that the mutation is settled and settled mutations stay
  so; what runs while a request is in the air may queue further mutations, whose ids are new, but
  removes none.
\<close>

locale sync_deps =
  fixes deps :: "'w deps"
    and settled :: "uuid \<Rightarrow> 'w client \<Rightarrow> bool"
    and sent :: "'w client \<Rightarrow> (uuid \<times> mutation_request) list"
  assumes post_settles:
      "post deps i r c = (Answered response, c') \<Longrightarrow> accepted response \<Longrightarrow> settled (mr_mutationId r) c'"
    and post_mono: "post deps i r c = (result, c') \<Longrightarrow> settled m c \<Longrightarrow> settled m c'"
    and post_keeps: "post deps i r c = (result, c') \<Longrightarrow> queued c \<subseteq> queued c'"
    and post_fresh: "post deps i r c = (result, c') \<Longrightarrow> m \<in> queued c' \<Longrightarrow> m \<notin> queued c \<Longrightarrow> \<not> settled m c'"
    and post_sent: "post deps i r c = (result, c') \<Longrightarrow> sent c' = sent c @ [(i, r)]"
    and canonical_quiet: "quiet settled sent c (onCanonical deps t snap c)"
    and halt_quiet: "quiet settled sent c (onHalt deps row cause c)"
    and changed_quiet: "quiet settled sent c (onQueueChanged deps c)"
    and transport_quiet: "quiet settled sent c (onTransportError deps message c)"
    and newId_quiet: "quiet settled sent c (snd (newMutationId deps c))"
    and store_settled [simp]: "settled m (c\<lparr>cl_store := s\<rparr>) = settled m c"
    and store_sent [simp]: "sent (c\<lparr>cl_store := s\<rparr>) = sent c"
    and requested_settled [simp]: "settled m (c\<lparr>cl_requested := q\<rparr>) = settled m c"
    and requested_sent [simp]: "sent (c\<lparr>cl_requested := q\<rparr>) = sent c"

text \<open>The statuses a queue operation writes; it keeps the ids.\<close>

lemma cl_on_store [simp]:
  "cl_store (on_store f c) = f (cl_store c)" "cl_world (on_store f c) = cl_world c"
  "cl_requested (on_store f c) = cl_requested c" "cl_now (on_store f c) = cl_now c"
  by (simp_all add: on_store_def)

lemma ids_update_where:
  "(\<And>r. pn_mutationId (f r) = pn_mutationId r) \<Longrightarrow>
     pn_mutationId ` set (update_where P f rows) = pn_mutationId ` set rows"
proof -
  assume f: "\<And>r. pn_mutationId (f r) = pn_mutationId r"
  have "set (map pn_mutationId (update_where P f rows)) = set (map pn_mutationId rows)"
    by (simp add: map_update_where f)
  then show ?thesis by simp
qed

lemma queued_setPendingStatus [simp]: "queued (on_store (setPendingStatus m st) c) = queued c"
  using setPendingStatus_pending [of m st "cl_store c"]
  by (elim disjE) (simp_all add: queued_def ids_update_where)

lemma queued_haltQueue [simp]: "queued (on_store (haltQueue row) c) = queued c"
  using haltQueue_pending [of row "cl_store c"]
  by (elim disjE) (simp_all add: queued_def halted_rows_def ids_update_where)

lemma queued_recordSyncOutcome [simp]: "queued (on_store (recordSyncOutcome now t b) c) = queued c"
  by (simp add: queued_def)

lemma queued_deletePending: "queued (on_store (deletePending m) c) \<in> {queued c, queued c - {m}}"
  using deletePending_pending [of m "cl_store c"]
  by (elim disjE) (auto simp: queued_def)

lemma queued_requested [simp]: "queued (c\<lparr>cl_requested := q\<rparr>) = queued c"
  by (simp add: queued_def)

lemma queued_readQueue [simp]:
  "queued (c\<lparr>cl_store := snd (readQueue t (cl_store c))\<rparr>) = queued c"
  by (simp add: queued_def)



lemma quiet_refl: "quiet settled sent c c"
  by (simp add: quiet_def)

text \<open>A mutation is safe while the device still holds it or the server has it on record.\<close>

definition safe :: "(uuid \<Rightarrow> 'w client \<Rightarrow> bool) \<Rightarrow> uuid \<Rightarrow> 'w client \<Rightarrow> bool" where
  "safe settled m c \<longleftrightarrow> m \<in> queued c \<or> settled m c"

context sync_deps
begin

lemma on_store_settled [simp]: "settled m (on_store f c) = settled m c"
  by (simp add: on_store_def)

lemma on_store_sent [simp]: "sent (on_store f c) = sent c"
  by (simp add: on_store_def)

lemma quiet_safe: "quiet settled sent c c' \<Longrightarrow> safe settled m c \<Longrightarrow> safe settled m c'"
  by (auto simp: quiet_def safe_def)

lemma quiet_settled: "quiet settled sent c c' \<Longrightarrow> settled m c \<Longrightarrow> settled m c'"
  by (simp add: quiet_def)

lemma quiet_sent: "quiet settled sent c c' \<Longrightarrow> sent c' = sent c"
  by (simp add: quiet_def)

lemmas quiet_laws = canonical_quiet halt_quiet changed_quiet transport_quiet newId_quiet
lemmas quiet_sents [simp] = quiet_laws [THEN quiet_sent]

lemma post_safe: "post deps i r c = (result, c') \<Longrightarrow> safe settled m c \<Longrightarrow> safe settled m c'"
  using post_keeps [of i r c result c'] post_mono [of i r c result c' m] by (auto simp: safe_def)

lemma safe_setPendingStatus [simp]:
  "safe settled m (on_store (setPendingStatus n st) c) = safe settled m c"
  by (simp add: safe_def)

lemma safe_haltQueue [simp]: "safe settled m (on_store (haltQueue row) c) = safe settled m c"
  by (simp add: safe_def)

lemma safe_deletePending:
  "settled n c \<Longrightarrow> safe settled m c \<Longrightarrow> safe settled m (on_store (deletePending n) c)"
  using queued_deletePending [of n c] by (auto simp: safe_def)

text \<open>What one attempt does: it sends its request and nothing else, loses no mutation, and an applied
  one is on record.\<close>

lemma attempt_sent: "sent (snd (attempt deps row c)) = sent c @ [(pn_orderId row, requestOf row)]"
proof -
  obtain result c2 where p: "post deps (pn_orderId row) (requestOf row)
      (on_store (setPendingStatus (pn_mutationId row) SYNCING) c) = (result, c2)" by fastforce
  from post_sent [OF p] show ?thesis
    by (auto simp: attempt_def p Let_def split: post_result.splits mutation_response.splits)
qed

lemma attempt_cases:
  assumes "attempt deps row c = (a, c')"
  obtains (accepted) response c2 order where
      "post deps (pn_orderId row) (requestOf row) (on_store (setPendingStatus (pn_mutationId row) SYNCING) c)
         = (Answered response, c2)"
      "accepted response" "a = AttemptApplied order"
      "c' = on_store (deletePending (pn_mutationId row)) (onCanonical deps (pn_terminalId row) order c2)"
  | (refused) result c2 c3 where
      "post deps (pn_orderId row) (requestOf row) (on_store (setPendingStatus (pn_mutationId row) SYNCING) c)
         = (result, c2)"
      "a = AttemptHalted" "c3 = c2 \<or> (\<exists>order. c3 = onCanonical deps (pn_terminalId row) order c2)"
      "\<exists>cause. c' = onHalt deps row cause (on_store (haltQueue row) c3)"
  | (lost) result c2 c3 where
      "post deps (pn_orderId row) (requestOf row) (on_store (setPendingStatus (pn_mutationId row) SYNCING) c)
         = (result, c2)"
      "a = AttemptOffline \<or> a = AttemptFailed"
      "c3 = on_store (setPendingStatus (pn_mutationId row) PENDING) c2"
      "c' = c3 \<or> (\<exists>message. c' = onTransportError deps message c3)"
proof -
  obtain result c2 where p: "post deps (pn_orderId row) (requestOf row)
      (on_store (setPendingStatus (pn_mutationId row) SYNCING) c) = (result, c2)" by fastforce
  show thesis
  proof (cases result)
    case (Answered response)
    show thesis
    proof (cases response)
      case (APPLIED order v)
      with Answered p assms show thesis
        by (intro accepted [of response c2 order]) (auto simp: attempt_def accepted_def)
    next
      case (ALREADY_APPLIED order v)
      with Answered p assms show thesis
        by (intro accepted [of response c2 order]) (auto simp: attempt_def accepted_def)
    next
      case (CONFLICT_RESPONSE reason b v order)
      with Answered p assms show thesis
        by (intro refused [of result c2 "onCanonical deps (pn_terminalId row) order c2"])
          (auto simp: attempt_def)
    next
      case MUTATION_ID_REUSED
      with Answered p assms show thesis by (intro refused [of result c2 c2]) (auto simp: attempt_def)
    next
      case REJECTED
      with Answered p assms show thesis by (intro refused [of result c2 c2]) (auto simp: attempt_def)
    qed
  next
    case (OfflineError t)
    with p assms show thesis
      by (intro lost [of result c2 "on_store (setPendingStatus (pn_mutationId row) PENDING) c2"])
        (auto simp: attempt_def)
  next
    case (OtherError message)
    with p assms show thesis
      by (intro lost [of result c2 "on_store (setPendingStatus (pn_mutationId row) PENDING) c2"])
        (auto simp: attempt_def)
  next
    case (ApiRequestError code message status)
    show thesis
    proof (cases "isPermanentRefusal result")
      case True
      with ApiRequestError p assms show thesis by (intro refused [of result c2 c2]) (auto simp: attempt_def)
    next
      case False
      with ApiRequestError p assms show thesis
        by (intro lost [of result c2 "on_store (setPendingStatus (pn_mutationId row) PENDING) c2"])
          (auto simp: attempt_def)
    qed
  qed
qed

lemma attempt_safe:
  assumes "attempt deps row c = (a, c')" and "safe settled m c"
  shows "safe settled m c'"
  using assms(1)
proof (cases rule: attempt_cases)
  case (accepted response c2 order)
  have "settled (pn_mutationId row) c2"
    using post_settles [OF accepted(1) accepted(2)] by (simp add: requestOf_def)
  moreover have "safe settled m c2" using post_safe [OF accepted(1)] assms(2) by simp
  ultimately show ?thesis
    unfolding accepted(4)
    by (intro safe_deletePending) (auto intro: quiet_settled [OF canonical_quiet] quiet_safe [OF canonical_quiet])
next
  case (refused result c2 c3)
  have "safe settled m c2" using post_safe [OF refused(1)] assms(2) by simp
  then have "safe settled m c3" using refused(3) by (auto intro: quiet_safe [OF canonical_quiet])
  then show ?thesis using refused(4) by (auto intro: quiet_safe [OF halt_quiet])
next
  case (lost result c2 c3)
  have "safe settled m c2" using post_safe [OF lost(1)] assms(2) by simp
  then have "safe settled m c3" using lost(3) by simp
  then show ?thesis using lost(4) by (auto intro: quiet_safe [OF transport_quiet])
qed

lemma send_group_safe: "safe settled m c \<Longrightarrow> safe settled m (snd (send_group deps rows c))"
proof (induction rows arbitrary: c)
  case (Cons row rows)
  obtain a c' where a: "attempt deps row c = (a, c')" by fastforce
  have "safe settled m c'" using a Cons.prems by (rule attempt_safe)
  with Cons.IH show ?case by (cases a) (simp_all add: a)
qed simp

lemma pass_groups_safe: "safe settled m c \<Longrightarrow> safe settled m (snd (pass_groups deps groups outcome c))"
proof (induction groups arbitrary: c outcome)
  case (Cons grp groups)
  obtain stop c' where g: "send_group deps grp c = (stop, c')" by fastforce
  have "safe settled m c'" using send_group_safe [OF Cons.prems, of grp] g by simp
  with Cons show ?case by (auto simp: g split: option.splits pass_outcome.splits)
qed simp

lemma pass_safe: "safe settled m c \<Longrightarrow> safe settled m (snd (pass deps t c))"
proof -
  assume "safe settled m c"
  moreover obtain rows s where r: "readQueue t (cl_store c) = (rows, s)" by fastforce
  ultimately have "safe settled m (c\<lparr>cl_store := s\<rparr>)"
    using queued_readQueue [of t c] by (simp add: safe_def)
  then show ?thesis by (simp add: pass_def r pass_groups_safe)
qed

lemma loop_step_safe: "safe settled m c \<Longrightarrow> safe settled m (snd (loop_step deps t c))"
proof -
  assume "safe settled m c"
  then have "safe settled m (c\<lparr>cl_requested := None\<rparr>)" by (simp add: safe_def)
  from pass_safe [OF this, of t] have "safe settled m (on_store f (snd (pass deps t (c\<lparr>cl_requested := None\<rparr>))))"
    if "f = recordSyncOutcome now t b" for f now b
    by (simp add: safe_def that)
  then show ?thesis
    by (auto simp: loop_step_def split: prod.splits intro: quiet_safe [OF changed_quiet])
qed

text \<open>No number of passes loses a mutation.\<close>

lemma loop_safe:
  "safe settled m c \<Longrightarrow> loop fuel deps t c = Some (outcome, c') \<Longrightarrow> safe settled m c'"
proof (induction fuel arbitrary: t c)
  case (Suc fuel)
  obtain o1 c1 where st: "loop_step deps t c = (o1, c1)" by fastforce
  have "safe settled m c1" using loop_step_safe [OF Suc.prems(1), of t] st by simp
  with Suc show ?case by (auto simp: st split: option.splits)
qed simp

text \<open>
  What leaves the client during a pass: of every group a prefix, in queue order, and nothing of a
  group that may not be sent.
\<close>

lemma send_group_sent:
  "\<exists>n \<le> length rows. sent (snd (send_group deps rows c)) =
     sent c @ map (\<lambda>r. (pn_orderId r, requestOf r)) (take n rows)
   \<and> (fst (send_group deps rows c) = None \<longrightarrow> n = length rows)"
proof (induction rows arbitrary: c)
  case (Cons row rows)
  obtain a c1 where a: "attempt deps row c = (a, c1)" by fastforce
  have s1: "sent c1 = sent c @ [(pn_orderId row, requestOf row)]"
    using attempt_sent [of row c] by (simp add: a)
  show ?case
  proof (cases a)
    case (AttemptApplied order)
    obtain n where "n \<le> length rows" "sent (snd (send_group deps rows c1)) =
        sent c1 @ map (\<lambda>r. (pn_orderId r, requestOf r)) (take n rows)"
      "fst (send_group deps rows c1) = None \<longrightarrow> n = length rows" using Cons.IH by blast
    with AttemptApplied a s1 show ?thesis by (intro exI [of _ "Suc n"]) simp
  qed (auto simp: a s1 intro!: exI [of _ "Suc 0"])
qed simp

lemma pass_groups_sent:
  "\<exists>ns. length ns = length groups \<and>
     sent (snd (pass_groups deps groups outcome c)) =
       sent c @ concat (map2 (\<lambda>grp n. map (\<lambda>r. (pn_orderId r, requestOf r)) (take n grp)) groups ns)
   \<and> (\<forall>(grp, n) \<in> set (zip groups ns). \<not> isSendable grp \<longrightarrow> n = 0)"
proof (induction groups arbitrary: c outcome)
  case Nil
  then show ?case by simp
next
  case (Cons grp groups)
  show ?case
  proof (cases "isSendable grp")
    case False
    obtain ns where "length ns = length groups"
      "sent (snd (pass_groups deps groups halted c)) =
         sent c @ concat (map2 (\<lambda>grp n. map (\<lambda>r. (pn_orderId r, requestOf r)) (take n grp)) groups ns)"
      "\<forall>(grp, n) \<in> set (zip groups ns). \<not> isSendable grp \<longrightarrow> n = 0" using Cons.IH by blast
    with False show ?thesis by (intro exI [of _ "0 # ns"]) simp
  next
    case True
    obtain stop c1 where g: "send_group deps grp c = (stop, c1)" by fastforce
    obtain n where n: "sent c1 = sent c @ map (\<lambda>r. (pn_orderId r, requestOf r)) (take n grp)"
      using send_group_sent [of grp c] g by auto
    have ext: "\<exists>outcome'. pass_groups deps (grp # groups) outcome c = pass_groups deps groups outcome' c1
        \<or> pass_groups deps (grp # groups) outcome c = (outcome', c1)"
      using True g by (cases stop; auto split: pass_outcome.splits)
    then obtain outcome' where "pass_groups deps (grp # groups) outcome c = pass_groups deps groups outcome' c1
        \<or> pass_groups deps (grp # groups) outcome c = (outcome', c1)" ..
    then show ?thesis
    proof
      assume p: "pass_groups deps (grp # groups) outcome c = (outcome', c1)"
      have "concat (map2 (\<lambda>grp n. map (\<lambda>r. (pn_orderId r, requestOf r)) (take n grp)) groups (replicate (length groups) 0)) = []"
        by (induction groups) auto
      moreover have "\<forall>(grp, n) \<in> set (zip groups (replicate (length groups) (0::nat))). n = 0"
        by (auto dest: set_zip_rightD)
      ultimately show ?thesis
        using True n by (intro exI [of _ "n # replicate (length groups) 0"])
          (auto simp: p simp del: pass_groups.simps concat_eq_Nil_conv)
    next
      assume p: "pass_groups deps (grp # groups) outcome c = pass_groups deps groups outcome' c1"
      obtain ns where "length ns = length groups"
        "sent (snd (pass_groups deps groups outcome' c1)) =
           sent c1 @ concat (map2 (\<lambda>grp n. map (\<lambda>r. (pn_orderId r, requestOf r)) (take n grp)) groups ns)"
        "\<forall>(grp, n) \<in> set (zip groups ns). \<not> isSendable grp \<longrightarrow> n = 0" using Cons.IH by blast
      with True n show ?thesis by (intro exI [of _ "n # ns"]) (auto simp: p simp del: pass_groups.simps)
    qed
  qed
qed

text \<open>Per order: a prefix of its queue, and nothing of a halted one.\<close>

lemma sent_of_order:
  assumes "distinct (map fst groups)" and "\<forall>(j, grp) \<in> set groups. \<forall>r \<in> set grp. pn_orderId r = j"
    and "length ns = length groups"
    and "\<forall>(grp, n) \<in> set (zip (map snd groups) ns). \<not> isSendable grp \<longrightarrow> n = 0"
  shows "\<exists>n. filter (\<lambda>x. fst x = i)
      (concat (map2 (\<lambda>grp n. map (\<lambda>r. (pn_orderId r, requestOf r)) (take n grp)) (map snd groups) ns))
    = map (\<lambda>r. (i, requestOf r)) (take n (case map_of groups i of Some grp \<Rightarrow> grp | None \<Rightarrow> []))
    \<and> (\<forall>grp. map_of groups i = Some grp \<longrightarrow> \<not> isSendable grp \<longrightarrow> n = 0)"
  using assms
proof (induction groups arbitrary: ns)
  case (Cons g groups)
  obtain j grp where g: "g = (j, grp)" by (cases g)
  obtain n ms where ns: "ns = n # ms" using Cons.prems(3) by (cases ns) auto
  let ?f = "\<lambda>grp n. map (\<lambda>r. (pn_orderId r, requestOf r)) (take n grp)"
  have grp: "\<forall>r \<in> set grp. pn_orderId r = j" using Cons.prems(2) g by auto
  then have own: "?f grp n = map (\<lambda>r. (j, requestOf r)) (take n grp)"
    by (auto dest: in_set_takeD)
  obtain k where k: "filter (\<lambda>x. fst x = i) (concat (map2 ?f (map snd groups) ms))
      = map (\<lambda>r. (i, requestOf r)) (take k (case map_of groups i of Some grp \<Rightarrow> grp | None \<Rightarrow> []))"
    "\<forall>grp. map_of groups i = Some grp \<longrightarrow> \<not> isSendable grp \<longrightarrow> k = 0"
    using Cons.IH [of ms] Cons.prems by (force simp: g ns)
  show ?case
  proof (cases "j = i")
    case True
    then have "map_of groups i = None" using Cons.prems(1) g by (auto simp: map_of_eq_None_iff)
    then have "filter (\<lambda>x. fst x = i) (concat (map2 ?f (map snd groups) ms)) = []" using k(1) by simp
    moreover have "\<not> isSendable grp \<longrightarrow> n = 0" using Cons.prems(4) by (simp add: g ns)
    ultimately show ?thesis
      using True own by (intro exI [of _ n]) (simp add: g ns filter_map o_def)
  next
    case False
    then show ?thesis using k own by (intro exI [of _ k]) (simp add: g ns filter_map o_def)
  qed
qed simp

lemma pass_sends_prefixes:
  assumes "fst (readQueue t (cl_store c)) = rows"
  shows "\<exists>batch n. sent (snd (pass deps t c)) = sent c @ batch
    \<and> filter (\<lambda>x. fst x = i) batch
        = map (\<lambda>r. (i, requestOf r)) (take n (filter (\<lambda>r. pn_orderId r = i) rows))
    \<and> (\<not> isSendable (filter (\<lambda>r. pn_orderId r = i) rows) \<longrightarrow> n = 0)"
proof -
  let ?gs = "groupByOrder rows"
  let ?f = "\<lambda>grp n. map (\<lambda>r. (pn_orderId r, requestOf r)) (take n grp)"
  obtain s where r: "readQueue t (cl_store c) = (rows, s)" using assms by (metis prod.collapse)
  have gs: "groups_of rows ?gs" by (rule groupByOrder_groups)
  obtain ns where ns: "length ns = length (map snd ?gs)"
    "sent (snd (pass deps t c)) = sent c @ concat (map2 ?f (map snd ?gs) ns)"
    "\<forall>(grp, n) \<in> set (zip (map snd ?gs) ns). \<not> isSendable grp \<longrightarrow> n = 0"
    using pass_groups_sent [of "map snd ?gs" drained "c\<lparr>cl_store := s\<rparr>"] by (auto simp: pass_def r)
  have "distinct (map fst ?gs)" "\<forall>(j, grp) \<in> set ?gs. \<forall>r \<in> set grp. pn_orderId r = j"
    using gs by (auto simp: groups_of_def)
  then obtain n where n: "filter (\<lambda>x. fst x = i) (concat (map2 ?f (map snd ?gs) ns))
      = map (\<lambda>r. (i, requestOf r)) (take n (case map_of ?gs i of Some grp \<Rightarrow> grp | None \<Rightarrow> []))"
    "\<forall>grp. map_of ?gs i = Some grp \<longrightarrow> \<not> isSendable grp \<longrightarrow> n = 0"
    using sent_of_order [of ?gs ns i] ns by auto
  show ?thesis
  proof (cases "map_of ?gs i")
    case None
    then have "i \<notin> pn_orderId ` set rows" using gs by (simp add: groups_of_def map_of_eq_None_iff)
    then have "filter (\<lambda>r. pn_orderId r = i) rows = []" by (intro filter_False) (metis imageI)
    with None ns(2) n(1) show ?thesis by (intro exI [of _ "concat (map2 ?f (map snd ?gs) ns)"] exI [of _ 0]) simp
  next
    case (Some grp)
    then have "grp = filter (\<lambda>r. pn_orderId r = i) rows" by (auto dest: map_of_SomeD groupByOrder_pair)
    with Some ns(2) n show ?thesis
      by (intro exI [of _ "concat (map2 ?f (map snd ?gs) ns)"] exI [of _ n]) auto
  qed
qed

end

text \<open>Dependencies on a device whose storage works.\<close>

definition storage_works :: "'w client \<Rightarrow> bool" where
  "storage_works c \<longleftrightarrow> ls_faults (cl_store c) = []"

definition settled_and_gone :: "(uuid \<Rightarrow> 'w client \<Rightarrow> bool) \<Rightarrow> uuid \<Rightarrow> 'w client \<Rightarrow> bool" where
  "settled_and_gone settled m c \<longleftrightarrow> settled m c \<and> m \<notin> queued c"

lemma storage_works_writes [simp]:
  "storage_works c \<Longrightarrow> storage_works (on_store (setPendingStatus m st) c)"
  "storage_works c \<Longrightarrow> storage_works (on_store (deletePending m) c)"
  "storage_works c \<Longrightarrow> storage_works (on_store (haltQueue row) c)"
  "storage_works c \<Longrightarrow> storage_works (on_store (recordSyncOutcome now t b) c)"
  "storage_works c \<Longrightarrow> storage_works (on_store (cacheOrder now t snap) c)"
  by (simp_all add: storage_works_def writer_defs putSnapshotIfNewer_def Let_def)

lemma deletePending_gone: "storage_works c \<Longrightarrow> m \<notin> queued (on_store (deletePending m) c)"
  by (auto simp: storage_works_def queued_def deletePending_def)

lemma readQueue_works: "ls_faults s = [] \<Longrightarrow> readQueue t s = (terminal_queue t (ls_pending s), s)"
  by (simp add: readQueue_def)

locale working_deps = sync_deps deps settled sent
  for deps :: "'w deps"
    and settled :: "uuid \<Rightarrow> 'w client \<Rightarrow> bool"
    and sent :: "'w client \<Rightarrow> (uuid \<times> mutation_request) list" +
  assumes post_works: "storage_works c \<Longrightarrow> storage_works (snd (post deps i r c))"
    and canonical_works: "storage_works c \<Longrightarrow> storage_works (onCanonical deps t snap c)"
    and halt_works: "storage_works c \<Longrightarrow> storage_works (onHalt deps row cause c)"
    and transport_works: "storage_works c \<Longrightarrow> storage_works (onTransportError deps message c)"
begin

lemma quiet_gone: "quiet settled sent c c' \<Longrightarrow> settled_and_gone settled m c \<Longrightarrow> settled_and_gone settled m c'"
  by (auto simp: quiet_def settled_and_gone_def)

lemma post_gone:
  "post deps i r c = (result, c') \<Longrightarrow> settled_and_gone settled m c \<Longrightarrow> settled_and_gone settled m c'"
  using post_fresh [of i r c result c' m] post_mono [of i r c result c' m] by (auto simp: settled_and_gone_def)

lemma write_gone [simp]:
  "settled_and_gone settled m (on_store (setPendingStatus n st) c) = settled_and_gone settled m c"
  "settled_and_gone settled m (on_store (haltQueue row) c) = settled_and_gone settled m c"
  by (simp_all add: settled_and_gone_def)

lemma delete_gone:
  "settled_and_gone settled m c \<Longrightarrow> settled_and_gone settled m (on_store (deletePending n) c)"
  using queued_deletePending [of n c] by (auto simp: settled_and_gone_def)

lemma attempt_gone:
  assumes "attempt deps row c = (a, c')" and "settled_and_gone settled m c"
  shows "settled_and_gone settled m c'"
  using assms(1)
proof (cases rule: attempt_cases)
  case (accepted response c2 order)
  have "settled_and_gone settled m c2" using post_gone [OF accepted(1)] assms(2) by simp
  then show ?thesis unfolding accepted(4) by (intro delete_gone quiet_gone [OF canonical_quiet])
next
  case (refused result c2 c3)
  have "settled_and_gone settled m c2" using post_gone [OF refused(1)] assms(2) by simp
  then have "settled_and_gone settled m c3" using refused(3) by (auto intro: quiet_gone [OF canonical_quiet])
  then show ?thesis using refused(4) by (auto intro: quiet_gone [OF halt_quiet])
next
  case (lost result c2 c3)
  have "settled_and_gone settled m c2" using post_gone [OF lost(1)] assms(2) by simp
  then have "settled_and_gone settled m c3" using lost(3) by simp
  then show ?thesis using lost(4) by (auto intro: quiet_gone [OF transport_quiet])
qed

lemma attempt_works:
  assumes "attempt deps row c = (a, c')" and w: "storage_works c"
  shows "storage_works c'"
proof -
  have post: "storage_works c2"
    if "post deps (pn_orderId row) (requestOf row) (on_store (setPendingStatus (pn_mutationId row) SYNCING) c) = (result, c2)" for result c2
    using post_works [of "on_store (setPendingStatus (pn_mutationId row) SYNCING) c" "pn_orderId row" "requestOf row"] that w by simp
  show ?thesis
    using assms(1)
  proof (cases rule: attempt_cases)
    case (accepted response c2 order)
    from post [OF accepted(1)] show ?thesis unfolding accepted(4) by (simp add: canonical_works)
  next
    case (refused result c2 c3)
    have "storage_works c3" using post [OF refused(1)] refused(3) by (auto simp: canonical_works)
    then show ?thesis using refused(4) by (auto simp: halt_works)
  next
    case (lost result c2 c3)
    have "storage_works c3" using post [OF lost(1)] lost(3) by simp
    then show ?thesis using lost(4) by (auto simp: transport_works)
  qed
qed

text \<open>An applied row leaves the queue, and the server has it.\<close>

lemma attempt_applied_gone:
  assumes "attempt deps row c = (AttemptApplied order, c')" and w: "storage_works c"
  shows "settled_and_gone settled (pn_mutationId row) c'"
  using assms(1)
proof (cases rule: attempt_cases)
  case (accepted response c2 order')
  have "storage_works c2"
    using post_works [of "on_store (setPendingStatus (pn_mutationId row) SYNCING) c" "pn_orderId row" "requestOf row"]
      accepted(1) w by simp
  then have "storage_works (onCanonical deps (pn_terminalId row) order' c2)" by (rule canonical_works)
  moreover have "settled (pn_mutationId row) c2"
    using post_settles [OF accepted(1) accepted(2)] by (simp add: requestOf_def)
  ultimately show ?thesis
    unfolding accepted(4) settled_and_gone_def
    by (simp add: deletePending_gone quiet_settled [OF canonical_quiet])
qed auto

lemma send_group_drains:
  assumes "send_group deps rows c = (stop, c')" and "storage_works c"
  shows "storage_works c' \<and> (\<forall>m. settled_and_gone settled m c \<longrightarrow> settled_and_gone settled m c')
    \<and> (stop = None \<longrightarrow> (\<forall>r \<in> set rows. settled_and_gone settled (pn_mutationId r) c'))
    \<and> stop \<noteq> Some drained"
  using assms
proof (induction rows arbitrary: c)
  case (Cons row rows)
  obtain a c1 where a: "attempt deps row c = (a, c1)" by fastforce
  have w: "storage_works c1" using attempt_works [OF a Cons.prems(2)] .
  have keep: "settled_and_gone settled m c \<Longrightarrow> settled_and_gone settled m c1" for m
    by (rule attempt_gone [OF a])
  show ?case
  proof (cases a)
    case (AttemptApplied order)
    have "settled_and_gone settled (pn_mutationId row) c1"
      using a Cons.prems(2) by (auto simp: AttemptApplied intro: attempt_applied_gone)
    with Cons.IH [OF _ w] Cons.prems(1) keep show ?thesis by (simp add: a AttemptApplied)
  qed (use Cons.prems(1) w keep in \<open>auto simp: a\<close>)
qed simp

lemma pass_groups_drains:
  assumes "pass_groups deps groups outcome c = (drained, c')" and "storage_works c"
  shows "outcome = drained
    \<and> (\<forall>m. settled_and_gone settled m c \<longrightarrow> settled_and_gone settled m c')
    \<and> (\<forall>grp \<in> set groups. \<forall>r \<in> set grp. settled_and_gone settled (pn_mutationId r) c')"
  using assms
proof (induction groups arbitrary: c outcome)
  case (Cons grp groups)
  show ?case
  proof (cases "isSendable grp")
    case False
    then show ?thesis using Cons.IH [of halted c] Cons.prems by simp
  next
    case True
    obtain stop c1 where g: "send_group deps grp c = (stop, c1)" by fastforce
    note s = send_group_drains [OF g Cons.prems(2)]
    show ?thesis
    proof (cases stop)
      case None
      then show ?thesis using Cons.IH [of outcome c1] Cons.prems(1) s True by (simp add: g)
    next
      case (Some o')
      then show ?thesis using Cons.IH [of halted c1] Cons.prems(1) s True
        by (cases o') (simp_all add: g)
    qed
  qed
qed simp

lemma pass_drained:
  assumes p: "pass deps t c = (drained, c')" and w: "storage_works c"
    and r: "r \<in> set (ls_pending (cl_store c))" "pn_terminalId r = t"
  shows "settled_and_gone settled (pn_mutationId r) c'"
proof -
  let ?rows = "terminal_queue t (ls_pending (cl_store c))"
  have "readQueue t (cl_store c) = (?rows, cl_store c)" using w by (simp add: storage_works_def readQueue_works)
  with p have "pass_groups deps (map snd (groupByOrder ?rows)) drained c = (drained, c')" by (simp add: pass_def)
  note g = pass_groups_drains [OF this w]
  have "r \<in> set ?rows" using r by simp
  then obtain grp where "grp \<in> snd ` set (groupByOrder ?rows)" "r \<in> set grp"
    using groupByOrder_covers by blast
  with g show ?thesis by auto
qed

end

end
