(* ===== verification/Client_Api.thy ===== *)
theory Client_Api
  imports Sync_Engine
begin

text \<open>
  The write path of the browser up to the wire: \<open>apps/web/src/api/client.ts\<close>, the offline gate of
  \<open>api/offline.ts\<close> and the client-side controls of \<open>api/simulator-arms.ts\<close>.

  What \<open>fetch\<close> and the parsing of its body give is the argument \<open>wire\<close>, a function of the path's order
  id, the body and the state \<open>'n\<close> of the network and everything behind it. The log of the controls
  keeps what a sentence says, not its wording.
\<close>

section \<open>Switches\<close>

datatype mutation_arm = duplicate_next_mutation | reuse_mutation_id | create_version_conflict
datatype client_latch = socket_disabled | polling_forced

datatype simulator_detail =
    SentAt mutation_type int int
  | ShadowAnswered mutation_response
  | ShadowFailed string

record simulator_effect =
  se_control :: mutation_arm
  se_detail :: simulator_detail

record tab =
  tab_offlineTerminals :: "string list"
  tab_arms :: "mutation_arm \<Rightarrow> bool"
  tab_latches :: "client_latch \<Rightarrow> bool"
  tab_effects :: "simulator_effect list"

definition isTerminalOffline :: "string option \<Rightarrow> tab \<Rightarrow> bool" where
  "isTerminalOffline terminalId t =
     (case terminalId of None \<Rightarrow> False | Some i \<Rightarrow> i \<in> set (tab_offlineTerminals t))"

definition setTerminalOffline :: "string \<Rightarrow> bool \<Rightarrow> tab \<Rightarrow> bool \<times> tab" where
  "setTerminalOffline terminalId isOffline t =
     (isOffline,
      t\<lparr>tab_offlineTerminals :=
          (if isOffline then List.insert terminalId (tab_offlineTerminals t)
           else removeAll terminalId (tab_offlineTerminals t))\<rparr>)"

definition toggleTerminalOffline :: "string \<Rightarrow> tab \<Rightarrow> bool \<times> tab" where
  "toggleTerminalOffline terminalId t =
     setTerminalOffline terminalId (\<not> isTerminalOffline (Some terminalId) t) t"

definition isArmed :: "mutation_arm \<Rightarrow> tab \<Rightarrow> bool" where
  "isArmed arm t = tab_arms t arm"

definition setArm :: "mutation_arm \<Rightarrow> bool \<Rightarrow> tab \<Rightarrow> tab" where
  "setArm arm armed t = t\<lparr>tab_arms := (tab_arms t)(arm := armed)\<rparr>"

definition toggleArm :: "mutation_arm \<Rightarrow> tab \<Rightarrow> bool \<times> tab" where
  "toggleArm arm t = (let next = \<not> isArmed arm t in (next, setArm arm next t))"

definition isLatched :: "client_latch \<Rightarrow> tab \<Rightarrow> bool" where
  "isLatched latch t = tab_latches t latch"

definition setLatch :: "client_latch \<Rightarrow> bool \<Rightarrow> tab \<Rightarrow> tab" where
  "setLatch latch thrown t = t\<lparr>tab_latches := (tab_latches t)(latch := thrown)\<rparr>"

definition toggleLatch :: "client_latch \<Rightarrow> tab \<Rightarrow> bool \<times> tab" where
  "toggleLatch latch t = (let next = \<not> isLatched latch t in (next, setLatch latch next t))"

definition EFFECT_LIMIT :: nat where "EFFECT_LIMIT = 20"

definition recordSimulatorEffect :: "mutation_arm \<Rightarrow> simulator_detail \<Rightarrow> tab \<Rightarrow> tab" where
  "recordSimulatorEffect control detail t =
     t\<lparr>tab_effects := take EFFECT_LIMIT (\<lparr>se_control = control, se_detail = detail\<rparr> # tab_effects t)\<rparr>"

definition clearSimulatorEffects :: "tab \<Rightarrow> tab" where
  "clearSimulatorEffects t = t\<lparr>tab_effects := []\<rparr>"

section \<open>The version-conflict arm\<close>

definition LOWEST_TAMPERABLE_VERSION :: int where "LOWEST_TAMPERABLE_VERSION = 2"

text \<open>The request to send, and what \<open>spend\<close> does.\<close>

definition applyVersionConflictArm ::
  "mutation_request \<Rightarrow> tab \<Rightarrow> mutation_request \<times> (tab \<Rightarrow> tab)" where
  "applyVersionConflictArm request t =
     (if \<not> isArmed create_version_conflict t \<or> mr_baseVersion request < LOWEST_TAMPERABLE_VERSION
      then (request, \<lambda>t'. t')
      else (let tampered = request\<lparr>mr_baseVersion := mr_baseVersion request - 1\<rparr> in
            (tampered,
             \<lambda>t'. recordSimulatorEffect create_version_conflict
                    (SentAt (mutation_type_of (mr_command request)) (mr_baseVersion tampered)
                       (mr_baseVersion request))
                    (setArm create_version_conflict False t'))))"

section \<open>The calls\<close>

datatype fetch_result =
    Body mutation_response
  | Envelope "string option" "string option" nat
  | NetworkError string

type_synonym 'n wire = "uuid \<Rightarrow> mutation_request \<Rightarrow> 'n \<Rightarrow> fetch_result \<times> 'n"

definition or_else :: "'a option \<Rightarrow> 'a \<Rightarrow> 'a" where
  "or_else v d = (case v of Some x \<Rightarrow> x | None \<Rightarrow> d)"

definition postMutationTo :: "'n wire \<Rightarrow> uuid \<Rightarrow> mutation_request \<Rightarrow> tab \<Rightarrow> 'n \<Rightarrow> post_result \<times> 'n" where
  "postMutationTo wire orderId request t n =
     (if isTerminalOffline (Some (mr_terminalId request)) t then (OfflineError (mr_terminalId request), n)
      else case wire orderId request n of
        (Body response, n') \<Rightarrow> (Answered response, n')
      | (Envelope code message status, n') \<Rightarrow>
          (ApiRequestError (or_else code ''UNKNOWN'') (or_else message ''Request failed.'') status, n')
      | (NetworkError message, n') \<Rightarrow> (OtherError (Some message), n'))"

definition shadow :: "'n wire \<Rightarrow> mutation_arm \<Rightarrow> uuid \<Rightarrow> mutation_request \<Rightarrow> tab \<times> 'n \<Rightarrow> tab \<times> 'n" where
  "shadow wire control orderId request s =
     (case s of (t, n) \<Rightarrow>
        (case postMutationTo wire orderId request t n of
           (Answered response, n') \<Rightarrow> (recordSimulatorEffect control (ShadowAnswered response) t, n')
         | (OfflineError i, n') \<Rightarrow> (recordSimulatorEffect control (ShadowFailed (i @ '' is simulating an offline terminal.'')) t, n')
         | (ApiRequestError _ message _, n') \<Rightarrow> (recordSimulatorEffect control (ShadowFailed message) t, n')
         | (OtherError message, n') \<Rightarrow>
             (recordSimulatorEffect control (ShadowFailed (or_else message ''the send failed.'')) t, n')))"

definition REUSE_MARKER_TABLE :: string where "REUSE_MARKER_TABLE = ''simulator-reuse''"

definition reused_request :: "mutation_request \<Rightarrow> mutation_request" where
  "reused_request request =
     request\<lparr>mr_baseVersion := 0, mr_command := CreateOrder REUSE_MARKER_TABLE\<rparr>"

definition fireMutationShadows :: "'n wire \<Rightarrow> uuid \<Rightarrow> mutation_request \<Rightarrow> tab \<times> 'n \<Rightarrow> tab \<times> 'n" where
  "fireMutationShadows wire orderId request s =
     (let s1 = (if isArmed duplicate_next_mutation (fst s)
                then shadow wire duplicate_next_mutation orderId request
                       (setArm duplicate_next_mutation False (fst s), snd s)
                else s) in
      if isArmed reuse_mutation_id (fst s1)
      then shadow wire reuse_mutation_id orderId (reused_request request)
             (setArm reuse_mutation_id False (fst s1), snd s1)
      else s1)"

definition postMutation ::
  "'n wire \<Rightarrow> uuid \<Rightarrow> mutation_request \<Rightarrow> tab \<times> 'n \<Rightarrow> post_result \<times> tab \<times> 'n" where
  "postMutation wire orderId request s =
     (case s of (t, n) \<Rightarrow>
        (let (outgoing, spend) = applyVersionConflictArm request t;
             (result, n') = postMutationTo wire orderId outgoing t n in
         case result of
           ApiRequestError _ _ _ \<Rightarrow> (result, spend t, n')
         | OfflineError _ \<Rightarrow> (result, t, n')
         | OtherError _ \<Rightarrow> (result, t, n')
         | Answered response \<Rightarrow>
             (case response of
                APPLIED _ _ \<Rightarrow> (result, fireMutationShadows wire orderId outgoing (spend t, n'))
              | _ \<Rightarrow> (result, spend t, n'))))"

definition postKitchenCommand ::
  "'n wire \<Rightarrow> uuid \<Rightarrow> mutation_request \<Rightarrow> tab \<times> 'n \<Rightarrow> post_result \<times> tab \<times> 'n" where
  "postKitchenCommand wire orderId request s =
     (let (result, n') = postMutationTo wire orderId request (fst s) (snd s) in (result, fst s, n'))"

section \<open>Reading an order, reporting a resolution\<close>

datatype read_result =
    ReadBody order_snapshot
  | ReadEnvelope "string option" "string option" nat
  | ReadNetworkError string

text \<open>
  The server as the browser sees it: the mutation route, the order read and the report of a resolved
  conflict, whose answer nobody reads.
\<close>

record 'n api =
  api_post :: "'n wire"
  api_read :: "uuid \<Rightarrow> 'n \<Rightarrow> read_result \<times> 'n"
  api_resolve :: "uuid \<Rightarrow> string \<Rightarrow> conflict_resolution \<Rightarrow> uuid list \<Rightarrow> 'n \<Rightarrow> 'n"

text \<open>What \<open>fetchOrder\<close> returns or throws (the message of the error).\<close>

definition fetchOrder :: "'n api \<Rightarrow> uuid \<Rightarrow> string option \<Rightarrow> tab \<Rightarrow> 'n \<Rightarrow> (string + order_snapshot option) \<times> 'n" where
  "fetchOrder api orderId terminalId t n =
     (if isTerminalOffline terminalId t
      then (Inl (or_else terminalId [] @ '' is simulating an offline terminal.''), n)
      else case api_read api orderId n of
        (ReadBody order, n') \<Rightarrow> (Inr (Some order), n')
      | (ReadEnvelope code message status, n') \<Rightarrow>
          if or_else code ''UNKNOWN'' = ''ORDER_NOT_FOUND'' then (Inr None, n')
          else (Inl (or_else message ''Request failed.''), n')
      | (ReadNetworkError message, n') \<Rightarrow> (Inl message, n'))"

definition postConflictResolution ::
  "'n api \<Rightarrow> uuid \<Rightarrow> string \<Rightarrow> conflict_resolution \<Rightarrow> uuid list \<Rightarrow> tab \<Rightarrow> 'n \<Rightarrow> 'n" where
  "postConflictResolution api orderId terminalId resolution mutationIds t n =
     (if isTerminalOffline (Some terminalId) t then n
      else api_resolve api orderId terminalId resolution mutationIds n)"

section \<open>What a call leaves\<close>

lemma postMutationTo_offline:
  "isTerminalOffline (Some (mr_terminalId request)) t \<Longrightarrow>
     postMutationTo wire i request t n = (OfflineError (mr_terminalId request), n)"
  by (simp add: postMutationTo_def)

lemma effects_bounded:
  "length (tab_effects (recordSimulatorEffect control detail t)) \<le> EFFECT_LIMIT"
  by (simp add: recordSimulatorEffect_def)

text \<open>The terminal, the id and the command of a request reach the wire as they are; only the version may be lowered.\<close>

lemma applyVersionConflictArm_request:
  "fst (applyVersionConflictArm request t) = request
   \<or> fst (applyVersionConflictArm request t) = request\<lparr>mr_baseVersion := mr_baseVersion request - 1\<rparr>"
  by (simp add: applyVersionConflictArm_def Let_def)

lemma postMutation_result:
  "fst (postMutation wire i request (t, n)) =
     fst (postMutationTo wire i (fst (applyVersionConflictArm request t)) t n)"
  by (auto simp: postMutation_def Let_def split: prod.splits post_result.splits mutation_response.splits)

end
