(* ===== verification/Order_Store.thy ===== *)
theory Order_Store
  imports Client_Api
begin

text \<open>
  The order store of the POS screen, \<open>apps/web/src/stores/order.ts\<close>: the state a screen shows, the
  dependencies it gives the sync engine, and its commands. One definition per function; the
  continuation of a function after an \<open>await\<close> is part of it, so a call runs to its end here. Where
  what happens in between matters, the parts are separate definitions (\<open>hydrate_read\<close> and
  \<open>hydrate_install\<close>, \<open>command_link\<close>).

  The world of the client (\<open>'n world\<close>) is the tab's switches, the screen, the menu, the network with
  everything behind it, and the supply of random ids. \<open>w_sent\<close> records the requests handed to
  \<open>postMutation\<close>, for the statement of properties. \<open>inFlight\<close>, a counter that only drives a spinner,
  is left out.
\<close>

section \<open>The screen\<close>

record conflict_banner =
  cb_orderId :: uuid
  cb_reason :: conflict_reason
  cb_clientBaseVersion :: int
  cb_serverVersion :: int

record screen =
  os_order :: "order_snapshot option"
  os_currentOrderId :: "uuid option"
  os_conflict :: "conflict_banner option"
  os_lastError :: "string option"
  os_readError :: "string option"
  os_queue :: "pending_row list"
  os_activeTerminalId :: "string option"
  os_generation :: nat

record 'n world =
  w_tab :: tab
  w_screen :: screen
  w_menu :: "menu_item list"
  w_net :: 'n
  w_uuid :: "nat \<Rightarrow> uuid"
  w_drawn :: nat
  w_sent :: "(uuid \<times> mutation_request) list"

type_synonym 'n pos = "'n world client"

abbreviation screen_of :: "'n pos \<Rightarrow> screen" where
  "screen_of c \<equiv> w_screen (cl_world c)"

definition on_screen :: "(screen \<Rightarrow> screen) \<Rightarrow> 'n pos \<Rightarrow> 'n pos" where
  "on_screen f c = c\<lparr>cl_world := (cl_world c)\<lparr>w_screen := f (screen_of c)\<rparr>\<rparr>"

text \<open>\<open>crypto.randomUUID()\<close>\<close>

definition randomUUID :: "'n pos \<Rightarrow> uuid \<times> 'n pos" where
  "randomUUID c =
     (let w = cl_world c in (w_uuid w (w_drawn w), c\<lparr>cl_world := w\<lparr>w_drawn := w_drawn w + 1\<rparr>\<rparr>))"

section \<open>What the screen derives\<close>

definition currentQueue :: "screen \<Rightarrow> pending_row list" where
  "currentQueue s =
     (case os_currentOrderId s of
        None \<Rightarrow> []
      | Some i \<Rightarrow> filter (\<lambda>row. pn_orderId row = i) (os_queue s))"

definition projected :: "'n pos \<Rightarrow> order_snapshot option" where
  "projected c =
     projectQueue (os_order (screen_of c)) (currentQueue (screen_of c)) (menuLookup (w_menu (cl_world c)))"

definition pendingCount :: "screen \<Rightarrow> nat" where
  "pendingCount s = length (os_queue s)"

definition pendingForOtherOrders :: "screen \<Rightarrow> nat" where
  "pendingForOtherOrders s = length (os_queue s) - length (currentQueue s)"

definition is_halted :: "screen \<Rightarrow> bool" where
  "is_halted s \<longleftrightarrow> length (currentQueue s) > 0 \<and> \<not> isSendable (currentQueue s)"

definition currentConflict :: "screen \<Rightarrow> conflict_banner option" where
  "currentConflict s =
     (case os_conflict s of
        None \<Rightarrow> None
      | Some b \<Rightarrow> if Some (cb_orderId b) = os_currentOrderId s then Some b else None)"

definition conflictedMutation :: "screen \<Rightarrow> pending_row option" where
  "conflictedMutation s = find (\<lambda>row. pn_status row = CONFLICT) (currentQueue s)"

definition blockedMutations :: "screen \<Rightarrow> pending_row list" where
  "blockedMutations s = filter (\<lambda>row. pn_status row \<noteq> CONFLICT) (currentQueue s)"

definition haltedElsewhere :: "screen \<Rightarrow> uuid list" where
  "haltedElsewhere s =
     map fst (filter (\<lambda>(orderId, grp). Some orderId \<noteq> os_currentOrderId s \<and> \<not> isSendable grp)
       (groupByOrder (os_queue s)))"

section \<open>Claims and snapshots\<close>

definition useTerminal :: "string \<Rightarrow> 'n pos \<Rightarrow> 'n pos" where
  "useTerminal terminalId =
     on_screen (\<lambda>s. s\<lparr>os_generation := os_generation s + 1, os_activeTerminalId := Some terminalId\<rparr>)"

definition releaseTerminal :: "'n pos \<Rightarrow> 'n pos" where
  "releaseTerminal =
     on_screen (\<lambda>s. s\<lparr>os_generation := os_generation s + 1, os_activeTerminalId := None\<rparr>)"

definition adopt :: "order_snapshot \<Rightarrow> screen \<Rightarrow> screen" where
  "adopt snapshot s =
     (if acceptsSnapshot (os_order s) snapshot
      then s\<lparr>os_order := Some snapshot, os_currentOrderId := Some (snap_id snapshot)\<rparr>
      else s)"

definition refreshQueue :: "'n pos \<Rightarrow> 'n pos" where
  "refreshQueue c =
     (case os_activeTerminalId (screen_of c) of
        None \<Rightarrow> on_screen (\<lambda>s. s\<lparr>os_queue := []\<rparr>) c
      | Some terminalId \<Rightarrow>
          (let (rows, store) = readQueue terminalId (cl_store c)
           in on_screen (\<lambda>s. s\<lparr>os_queue := rows\<rparr>) (c\<lparr>cl_store := store\<rparr>)))"

section \<open>The engine of the store\<close>

definition post_on_wire :: "'n api \<Rightarrow> uuid \<Rightarrow> mutation_request \<Rightarrow> 'n pos \<Rightarrow> post_result \<times> 'n pos" where
  "post_on_wire api orderId request c =
     (let w = cl_world c;
          (result, t, n) = postMutation (api_post api) orderId request (w_tab w, w_net w)
      in (result,
          c\<lparr>cl_world := w\<lparr>w_tab := t, w_net := n, w_sent := w_sent w @ [(orderId, request)]\<rparr>\<rparr>))"

definition on_canonical :: "string \<Rightarrow> order_snapshot \<Rightarrow> 'n pos \<Rightarrow> 'n pos" where
  "on_canonical terminalId snapshot c =
     (let c1 = on_store (cacheOrder (cl_now c) terminalId snapshot) c; s = screen_of c1 in
      if Some terminalId = os_activeTerminalId s \<and> os_currentOrderId s = Some (snap_id snapshot)
      then on_screen (adopt snapshot) c1
      else c1)"

definition on_halt :: "pending_row \<Rightarrow> halt_cause \<Rightarrow> 'n pos \<Rightarrow> 'n pos" where
  "on_halt row cause =
     on_screen (\<lambda>s. case cause of
        ConflictCause reason clientBaseVersion serverVersion \<Rightarrow>
          s\<lparr>os_conflict := Some \<lparr>cb_orderId = pn_orderId row, cb_reason = reason,
              cb_clientBaseVersion = clientBaseVersion, cb_serverVersion = serverVersion\<rparr>\<rparr>
      | RefusedCause reason \<Rightarrow> s\<lparr>os_lastError := Some reason\<rparr>)"

definition canonical_version :: "uuid \<Rightarrow> 'n pos \<Rightarrow> int" where
  "canonical_version orderId c =
     (case os_order (screen_of c) of
        None \<Rightarrow> 0
      | Some o' \<Rightarrow> if snap_id o' = orderId then snap_version o' else 0)"

definition store_deps :: "'n api \<Rightarrow> 'n world deps" where
  "store_deps api =
     \<lparr>post = post_on_wire api, newMutationId = randomUUID, onCanonical = on_canonical,
      onHalt = on_halt, onQueueChanged = refreshQueue, canonicalVersion = canonical_version,
      onTransportError = (\<lambda>message. on_screen (\<lambda>s. s\<lparr>os_lastError := Some message\<rparr>))\<rparr>"

text \<open>
  Nothing asks for another pass while this one runs to its end, so one iteration of the loop is
  enough (\<open>store_loop_once\<close>).
\<close>

definition sync :: "'n api \<Rightarrow> 'n pos \<Rightarrow> 'n pos" where
  "sync api c =
     (case os_activeTerminalId (screen_of c) of
        None \<Rightarrow> c
      | Some terminalId \<Rightarrow>
          (case run 1 False (store_deps api) terminalId c of
             None \<Rightarrow> c
           | Some (_, c') \<Rightarrow> c'))"

section \<open>Recording an intent\<close>

definition stage :: "pending_row \<Rightarrow> 'n pos \<Rightarrow> bool option \<times> 'n pos" where
  "stage identity c =
     (if Some (pn_terminalId identity) \<noteq> os_activeTerminalId (screen_of c)
      then (None, on_screen (\<lambda>s. s\<lparr>os_lastError :=
              Some (''That mutation belongs to '' @ pn_terminalId identity @ ''.'')\<rparr>) c)
      else (let (stored, store) = savePending (cl_now c) (identity\<lparr>pn_status := PENDING\<rparr>) (cl_store c)
            in (Some stored, refreshQueue (c\<lparr>cl_store := store\<rparr>))))"

definition sendUnstored :: "'n api \<Rightarrow> pending_row \<Rightarrow> 'n pos \<Rightarrow> 'n pos" where
  "sendUnstored api identity c =
     snd (attempt (store_deps api) (identity\<lparr>pn_createdAt := cl_now c, pn_status := PENDING\<rparr>) c)"

definition stageOrSend :: "'n api \<Rightarrow> pending_row \<Rightarrow> 'n pos \<Rightarrow> bool \<times> 'n pos" where
  "stageOrSend api identity c =
     (case stage identity c of
        (None, c') \<Rightarrow> (False, c')
      | (Some True, c') \<Rightarrow> (True, c')
      | (Some False, c') \<Rightarrow> (False, sendUnstored api identity c'))"

text \<open>An identity is a row that has not been stored yet: its status and its stamp come with the write.\<close>

definition identityFor :: "string \<Rightarrow> tenant \<Rightarrow> mutation_command \<Rightarrow> 'n pos \<Rightarrow> pending_row option \<times> 'n pos" where
  "identityFor terminalId restaurantId payload c =
     (case os_currentOrderId (screen_of c) of
        None \<Rightarrow> (None, c)
      | Some orderId \<Rightarrow>
          (let (mutationId, c') = randomUUID c in
           (Some \<lparr>pn_mutationId = mutationId, pn_restaurantId = restaurantId, pn_terminalId = terminalId,
                  pn_orderId = orderId, pn_baseVersion = nextBaseVersion (projected c),
                  pn_command = payload, pn_createdAt = 0, pn_status = PENDING\<rparr>, c')))"

section \<open>Reads\<close>

definition refetch :: "'n api \<Rightarrow> 'n pos \<Rightarrow> 'n pos" where
  "refetch api c =
     (let s = screen_of c; terminalId = os_activeTerminalId s in
      case os_currentOrderId s of
        None \<Rightarrow> c
      | Some i \<Rightarrow>
          (let w = cl_world c; (answer, n) = fetchOrder api i terminalId (w_tab w) (w_net w);
               c1 = c\<lparr>cl_world := w\<lparr>w_net := n\<rparr>\<rparr> in
           case answer of
             Inl message \<Rightarrow> on_screen (\<lambda>s. s\<lparr>os_readError := Some message\<rparr>) c1
           | Inr None \<Rightarrow> c1
           | Inr (Some snapshot) \<Rightarrow>
               (let c2 = on_screen (\<lambda>s. adopt snapshot (s\<lparr>os_readError := None\<rparr>)) c1 in
                case terminalId of
                  None \<Rightarrow> c2
                | Some t \<Rightarrow> on_store (saveOrder (cl_now c2) t snapshot) c2)))"

definition hydrate_read :: "string \<Rightarrow> 'n pos \<Rightarrow> terminal_state \<times> 'n pos" where
  "hydrate_read terminalId c =
     (let (restored, store) = readTerminalState terminalId (normalizeSyncing terminalId (cl_store c))
      in (restored, c\<lparr>cl_store := store\<rparr>))"

text \<open>\<open>None\<close> when the screen has moved on and nothing is written.\<close>

definition hydrate_install :: "nat \<Rightarrow> string \<Rightarrow> terminal_state \<Rightarrow> 'n pos \<Rightarrow> 'n pos option" where
  "hydrate_install mine terminalId restored c =
     (if mine \<noteq> os_generation (screen_of c) \<or> os_activeTerminalId (screen_of c) \<noteq> Some terminalId
      then None
      else Some (refreshQueue (on_screen
        (\<lambda>s. let s1 = (if os_currentOrderId s = None
                       then s\<lparr>os_currentOrderId := ts_currentOrderId restored\<rparr> else s) in
             case ts_order restored of
               None \<Rightarrow> s1
             | Some o' \<Rightarrow> if os_order s1 = None then adopt o' s1 else s1) c)))"

definition hydrate :: "'n api \<Rightarrow> string \<Rightarrow> 'n pos \<Rightarrow> 'n pos" where
  "hydrate api terminalId c =
     (let mine = os_generation (screen_of c); (restored, c1) = hydrate_read terminalId c in
      case hydrate_install mine terminalId restored c1 of
        None \<Rightarrow> c1
      | Some c2 \<Rightarrow> on_store pruneOrders (sync api (refetch api c2)))"

section \<open>Commands\<close>

text \<open>A serialized link answers whether there is a row to sync.\<close>

definition createOrder_link :: "'n api \<Rightarrow> string \<Rightarrow> tenant \<Rightarrow> string \<Rightarrow> uuid \<Rightarrow> 'n pos \<Rightarrow> bool \<times> 'n pos" where
  "createOrder_link api terminalId restaurantId tableNumber orderId c =
     (let c1 = on_screen (\<lambda>s. s\<lparr>os_order := None, os_conflict := None, os_currentOrderId := Some orderId\<rparr>) c;
          c2 = on_store (setCurrentOrder (cl_now c1) terminalId orderId) c1;
          (mutationId, c3) = randomUUID c2
      in stageOrSend api
           \<lparr>pn_mutationId = mutationId, pn_restaurantId = restaurantId, pn_terminalId = terminalId,
            pn_orderId = orderId, pn_baseVersion = 0, pn_command = CreateOrder tableNumber,
            pn_createdAt = 0, pn_status = PENDING\<rparr> c3)"

definition sync_if :: "'n api \<Rightarrow> bool \<times> 'n pos \<Rightarrow> 'n pos" where
  "sync_if api r = (case r of (staged, c) \<Rightarrow> if staged then sync api c else c)"

definition createOrder :: "'n api \<Rightarrow> string \<Rightarrow> tenant \<Rightarrow> string \<Rightarrow> 'n pos \<Rightarrow> 'n pos" where
  "createOrder api terminalId restaurantId tableNumber c =
     (let (orderId, c') = randomUUID c
      in sync_if api (createOrder_link api terminalId restaurantId tableNumber orderId c'))"

definition command_link ::
  "'n api \<Rightarrow> uuid option \<Rightarrow> string \<Rightarrow> tenant \<Rightarrow> ('n pos \<Rightarrow> mutation_command option) \<Rightarrow> 'n pos \<Rightarrow> bool \<times> 'n pos" where
  "command_link api intended terminalId restaurantId plan c =
     (if is_halted (screen_of c)
      then (False, on_screen (\<lambda>s. s\<lparr>os_lastError :=
              Some ''This order is halted on a conflict. Discard or rebase first.''\<rparr>) c)
      else if os_currentOrderId (screen_of c) \<noteq> intended
      then (False, on_screen (\<lambda>s. s\<lparr>os_lastError :=
              Some ''That action was for an order this screen has left; it was not sent.''\<rparr>) c)
      else case plan c of
        None \<Rightarrow> (False, c)
      | Some payload \<Rightarrow>
          (case identityFor terminalId restaurantId payload c of
             (None, c') \<Rightarrow> (False, c')
           | (Some identity, c') \<Rightarrow> stageOrSend api identity c'))"

definition command ::
  "'n api \<Rightarrow> string \<Rightarrow> tenant \<Rightarrow> ('n pos \<Rightarrow> mutation_command option) \<Rightarrow> 'n pos \<Rightarrow> 'n pos" where
  "command api terminalId restaurantId plan c =
     sync_if api (command_link api (os_currentOrderId (screen_of c)) terminalId restaurantId plan c)"

definition fixedCommand :: "'n api \<Rightarrow> string \<Rightarrow> tenant \<Rightarrow> mutation_command \<Rightarrow> 'n pos \<Rightarrow> 'n pos" where
  "fixedCommand api terminalId restaurantId payload = command api terminalId restaurantId (\<lambda>_. Some payload)"

definition addItem :: "'n api \<Rightarrow> string \<Rightarrow> tenant \<Rightarrow> string \<Rightarrow> int \<Rightarrow> 'n pos \<Rightarrow> 'n pos" where
  "addItem api t r productId q = fixedCommand api t r (AddItem productId q)"

definition removeItem :: "'n api \<Rightarrow> string \<Rightarrow> tenant \<Rightarrow> string \<Rightarrow> 'n pos \<Rightarrow> 'n pos" where
  "removeItem api t r productId = fixedCommand api t r (RemoveItem productId)"

definition changeQuantity :: "'n api \<Rightarrow> string \<Rightarrow> tenant \<Rightarrow> string \<Rightarrow> int \<Rightarrow> 'n pos \<Rightarrow> 'n pos" where
  "changeQuantity api t r productId q =
     (if q < 1 then removeItem api t r productId else fixedCommand api t r (ChangeQuantity productId q))"

definition step_plan :: "string \<Rightarrow> int \<Rightarrow> 'n pos \<Rightarrow> mutation_command option" where
  "step_plan productId delta c =
     (case Option.bind (projected c) (\<lambda>o'. held_line (snap_items o') productId) of
        None \<Rightarrow> None
      | Some held \<Rightarrow>
          (let next = item_quantity held + delta in
           Some (if next < 1 then RemoveItem productId else ChangeQuantity productId next)))"

definition stepQuantity :: "'n api \<Rightarrow> string \<Rightarrow> tenant \<Rightarrow> string \<Rightarrow> int \<Rightarrow> 'n pos \<Rightarrow> 'n pos" where
  "stepQuantity api t r productId delta = command api t r (step_plan productId delta)"

definition sendToKitchen :: "'n api \<Rightarrow> string \<Rightarrow> tenant \<Rightarrow> 'n pos \<Rightarrow> 'n pos" where
  "sendToKitchen api t r = fixedCommand api t r SendToKitchen"

definition pay :: "'n api \<Rightarrow> string \<Rightarrow> tenant \<Rightarrow> payment_method \<Rightarrow> 'n pos \<Rightarrow> 'n pos" where
  "pay api t r payMethod = fixedCommand api t r (Pay payMethod)"

definition cancel :: "'n api \<Rightarrow> string \<Rightarrow> tenant \<Rightarrow> string option \<Rightarrow> 'n pos \<Rightarrow> 'n pos" where
  "cancel api t r reason = fixedCommand api t r (Cancel reason)"

section \<open>Resolving a halt\<close>

definition queuedIdsFor :: "uuid \<Rightarrow> screen \<Rightarrow> uuid list" where
  "queuedIdsFor orderId s =
     map pn_mutationId (filter (\<lambda>row. pn_orderId row = orderId) (os_queue s))"

definition reportResolution ::
  "'n api \<Rightarrow> string \<Rightarrow> uuid \<Rightarrow> conflict_resolution \<Rightarrow> uuid list \<Rightarrow> 'n pos \<Rightarrow> 'n pos" where
  "reportResolution api terminalId orderId resolution held c =
     (let cleared = filter (\<lambda>m. m \<notin> set (queuedIdsFor orderId (screen_of c))) held; w = cl_world c in
      if length cleared = 0 then c
      else c\<lparr>cl_world := w\<lparr>w_net :=
               postConflictResolution api orderId terminalId resolution cleared (w_tab w) (w_net w)\<rparr>\<rparr>)"

definition discardHalted :: "'n api \<Rightarrow> 'n pos \<Rightarrow> 'n pos" where
  "discardHalted api c =
     (case (os_activeTerminalId (screen_of c), os_currentOrderId (screen_of c)) of
        (Some terminalId, Some orderId) \<Rightarrow>
          (let held = queuedIdsFor orderId (screen_of c);
               c1 = refreshQueue (on_store (discardOrderQueue terminalId orderId) c);
               c2 = on_screen (\<lambda>s. s\<lparr>os_conflict := None, os_lastError := None\<rparr>) c1
           in reportResolution api terminalId orderId DISCARDED held c2)
      | _ \<Rightarrow> c)"

text \<open>Enough fuel for the rebase: each round uses up a row of the queue or an entry of the list of storage faults.\<close>

definition rebase_fuel :: "local_store \<Rightarrow> nat" where
  "rebase_fuel s = Suc (length (ls_pending s) + length (ls_faults s))"

definition rebaseHalted :: "'n api \<Rightarrow> 'n pos \<Rightarrow> 'n pos option" where
  "rebaseHalted api c =
     (case (os_activeTerminalId (screen_of c), os_currentOrderId (screen_of c)) of
        (Some terminalId, Some orderId) \<Rightarrow>
          (let held = queuedIdsFor orderId (screen_of c);
               c1 = on_screen (\<lambda>s. s\<lparr>os_conflict := None\<rparr>) c in
           case rebase (rebase_fuel (cl_store c1)) (store_deps api) terminalId orderId c1 of
             None \<Rightarrow> None
           | Some (_, c2) \<Rightarrow>
               Some (reportResolution api terminalId orderId REBASED held (refreshQueue c2)))
      | _ \<Rightarrow> Some c)"

section \<open>Moving the screen\<close>

definition focusOrder_link :: "uuid \<Rightarrow> 'n pos \<Rightarrow> bool \<times> 'n pos" where
  "focusOrder_link orderId c =
     (case os_activeTerminalId (screen_of c) of
        None \<Rightarrow> (False, c)
      | Some terminalId \<Rightarrow>
          if Some orderId = os_currentOrderId (screen_of c) then (False, c)
          else (let c1 = on_screen (\<lambda>s. s\<lparr>os_order := None, os_conflict := None, os_readError := None,
                                        os_currentOrderId := Some orderId\<rparr>) c;
                    c2 = on_store (setCurrentOrder (cl_now c1) terminalId orderId) c1;
                    (cached, store) = readOrder orderId (cl_store c2);
                    c3 = c2\<lparr>cl_store := store\<rparr>
                in (True,
                    (case cached of
                       None \<Rightarrow> c3
                     | Some snapshot \<Rightarrow>
                         if os_order (screen_of c3) = None \<and> os_currentOrderId (screen_of c3) = Some orderId
                         then on_screen (adopt snapshot) c3 else c3))))"

definition focusOrder :: "'n api \<Rightarrow> uuid \<Rightarrow> 'n pos \<Rightarrow> 'n pos" where
  "focusOrder api orderId c =
     (if os_activeTerminalId (screen_of c) = None \<or> Some orderId = os_currentOrderId (screen_of c) then c
      else case focusOrder_link orderId c of (moved, c') \<Rightarrow> if moved then refetch api c' else c')"

definition detach :: "'n pos \<Rightarrow> 'n pos" where
  "detach =
     on_screen (\<lambda>s. s\<lparr>os_order := None, os_currentOrderId := None, os_conflict := None,
                      os_lastError := None, os_readError := None\<rparr>)"

definition clear_order :: "'n pos \<Rightarrow> 'n pos" where
  "clear_order c =
     (let c1 = on_screen (\<lambda>s. s\<lparr>os_order := None, os_currentOrderId := None, os_conflict := None,
                                os_lastError := None, os_readError := None\<rparr>) c in
      case os_activeTerminalId (screen_of c1) of
        None \<Rightarrow> c1
      | Some terminalId \<Rightarrow> on_store (clearCurrentOrder (cl_now c1) terminalId) c1)"

end
