(* ===== verification/Order_Store_Sync.thy ===== *)
theory Order_Store_Sync
  imports Order_Store
begin

text \<open>
  The contract between the browser and the server, as a locale (\<open>mutation_server\<close>), and the sync
  engine over it: the order store provides what the engine relies on, so that its lemmas hold of
  every pass a screen runs.
\<close>

section \<open>What an operation leaves alone\<close>

lemma on_screen_simps [simp]:
  "cl_store (on_screen f c) = cl_store c" "cl_requested (on_screen f c) = cl_requested c"
  "cl_now (on_screen f c) = cl_now c" "screen_of (on_screen f c) = f (screen_of c)"
  "w_net (cl_world (on_screen f c)) = w_net (cl_world c)"
  "w_sent (cl_world (on_screen f c)) = w_sent (cl_world c)"
  "w_tab (cl_world (on_screen f c)) = w_tab (cl_world c)"
  "w_menu (cl_world (on_screen f c)) = w_menu (cl_world c)"
  by (simp_all add: on_screen_def)

lemma refreshQueue_frame [simp]:
  "cl_requested (refreshQueue c) = cl_requested c"
  "w_net (cl_world (refreshQueue c)) = w_net (cl_world c)"
  "w_sent (cl_world (refreshQueue c)) = w_sent (cl_world c)"
  "ls_pending (cl_store (refreshQueue c)) = ls_pending (cl_store c)"
  by (simp_all add: refreshQueue_def Let_def case_prod_unfold split: option.splits)

lemma refreshQueue_works: "storage_works c \<Longrightarrow> storage_works (refreshQueue c)"
  by (auto simp: refreshQueue_def storage_works_def readQueue_works split: option.splits)

lemma on_canonical_works: "storage_works c \<Longrightarrow> storage_works (on_canonical t snap c)"
proof -
  assume "storage_works c"
  then have "storage_works (on_store (cacheOrder (cl_now c) t snap) c)" by simp
  then show ?thesis by (simp add: on_canonical_def Let_def storage_works_def)
qed

lemma on_canonical_frame [simp]:
  "cl_requested (on_canonical t snap c) = cl_requested c"
  "w_net (cl_world (on_canonical t snap c)) = w_net (cl_world c)"
  "w_sent (cl_world (on_canonical t snap c)) = w_sent (cl_world c)"
  "ls_pending (cl_store (on_canonical t snap c)) = ls_pending (cl_store c)"
  by (simp_all add: on_canonical_def Let_def)

lemma on_halt_frame [simp]:
  "cl_requested (on_halt row cause c) = cl_requested c"
  "w_net (cl_world (on_halt row cause c)) = w_net (cl_world c)"
  "w_sent (cl_world (on_halt row cause c)) = w_sent (cl_world c)"
  "cl_store (on_halt row cause c) = cl_store c"
  by (simp_all add: on_halt_def)

lemma randomUUID_frame [simp]:
  "cl_store (snd (randomUUID c)) = cl_store c"
  "cl_requested (snd (randomUUID c)) = cl_requested c"
  "w_net (cl_world (snd (randomUUID c))) = w_net (cl_world c)"
  "w_sent (cl_world (snd (randomUUID c))) = w_sent (cl_world c)"
  by (simp_all add: randomUUID_def Let_def)

lemma post_on_wire_cases:
  assumes "post_on_wire api i r c = (result, c')"
  shows "cl_store c' = cl_store c \<and> cl_requested c' = cl_requested c
    \<and> w_sent (cl_world c') = w_sent (cl_world c) @ [(i, r)]
    \<and> (\<exists>t'. postMutation (api_post api) i r (w_tab (cl_world c), w_net (cl_world c)) = (result, t', w_net (cl_world c')))"
  using assms by (auto simp: post_on_wire_def Let_def split: prod.splits)

lemma post_on_wire_store [simp]: "cl_store (snd (post_on_wire api i r c)) = cl_store c"
  by (simp add: post_on_wire_def Let_def case_prod_unfold)

lemma deps_simps [simp]:
  "post (store_deps api) = post_on_wire api" "newMutationId (store_deps api) = randomUUID"
  "onCanonical (store_deps api) = on_canonical" "onHalt (store_deps api) = on_halt"
  "onQueueChanged (store_deps api) = refreshQueue"
  "canonicalVersion (store_deps api) = canonical_version"
  "onTransportError (store_deps api) message = on_screen (\<lambda>s. s\<lparr>os_lastError := Some message\<rparr>)"
  by (simp_all add: store_deps_def)

section \<open>The contract with the server\<close>

text \<open>
  \<open>known m\<close>: the server has a record of the mutation. An accepting answer means that it has one, and no
  request makes it forget.
\<close>

locale mutation_server =
  fixes api :: "'n api" and known :: "uuid \<Rightarrow> 'n \<Rightarrow> bool"
  assumes answered_known:
      "api_post api i r n = (Body response, n') \<Longrightarrow> accepted response \<Longrightarrow> known (mr_mutationId r) n'"
    and known_stays: "known m n \<Longrightarrow> known m (snd (api_post api i r n))"
    and read_stays: "known m n \<Longrightarrow> known m (snd (api_read api i n))"
    and report_stays: "known m n \<Longrightarrow> known m (api_resolve api i t resolution ms n)"
begin

lemma postMutationTo_known:
  "postMutationTo (api_post api) i r t n = (Answered response, n') \<Longrightarrow> accepted response \<Longrightarrow> known (mr_mutationId r) n'"
  using answered_known [of i r n]
  by (auto simp: postMutationTo_def split: if_splits prod.splits fetch_result.splits)

lemma postMutationTo_stays: "known m n \<Longrightarrow> known m (snd (postMutationTo (api_post api) i r t n))"
  using known_stays [of m n i r]
  by (auto simp: postMutationTo_def split: prod.splits fetch_result.splits)

lemma shadow_stays: "known m (snd s) \<Longrightarrow> known m (snd (shadow (api_post api) control i r s))"
proof -
  assume k: "known m (snd s)"
  obtain t n where s: "s = (t, n)" by (cases s)
  obtain result n' where p: "postMutationTo (api_post api) i r t n = (result, n')" by fastforce
  then have "known m n'" using postMutationTo_stays [of m n i r t] k s by simp
  then show ?thesis by (simp add: shadow_def s p split: post_result.splits)
qed

lemma shadows_stay: "known m (snd s) \<Longrightarrow> known m (snd (fireMutationShadows (api_post api) i r s))"
  by (simp add: fireMutationShadows_def Let_def shadow_stays)

lemma postMutation_stays: "known m n \<Longrightarrow> known m (snd (snd (postMutation (api_post api) i r (t, n))))"
proof -
  assume k: "known m n"
  obtain out spend where a: "applyVersionConflictArm r t = (out, spend)" by fastforce
  obtain result n' where p: "postMutationTo (api_post api) i out t n = (result, n')" by fastforce
  then have n': "known m n'" using postMutationTo_stays [OF k, of i out t] by simp
  then have "known m (snd (fireMutationShadows (api_post api) i out (spend t, n')))" by (intro shadows_stay) simp
  with n' show ?thesis
    by (simp add: postMutation_def a p split: post_result.splits mutation_response.splits)
qed

lemma postMutation_known:
  assumes "postMutation (api_post api) i r (t, n) = (Answered response, t', n')" and "accepted response"
  shows "known (mr_mutationId r) n'"
proof -
  obtain out spend where a: "applyVersionConflictArm r t = (out, spend)" by fastforce
  have id: "mr_mutationId out = mr_mutationId r"
    using applyVersionConflictArm_request [of r t] by (auto simp: a)
  obtain result n1 where p: "postMutationTo (api_post api) i out t n = (result, n1)" by fastforce
  from assms(1) have res: "result = Answered response"
    using postMutation_result [of "api_post api" i r t n] by (simp add: a p)
  have k: "known (mr_mutationId r) n1"
    using postMutationTo_known [OF p [unfolded res] assms(2)] by (simp add: id)
  then have "known (mr_mutationId r) (snd (fireMutationShadows (api_post api) i out (spend t, n1)))"
    by (intro shadows_stay) simp
  with k assms(1) show ?thesis
    by (auto simp: postMutation_def a p res split: mutation_response.splits)
qed

end

section \<open>The engine on the order store\<close>

definition settled_at :: "(uuid \<Rightarrow> 'n \<Rightarrow> bool) \<Rightarrow> uuid \<Rightarrow> 'n pos \<Rightarrow> bool" where
  "settled_at known m c \<longleftrightarrow> known m (w_net (cl_world c))"

definition sent_from :: "'n pos \<Rightarrow> (uuid \<times> mutation_request) list" where
  "sent_from c = w_sent (cl_world c)"

lemma queued_pending: "ls_pending (cl_store c') = ls_pending (cl_store c) \<Longrightarrow> queued c' = queued c"
  by (simp add: queued_def)

sublocale mutation_server \<subseteq> store: working_deps "store_deps api" "settled_at known" sent_from
proof (unfold_locales, goal_cases)
  case (1 i r c response c')
  then show ?case using post_on_wire_cases postMutation_known
    by (fastforce simp: settled_at_def)
next
  case (2 i r c result c' m)
  obtain t' where "postMutation (api_post api) i r (w_tab (cl_world c), w_net (cl_world c)) = (result, t', w_net (cl_world c'))"
    using post_on_wire_cases 2(1) by fastforce
  then show ?case
    using postMutation_stays [of m "w_net (cl_world c)" i r "w_tab (cl_world c)"] 2(2)
    by (simp add: settled_at_def)
next
  case (3 i r c result c')
  then show ?case by (auto simp: queued_def dest: post_on_wire_cases)
next
  case (4 i r c result c' m)
  then show ?case by (auto simp: queued_def dest: post_on_wire_cases)
next
  case (5 i r c result c')
  then show ?case by (auto simp: sent_from_def dest: post_on_wire_cases)
next
  case (16 c t snap)
  then show ?case by (simp add: on_canonical_works)
qed (simp_all add: quiet_def queued_def settled_at_def sent_from_def storage_works_def)


section \<open>Nothing asks for another pass during one\<close>

lemma attempt_requested: "cl_requested (snd (attempt (store_deps api) row c)) = cl_requested c"
proof -
  obtain result c2 where p: "post_on_wire api (pn_orderId row) (requestOf row)
      (on_store (setPendingStatus (pn_mutationId row) SYNCING) c) = (result, c2)" by fastforce
  then have "cl_requested c2 = cl_requested c" by (auto dest: post_on_wire_cases)
  then show ?thesis
    by (simp add: attempt_def p Let_def split: post_result.splits mutation_response.splits)
qed

lemma send_group_requested: "cl_requested (snd (send_group (store_deps api) rows c)) = cl_requested c"
proof (induction rows arbitrary: c)
  case (Cons row rows)
  obtain a c1 where "attempt (store_deps api) row c = (a, c1)" by fastforce
  moreover from this have "cl_requested c1 = cl_requested c" using attempt_requested [of api row c] by simp
  ultimately show ?case using Cons.IH by (cases a) simp_all
qed simp

lemma pass_groups_requested:
  "cl_requested (snd (pass_groups (store_deps api) groups outcome c)) = cl_requested c"
proof (induction groups arbitrary: c outcome)
  case (Cons grp groups)
  obtain stop c1 where g: "send_group (store_deps api) grp c = (stop, c1)" by fastforce
  then have "cl_requested c1 = cl_requested c" using send_group_requested [of api grp c] by simp
  with Cons.IH show ?case by (auto simp: g split: option.splits pass_outcome.splits)
qed simp

lemma loop_step_requested: "cl_requested (snd (loop_step (store_deps api) t c)) = None"
proof -
  have "cl_requested (snd (pass (store_deps api) t c')) = cl_requested c'" for c'
    by (simp add: pass_def case_prod_unfold Let_def pass_groups_requested)
  then show ?thesis by (simp add: loop_step_def case_prod_unfold Let_def)
qed

lemma store_loop_once: "loop (Suc fuel) (store_deps api) t c = Some (loop_step (store_deps api) t c)"
  using loop_step_requested [of api t c] by (simp add: case_prod_unfold Let_def)

lemma sync_step:
  "sync api c =
     (case os_activeTerminalId (screen_of c) of
        None \<Rightarrow> c | Some t \<Rightarrow> snd (loop_step (store_deps api) t c))"
  using store_loop_once [of 0 api]
  by (simp add: sync_def run_def case_prod_unfold del: loop.simps split: option.splits)

section \<open>The ids a client draws\<close>

text \<open>What \<open>crypto.randomUUID()\<close> promises: the ids still to be drawn are pairwise distinct and none is in the queue.\<close>

definition new_ids :: "'n pos \<Rightarrow> bool" where
  "new_ids c \<longleftrightarrow>
     (\<forall>k \<ge> w_drawn (cl_world c). w_uuid (cl_world c) k \<notin> queued c)
     \<and> inj_on (w_uuid (cl_world c)) {w_drawn (cl_world c)..}"

definition drawn_ids :: "'n pos \<Rightarrow> 'n pos \<Rightarrow> uuid set" where
  "drawn_ids c c' = w_uuid (cl_world c) ` {w_drawn (cl_world c)..<w_drawn (cl_world c')}"

section \<open>Everything an operator does\<close>

text \<open>A reload of the tab keeps what is on the device and what is behind the network; the store and the switches are as the modules start them.\<close>

definition new_screen :: screen where
  "new_screen =
     \<lparr>os_order = None, os_currentOrderId = None, os_conflict = None, os_lastError = None, os_readError = None, os_queue = [],
      os_activeTerminalId = None, os_generation = 0\<rparr>"

definition new_tab :: tab where
  "new_tab = \<lparr>tab_offlineTerminals = [], tab_arms = (\<lambda>_. False), tab_latches = (\<lambda>_. False), tab_effects = []\<rparr>"

definition reload :: "'n pos \<Rightarrow> 'n pos" where
  "reload c = c\<lparr>cl_requested := None, cl_world := (cl_world c)\<lparr>w_screen := new_screen, w_tab := new_tab\<rparr>\<rparr>"

definition on_tab :: "(tab \<Rightarrow> tab) \<Rightarrow> 'n pos \<Rightarrow> 'n pos" where
  "on_tab f c = c\<lparr>cl_world := (cl_world c)\<lparr>w_tab := f (w_tab (cl_world c))\<rparr>\<rparr>"


text \<open>
  What happens at a till, with the switches of \<open>/debug\<close>, the passing of time and a reload of the tab between two operations. By the two resolutions of a halt, \<open>Discard\<close> and \<open>Rebase\<close>, a human decides to drop or to replace
  intents. A rebase returns (\<open>rebaseHalted_returns\<close>), so the state it leaves is the one of its result.
\<close>

datatype till_action =
    Use string
  | Release
  | Hydrate string
  | Refetch
  | Sync
  | NewOrder string tenant string
  | Do string tenant mutation_command
  | Step string tenant string int
  | Focus uuid
  | Clear
  | Detach
  | ToggleOffline string
  | ToggleArm mutation_arm
  | Later millis
  | Reload
  | Discard
  | Rebase

definition resolves :: "till_action \<Rightarrow> bool" where
  "resolves a \<longleftrightarrow> a = Discard \<or> a = Rebase"

fun act :: "'n api \<Rightarrow> till_action \<Rightarrow> 'n pos \<Rightarrow> 'n pos" where
  "act api (Use t) c = useTerminal t c"
| "act api Release c = releaseTerminal c"
| "act api (Hydrate t) c = hydrate api t c"
| "act api Refetch c = refetch api c"
| "act api Sync c = sync api c"
| "act api (NewOrder t r tableNumber) c = createOrder api t r tableNumber c"
| "act api (Do t r payload) c = fixedCommand api t r payload c"
| "act api (Step t r p delta) c = stepQuantity api t r p delta c"
| "act api (Focus i) c = focusOrder api i c"
| "act api Clear c = clear_order c"
| "act api Detach c = detach c"
| "act api (ToggleOffline t) c = on_tab (\<lambda>tab. snd (toggleTerminalOffline t tab)) c"
| "act api (ToggleArm arm) c = on_tab (\<lambda>tab. snd (toggleArm arm tab)) c"
| "act api (Later now) c = c\<lparr>cl_now := now\<rparr>"
| "act api Reload c = reload c"
| "act api Discard c = discardHalted api c"
| "act api Rebase c = (case rebaseHalted api c of None \<Rightarrow> c | Some c' \<Rightarrow> c')"

lemma safe_cong:
  "queued c \<subseteq> queued c' \<Longrightarrow> w_net (cl_world c') = w_net (cl_world c) \<Longrightarrow>
     safe (settled_at known) m c \<Longrightarrow> safe (settled_at known) m c'"
  by (auto simp: safe_def settled_at_def)

lemma queued_cong: "ls_pending (cl_store c') = ls_pending (cl_store c) \<Longrightarrow> queued c \<subseteq> queued c'"
  by (simp add: queued_def)

lemma safe_on_screen [simp]: "safe (settled_at known) m (on_screen f c) = safe (settled_at known) m c"
  by (simp add: safe_def settled_at_def queued_def)

lemma safe_on_store [simp]:
  "ls_pending (f (cl_store c)) = ls_pending (cl_store c) \<Longrightarrow>
     safe (settled_at known) m (on_store f c) = safe (settled_at known) m c"
  by (simp add: safe_def settled_at_def queued_def)

lemma safe_randomUUID [simp]: "safe (settled_at known) m (snd (randomUUID c)) = safe (settled_at known) m c"
  by (simp add: safe_def settled_at_def queued_def)

lemma safe_between [simp]:
  "safe (settled_at known) m (on_tab g c) = safe (settled_at known) m c"
  "safe (settled_at known) m (reload c) = safe (settled_at known) m c"
  "safe (settled_at known) m (c\<lparr>cl_now := now\<rparr>) = safe (settled_at known) m c"
  by (simp_all add: safe_def settled_at_def queued_def on_tab_def reload_def)

lemma safe_refreshQueue [simp]: "safe (settled_at known) m (refreshQueue c) = safe (settled_at known) m c"
  by (simp add: safe_def settled_at_def queued_def)

lemma stage_safe: "safe (settled_at known) m c \<Longrightarrow> safe (settled_at known) m (snd (stage identity c))"
proof (rule safe_cong [where c = c], goal_cases)
  case 1
  let ?row = "identity\<lparr>pn_status := PENDING\<rparr>"
  have "pn_mutationId ` set (ls_pending (cl_store c)) \<subseteq>
      pn_mutationId ` set (ls_pending (snd (savePending (cl_now c) ?row (cl_store c))))"
    using savePending_cases [of "cl_now c" ?row "cl_store c"] by (auto simp: stored_pending_def)
  then show ?case by (simp add: stage_def case_prod_unfold Let_def queued_def)
qed (simp_all add: stage_def case_prod_unfold Let_def)

lemma normalizeSyncing_queued [simp]: "queued (on_store (normalizeSyncing t) c) = queued c"
  using normalizeSyncing_pending [of t "cl_store c"]
  by (elim disjE) (simp_all add: queued_def ids_update_where)

context mutation_server
begin

lemma sync_safe:
  "safe (settled_at known) m c \<Longrightarrow> safe (settled_at known) m (sync api c)"
  by (simp add: sync_step store.loop_step_safe split: option.splits)

lemma stageOrSend_safe:
  "safe (settled_at known) m c \<Longrightarrow> safe (settled_at known) m (snd (stageOrSend api identity c))"
proof -
  assume "safe (settled_at known) m c"
  then have s: "safe (settled_at known) m (snd (stage identity c))" by (rule stage_safe)
  obtain r c1 where st: "stage identity c = (r, c1)" by fastforce
  obtain a c2 where at: "attempt (store_deps api) (identity\<lparr>pn_createdAt := cl_now c1, pn_status := PENDING\<rparr>) c1 = (a, c2)"
    by fastforce
  have "safe (settled_at known) m c2" using store.attempt_safe [OF at] s st by simp
  then show ?thesis using s at by (simp add: stageOrSend_def st sendUnstored_def split: option.splits bool.splits)
qed

lemma sync_if_safe:
  "safe (settled_at known) m (snd r) \<Longrightarrow> safe (settled_at known) m (sync_if api r)"
  by (simp add: sync_if_def case_prod_unfold sync_safe)

lemma fetchOrder_stays: "known m n \<Longrightarrow> known m (snd (fetchOrder api i t tab n))"
  using read_stays [of m n i]
  by (auto simp: fetchOrder_def split: prod.splits read_result.splits)

lemma refetch_safe:
  assumes "safe (settled_at known) m c"
  shows "safe (settled_at known) m (refetch api c)"
proof (cases "os_currentOrderId (screen_of c)")
  case None
  then show ?thesis using assms by (simp add: refetch_def)
next
  case (Some i)
  let ?w = "cl_world c" and ?t = "os_activeTerminalId (screen_of c)"
  obtain answer n where f: "fetchOrder api i ?t (w_tab ?w) (w_net ?w) = (answer, n)" by fastforce
  have "safe (settled_at known) m (c\<lparr>cl_world := ?w\<lparr>w_net := n\<rparr>\<rparr>)"
    using assms fetchOrder_stays [of m "w_net ?w" i ?t "w_tab ?w"] f
    by (auto simp: safe_def settled_at_def queued_def)
  then show ?thesis
    by (simp add: refetch_def Some f Let_def split: sum.splits option.splits)
qed

lemma hydrate_safe:
  assumes "safe (settled_at known) m c"
  shows "safe (settled_at known) m (hydrate api t c)"
proof -
  obtain restored c1 where r: "hydrate_read t c = (restored, c1)" by fastforce
  have "queued c1 = queued (on_store (normalizeSyncing t) c)" "cl_world c1 = cl_world c"
    using r by (auto simp: hydrate_read_def queued_def case_prod_unfold Let_def)
  then have "safe (settled_at known) m c1" using assms by (simp add: safe_def settled_at_def)
  moreover from this have "safe (settled_at known) m c2" if "hydrate_install k t restored c1 = Some c2" for k c2
    using that by (auto simp: hydrate_install_def split: if_splits)
  ultimately show ?thesis
    by (simp add: hydrate_def r refetch_safe sync_safe split: option.splits)
qed

lemma command_link_safe:
  assumes "safe (settled_at known) m c"
  shows "safe (settled_at known) m (snd (command_link api i t r plan c))"
proof -
  have "safe (settled_at known) m (snd (identityFor t r payload c))" for payload
    using assms by (simp add: identityFor_def case_prod_unfold Let_def split: option.splits)
  then have "safe (settled_at known) m c1" if "identityFor t r payload c = (idn, c1)" for payload idn c1
    using that by (metis snd_conv)
  then show ?thesis
    using assms by (auto simp: command_link_def split: option.splits prod.splits intro: stageOrSend_safe)
qed

lemma command_safe:
  "safe (settled_at known) m c \<Longrightarrow> safe (settled_at known) m (command api t r plan c)"
  by (simp add: command_def sync_if_safe command_link_safe)

lemma createOrder_safe:
  "safe (settled_at known) m c \<Longrightarrow> safe (settled_at known) m (createOrder api t r tableNumber c)"
  by (simp add: createOrder_def createOrder_link_def case_prod_unfold Let_def sync_if_safe stageOrSend_safe)

lemma focusOrder_safe:
  assumes "safe (settled_at known) m c"
  shows "safe (settled_at known) m (focusOrder api i c)"
proof -
  have "safe (settled_at known) m (snd (focusOrder_link i c))"
    using assms
    by (auto simp: focusOrder_link_def case_prod_unfold Let_def safe_def settled_at_def queued_def
        split: option.splits)
  then show ?thesis using assms by (simp add: focusOrder_def case_prod_unfold refetch_safe)
qed

lemma act_safe: "\<not> resolves a \<Longrightarrow> safe (settled_at known) m c \<Longrightarrow> safe (settled_at known) m (act api a c)"
  by (cases a)
    (simp_all add: useTerminal_def releaseTerminal_def hydrate_safe refetch_safe sync_safe createOrder_safe
      fixedCommand_def stepQuantity_def command_safe focusOrder_safe clear_order_def detach_def resolves_def Let_def
      split: option.splits)

lemma acts_safe:
  "\<forall>a \<in> set acts. \<not> resolves a \<Longrightarrow> safe (settled_at known) m c \<Longrightarrow> safe (settled_at known) m (fold (act api) acts c)"
  by (induction acts arbitrary: c) (simp_all add: act_safe)

end

end
