(* ===== verification/Store_Rebase.thy ===== *)
theory Store_Rebase
  imports Order_Store_Sync
begin

text \<open>
  The rebase of a halted order on the order store. It ends if storage fails only finitely often, with the fuel \<open>rebase_fuel\<close>
  allows: a round for each row of the queue and each storage fault to come, and one more. No bound in the queue alone holds, and a
  storage that refuses deletions for ever, which the finite list of faults excludes, keeps the loop of the source going for ever. On a
  device whose storage works it re-issues every intent of the group once, in queue order, each under a fresh id and on the version
  the answer before it brought.
\<close>

section \<open>Termination\<close>

definition rebase_measure :: "'n pos \<Rightarrow> nat" where
  "rebase_measure c = length (ls_pending (cl_store c)) + length (ls_faults (cl_store c))"

text \<open>Every guarded call uses up the head of the script of faults.\<close>

lemma guarded_faults:
  assumes "\<And>s'. ls_faults (snd (op s')) = ls_faults s'"
  shows "ls_faults (snd (guarded what op fallback s)) = tl (ls_faults s)"
  by (cases "ls_faults s"; cases "hd (ls_faults s)") (simp_all add: guarded_def assms)

lemma engine_faults [simp]:
  "ls_faults (snd (readQueue t s)) = tl (ls_faults s)"
  "ls_faults (snd (reissue row m v s)) = tl (ls_faults s)"
  "ls_faults (setPendingStatus m st s) = tl (ls_faults s)"
  "ls_faults (deletePending m s) = tl (ls_faults s)"
  "ls_faults (cacheOrder now t snap s) = tl (ls_faults s)"
  unfolding readQueue_def reissue_def setPendingStatus_def deletePending_def cacheOrder_def Let_def
  by (rule guarded_faults; simp add: putSnapshotIfNewer_def)+

lemma length_delete_where_le: "length (delete_where P rows) \<le> length rows"
  by (simp add: delete_where_def)

lemma length_delete_where_less: "r \<in> set rows \<Longrightarrow> P r \<Longrightarrow> length (delete_where P rows) < length rows"
  unfolding delete_where_def by (rule length_filter_less) simp_all

lemma delete_where_insort: "P x \<Longrightarrow> delete_where P (insort_key k x xs) = delete_where P xs"
  by (induction xs) auto

lemma length_put_row: "length (put_row key row rows) \<le> Suc (length rows)"
  using length_delete_where_le [of "\<lambda>r. key r = key row" rows] by (simp add: put_row_def)

lemma reissue_length:
  assumes "row \<in> set (ls_pending s)"
  shows "length (ls_pending (snd (reissue row m v s))) \<le> length (ls_pending s)"
proof -
  let ?put = "put_row pn_mutationId (reissued row m v) (ls_pending s)"
  let ?P = "\<lambda>r. pn_mutationId r = pn_mutationId row"
  have "\<exists>r \<in> set ?put. ?P r"
  proof (cases "m = pn_mutationId row")
    case True
    have "reissued row m v \<in> set ?put" by simp
    moreover have "?P (reissued row m v)" using True by (simp add: reissued_def)
    ultimately show ?thesis by blast
  next
    case False
    then have "row \<in> set ?put" using assms by (simp add: reissued_def)
    then show ?thesis by blast
  qed
  then obtain r where "r \<in> set ?put" "?P r" ..
  then have "length (delete_where ?P ?put) < length ?put" by (rule length_delete_where_less)
  then have "length (delete_where ?P ?put) \<le> length (ls_pending s)"
    using length_put_row [of pn_mutationId "reissued row m v" "ls_pending s"] by linarith
  then show ?thesis using reissue_cases [of row m v s] by (elim disjE) simp_all
qed

lemma setPendingStatus_length [simp]: "length (ls_pending (setPendingStatus m st s)) = length (ls_pending s)"
  using setPendingStatus_pending [of m st s] by (elim disjE) simp_all

lemma on_canonical_store: "cl_store (on_canonical t snap c) = cacheOrder (cl_now c) t snap (cl_store c)"
  by (simp add: on_canonical_def Let_def)

text \<open>The state of the database after an attempt that was applied.\<close>

lemma attempt_applied_store:
  assumes "attempt (store_deps api) row c = (AttemptApplied order, c')"
  shows "\<exists>snap now. cl_store c' = deletePending (pn_mutationId row)
     (cacheOrder now (pn_terminalId row) snap (setPendingStatus (pn_mutationId row) SYNCING (cl_store c)))"
proof -
  obtain result c2 where p: "post_on_wire api (pn_orderId row) (requestOf row)
      (on_store (setPendingStatus (pn_mutationId row) SYNCING) c) = (result, c2)" by fastforce
  have s: "cl_store c2 = setPendingStatus (pn_mutationId row) SYNCING (cl_store c)"
    using post_on_wire_cases [OF p] by simp
  show ?thesis
    using assms p s
    by (auto simp: attempt_def on_canonical_store split: post_result.splits mutation_response.splits if_splits) blast+
qed

lemma attempt_applied_measure:
  assumes "attempt (store_deps api) row c = (AttemptApplied order, c')"
  shows "rebase_measure c' \<le> rebase_measure c"
    and "storage_works c \<Longrightarrow> pn_mutationId row \<in> queued c \<Longrightarrow> rebase_measure c' < rebase_measure c"
proof -
  obtain snap now where s: "cl_store c' = deletePending (pn_mutationId row)
     (cacheOrder now (pn_terminalId row) snap (setPendingStatus (pn_mutationId row) SYNCING (cl_store c)))"
    using attempt_applied_store [OF assms] by blast
  let ?s = "cacheOrder now (pn_terminalId row) snap (setPendingStatus (pn_mutationId row) SYNCING (cl_store c))"
  have "length (ls_pending (deletePending (pn_mutationId row) ?s)) \<le> length (ls_pending ?s)"
    using deletePending_pending [of "pn_mutationId row" ?s]
      length_delete_where_le [of _ "ls_pending ?s"] by (elim disjE) simp_all
  then show "rebase_measure c' \<le> rebase_measure c" by (simp add: s rebase_measure_def)
  assume w: "storage_works c" and q: "pn_mutationId row \<in> queued c"
  have w': "ls_faults ?s = []" using w by (simp add: storage_works_def)
  have "pn_mutationId row \<in> pn_mutationId ` set (ls_pending ?s)"
    using q queued_setPendingStatus [of "pn_mutationId row" SYNCING c] by (simp add: queued_def)
  then have "length (ls_pending (deletePending (pn_mutationId row) ?s)) < length (ls_pending ?s)"
    using w' length_delete_where_less [of _ "ls_pending ?s" "\<lambda>r. pn_mutationId r = pn_mutationId row"]
    by (auto simp: deletePending_def)
  then show "rebase_measure c' < rebase_measure c" using w by (simp add: s rebase_measure_def storage_works_def)
qed

text \<open>One round of the loop.\<close>

lemma rebase_round:
  assumes r: "readQueue t (cl_store c) = (rows, s)" and h: "filter (\<lambda>r. pn_orderId r = i) rows = head # rest"
    and id: "newMutationId (store_deps api) (c\<lparr>cl_store := s\<rparr>) = (m, c1)"
    and re: "reissue head m v (cl_store c1) = (Some row, s2)"
    and at: "attempt (store_deps api) row (c1\<lparr>cl_store := s2\<rparr>) = (AttemptApplied snap, c3)"
  shows "rebase_measure c3 < rebase_measure c"
proof -
  have c1: "cl_store c1 = s" using id randomUUID_frame(1) [of "c\<lparr>cl_store := s\<rparr>"] by simp
  have s: "ls_pending s = ls_pending (cl_store c)" "ls_faults s = tl (ls_faults (cl_store c))"
    using r pending_reads(3) [of t "cl_store c"] engine_faults(1) [of t "cl_store c"] by simp_all
  have "head \<in> set rows" using h by (metis list.set_intros(1) mem_Collect_eq set_filter)
  moreover have "set rows \<subseteq> set (ls_pending (cl_store c))"
    using r by (cases rule: guarded_cases [of "''Reading the queue''" "\<lambda>s. (terminal_queue t (ls_pending s), s)" "[]" "cl_store c"])
      (auto simp: readQueue_def)
  ultimately have head: "head \<in> set (ls_pending s)" using s by auto
  have len: "length (ls_pending s2) \<le> length (ls_pending s)" and f2: "ls_faults s2 = tl (ls_faults s)"
    using reissue_length [OF head, of m v] engine_faults(2) [of head m v s] re c1
    by (simp_all del: engine_faults(2))
  show ?thesis
  proof (cases "ls_faults (cl_store c)")
    case (Cons f fs)
    have "rebase_measure c3 \<le> rebase_measure (c1\<lparr>cl_store := s2\<rparr>)" by (rule attempt_applied_measure(1) [OF at])
    with len f2 s Cons show ?thesis by (simp add: rebase_measure_def)
  next
    case Nil
    have row: "row = reissued head m v" "ls_pending s2 =
        delete_where (\<lambda>r. pn_mutationId r = pn_mutationId head) (put_row pn_mutationId row (ls_pending s))"
      using re c1 reissue_cases [of head m v s] by auto
    have works: "storage_works (c1\<lparr>cl_store := s2\<rparr>)" using f2 s Nil by (simp add: storage_works_def)
    show ?thesis
    proof (cases "m = pn_mutationId head")
      case False
      moreover have "pn_mutationId row = m" by (simp add: row(1) reissued_def)
      ultimately have "row \<in> set (ls_pending s2)" by (simp add: row(2))
      then have "pn_mutationId row \<in> queued (c1\<lparr>cl_store := s2\<rparr>)" by (simp add: queued_def)
      from attempt_applied_measure(2) [OF at works this] len f2 s Nil show ?thesis
        by (simp add: rebase_measure_def)
    next
      case True
      have "length (delete_where (\<lambda>r. pn_mutationId r = m) (put_row pn_mutationId row (ls_pending s)))
          = length (delete_where (\<lambda>r. pn_mutationId r = m) (ls_pending s))"
        using row(1) True
        by (simp add: put_row_def reissued_def delete_where_insort) (simp add: delete_where_def)
      also have "\<dots> < length (ls_pending s)" using head True by (intro length_delete_where_less) auto
      finally have "length (ls_pending s2) < length (ls_pending s)" by (simp add: row(2) True)
      moreover have "rebase_measure c3 \<le> rebase_measure (c1\<lparr>cl_store := s2\<rparr>)" by (rule attempt_applied_measure(1) [OF at])
      ultimately show ?thesis using f2 s Nil by (simp add: rebase_measure_def)
    qed
  qed
qed

lemma rebase_loop_returns:
  "rebase_measure c < fuel \<Longrightarrow> \<exists>r. rebase_loop fuel (store_deps api) t i version c = Some r"
proof (induction fuel arbitrary: version c)
  case (Suc fuel)
  obtain rows s where r: "readQueue t (cl_store c) = (rows, s)" by fastforce
  show ?case
  proof (cases "filter (\<lambda>r. pn_orderId r = i) rows")
    case Nil
    then show ?thesis by (simp add: r)
  next
    case (Cons head rest)
    obtain m c1 where id: "newMutationId (store_deps api) (c\<lparr>cl_store := s\<rparr>) = (m, c1)" by fastforce
    obtain answer s2 where re: "reissue head m (rebase_version head version) (cl_store c1) = (answer, s2)" by fastforce
    show ?thesis
    proof (cases answer)
      case None
      then show ?thesis using id re by (simp add: r Cons)
    next
      case (Some row)
      obtain a c3 where at: "attempt (store_deps api) row (c1\<lparr>cl_store := s2\<rparr>) = (a, c3)" by fastforce
      show ?thesis
      proof (cases a)
        case (AttemptApplied snap)
        have "rebase_measure c3 < rebase_measure c"
          using rebase_round [OF r Cons id re [unfolded Some] at [unfolded AttemptApplied]] .
        then obtain q where "rebase_loop fuel (store_deps api) t i (snap_version snap) c3 = Some q"
          using Suc.IH [of c3 "snap_version snap"] Suc.prems by auto
        then show ?thesis using id re Some at AttemptApplied by (simp add: r Cons)
      qed (use id re Some at in \<open>simp_all add: r Cons\<close>)
    qed
  qed
qed simp

text \<open>More fuel changes nothing once the loop has returned.\<close>

lemma rebase_loop_more_fuel:
  "rebase_loop fuel deps t i version c = Some r \<Longrightarrow> fuel \<le> fuel' \<Longrightarrow> rebase_loop fuel' deps t i version c = Some r"
proof (induction fuel arbitrary: fuel' version c)
  case (Suc fuel)
  then obtain fuel1 where f: "fuel' = Suc fuel1" "fuel \<le> fuel1" by (cases fuel') auto
  show ?case
    using Suc.prems(1) Suc.IH [OF _ f(2)]
    by (auto simp: f(1) Let_def split: prod.splits list.splits option.splits attempt.splits)
qed simp

lemma rebase_more_fuel:
  "rebase fuel deps t i c = Some r \<Longrightarrow> fuel \<le> fuel' \<Longrightarrow> rebase fuel' deps t i c = Some r"
  by (auto simp: rebase_def dest: rebase_loop_more_fuel)

lemma rebase_returns: "\<exists>r. rebase (rebase_fuel (cl_store c)) (store_deps api) t i c = Some r"
proof -
  have "rebase_measure c < rebase_fuel (cl_store c)" by (simp add: rebase_measure_def rebase_fuel_def)
  from rebase_loop_returns [OF this, of api t i "canonical_version i c"]
  show ?thesis by (auto simp: rebase_def)
qed

lemma rebaseHalted_returns: "\<exists>c'. rebaseHalted api c = Some c'"
  using rebase_returns [of "on_screen (\<lambda>s. s\<lparr>os_conflict := None\<rparr>) c" api]
  by (auto simp: rebaseHalted_def Let_def split: option.splits; metis option.distinct(1))

section \<open>Each intent once\<close>

text \<open>A supply of ids that are new to the queue.\<close>

definition fresh_supply :: "'n pos \<Rightarrow> bool" where
  "fresh_supply c \<longleftrightarrow>
     (\<forall>k \<ge> w_drawn (cl_world c). w_uuid (cl_world c) k \<notin> queued c)"

definition group_of :: "string \<Rightarrow> uuid \<Rightarrow> 'n pos \<Rightarrow> pending_row list" where
  "group_of t i c = filter (\<lambda>r. pn_orderId r = i) (terminal_queue t (ls_pending (cl_store c)))"

lemma reissued_and_deleted:
  assumes ok: "queue_ok rows" and head: "head \<in> set rows" and m: "m \<notin> pn_mutationId ` set rows"
  shows "delete_where (\<lambda>r. pn_mutationId r = m)
      (update_where (\<lambda>r. pn_mutationId r = m) (\<lambda>r. r\<lparr>pn_status := st\<rparr>)
        (delete_where (\<lambda>r. pn_mutationId r = pn_mutationId head) (put_row pn_mutationId (reissued head m v) rows)))
    = delete_where (\<lambda>r. pn_mutationId r = pn_mutationId head) rows" (is "?lhs = ?rhs")
proof (rule keyed_eqI)
  have k: "keyed pn_mutationId rows" using ok by (simp add: queue_ok_def)
  then show "keyed pn_mutationId ?lhs"
    by (intro keyed_delete_where keyed_update_where keyed_put_row) simp_all
  show "keyed pn_mutationId ?rhs" using k by (rule keyed_delete_where)
  have "x \<in> set ?lhs \<longleftrightarrow> x \<in> set ?rhs" for x
    using m by (auto simp: update_where_def reissued_def)
  then show "set ?lhs = set ?rhs" by blast
qed

lemma group_tail:
  assumes ok: "queue_ok (ls_pending (cl_store c))" and g: "group_of t i c = head # rest"
    and rows: "ls_pending (cl_store c') = delete_where (\<lambda>r. pn_mutationId r = pn_mutationId head) (ls_pending (cl_store c))"
  shows "group_of t i c' = rest"
proof -
  let ?q = "terminal_queue t (ls_pending (cl_store c))"
  have d: "distinct (map pn_mutationId (group_of t i c))"
    using ok by (simp add: group_of_def terminal_queue_def queue_ok_def keyed_def distinct_map_filter distinct_map_sort_key)
  have "group_of t i c' = delete_where (\<lambda>r. pn_mutationId r = pn_mutationId head) (group_of t i c)"
    by (simp only: group_of_def rows terminal_queue_delete) (simp add: delete_where_def conj_commute)
  also have "\<dots> = rest"
  proof -
    have "delete_where (\<lambda>r. pn_mutationId r = pn_mutationId head) rest = rest"
      using d g by (intro delete_where_none) (auto simp: image_iff)
    then show ?thesis by (simp add: g)
  qed
  finally show ?thesis .
qed

lemma on_canonical_draws [simp]:
  "w_uuid (cl_world (on_canonical t snap c)) = w_uuid (cl_world c)"
  "w_drawn (cl_world (on_canonical t snap c)) = w_drawn (cl_world c)"
  by (simp_all add: on_canonical_def Let_def on_screen_def)

lemma attempt_draws:
  "w_uuid (cl_world (snd (attempt (store_deps api) row c))) = w_uuid (cl_world c)
   \<and> w_drawn (cl_world (snd (attempt (store_deps api) row c))) = w_drawn (cl_world c)"
proof -
  obtain result c2 where p: "post_on_wire api (pn_orderId row) (requestOf row)
      (on_store (setPendingStatus (pn_mutationId row) SYNCING) c) = (result, c2)" by fastforce
  then have "w_uuid (cl_world c2) = w_uuid (cl_world c) \<and> w_drawn (cl_world c2) = w_drawn (cl_world c)"
    by (auto simp: post_on_wire_def Let_def split: prod.splits)
  then show ?thesis
    by (simp add: attempt_def p Let_def on_halt_def on_screen_def
        split: post_result.splits mutation_response.splits)
qed

text \<open>An attempt leaves the tab and the network as its request left them, and an applied one was answered with its snapshot.\<close>

definition applied_answer :: "post_result \<Rightarrow> order_snapshot option" where
  "applied_answer result =
     (case result of
        Answered (APPLIED snap _) \<Rightarrow> Some snap
      | Answered (ALREADY_APPLIED snap _) \<Rightarrow> Some snap
      | _ \<Rightarrow> None)"

lemma attempt_answer:
  assumes "attempt (store_deps api) row c = (a, c')"
  shows "\<exists>result. postMutation (api_post api) (pn_orderId row) (requestOf row) (w_tab (cl_world c), w_net (cl_world c))
        = (result, w_tab (cl_world c'), w_net (cl_world c'))
      \<and> (\<forall>snap. a = AttemptApplied snap \<longrightarrow> applied_answer result = Some snap)"
proof -
  obtain result c2 where p: "post_on_wire api (pn_orderId row) (requestOf row)
      (on_store (setPendingStatus (pn_mutationId row) SYNCING) c) = (result, c2)" by fastforce
  then have "postMutation (api_post api) (pn_orderId row) (requestOf row) (w_tab (cl_world c), w_net (cl_world c))
        = (result, w_tab (cl_world c2), w_net (cl_world c2))"
    by (auto simp: post_on_wire_def Let_def split: prod.splits)
  with assms p show ?thesis
    by (auto simp: attempt_def Let_def on_halt_def on_canonical_def on_screen_def applied_answer_def
        split: post_result.splits mutation_response.splits if_splits)
qed

lemma attempt_sends:
  "w_sent (cl_world (snd (attempt (store_deps api) row c))) =
     w_sent (cl_world c) @ [(pn_orderId row, requestOf row)]"
proof -
  obtain result c2 where p: "post_on_wire api (pn_orderId row) (requestOf row)
      (on_store (setPendingStatus (pn_mutationId row) SYNCING) c) = (result, c2)" by fastforce
  then have "w_sent (cl_world c2) = w_sent (cl_world c) @ [(pn_orderId row, requestOf row)]"
    by (auto dest: post_on_wire_cases)
  then show ?thesis
    by (simp add: attempt_def p Let_def split: post_result.splits mutation_response.splits)
qed

text \<open>One round on a working device: the state the request leaves from, and the queue after an applied one.\<close>

definition rebase_sends :: "pending_row \<Rightarrow> int \<Rightarrow> 'n pos \<Rightarrow> pending_row \<times> 'n pos" where
  "rebase_sends head v c =
     (let row = reissued head (w_uuid (cl_world c) (w_drawn (cl_world c))) v
      in (row, (snd (randomUUID c))\<lparr>cl_store := (cl_store c)\<lparr>ls_pending :=
             delete_where (\<lambda>r. pn_mutationId r = pn_mutationId head)
               (put_row pn_mutationId row (ls_pending (cl_store c)))\<rparr>\<rparr>))"

lemma rebase_loop_unfold:
  assumes w: "storage_works c" and g: "group_of t i c = head # rest"
    and s: "rebase_sends head (rebase_version head version) c = (row, c2)"
    and a: "attempt (store_deps api) row c2 = (a, c3)"
  shows "rebase_loop (Suc fuel) (store_deps api) t i version c =
    (case a of AttemptApplied snap \<Rightarrow> rebase_loop fuel (store_deps api) t i (snap_version snap) c3
             | AttemptHalted \<Rightarrow> Some (halted, c3)
             | AttemptOffline \<Rightarrow> Some (offline, c3)
             | AttemptFailed \<Rightarrow> Some (failed, c3))"
proof -
  have r: "readQueue t (cl_store c) = (terminal_queue t (ls_pending (cl_store c)), cl_store c)"
    using w by (simp add: storage_works_def readQueue_works)
  have c: "c\<lparr>cl_store := cl_store c\<rparr> = c" by simp
  let ?m = "w_uuid (cl_world c) (w_drawn (cl_world c))"
  have row: "row = reissued head ?m (rebase_version head version)"
    and c2: "c2 = (snd (randomUUID c))\<lparr>cl_store := (cl_store c)\<lparr>ls_pending :=
      delete_where (\<lambda>r. pn_mutationId r = pn_mutationId head)
        (put_row pn_mutationId (reissued head ?m (rebase_version head version)) (ls_pending (cl_store c)))\<rparr>\<rparr>"
    using s by (auto simp: rebase_sends_def Let_def)
  show ?thesis
    using a w g unfolding row c2
    by (simp add: r c group_of_def randomUUID_def Let_def reissue_def storage_works_def reissued_def
        split: attempt.splits)
qed

lemma rebase_sends_facts:
  assumes w: "storage_works c" and ok: "queue_ok (ls_pending (cl_store c))" and f: "fresh_supply c"
    and g: "group_of t i c = head # rest" and s: "rebase_sends head v c = (row, c2)"
    and a: "attempt (store_deps api) row c2 = (a, c3)"
  shows "w_sent (cl_world c3) = w_sent (cl_world c) @ [(i, requestOf row)]"
    and "mr_command (requestOf row) = pn_command head"
    and "mr_mutationId (requestOf row) = w_uuid (cl_world c) (w_drawn (cl_world c))"
    and "w_uuid (cl_world c3) = w_uuid (cl_world c)" and "w_drawn (cl_world c3) = Suc (w_drawn (cl_world c))"
    and "a = AttemptApplied snap \<Longrightarrow> storage_works c3 \<and> queue_ok (ls_pending (cl_store c3)) \<and> fresh_supply c3
           \<and> group_of t i c3 = rest \<and> queued c3 \<subseteq> queued c"
proof -
  let ?m = "w_uuid (cl_world c) (w_drawn (cl_world c))" and ?rows = "ls_pending (cl_store c)"
  have row: "row = reissued head ?m v" using s by (auto simp: rebase_sends_def Let_def)
  have c2: "c2 = (snd (randomUUID c))\<lparr>cl_store := (cl_store c)\<lparr>ls_pending :=
      delete_where (\<lambda>r. pn_mutationId r = pn_mutationId head) (put_row pn_mutationId row ?rows)\<rparr>\<rparr>"
    using s by (auto simp: rebase_sends_def Let_def)
  have hd: "head \<in> set (group_of t i c)" using g by simp
  then have head: "head \<in> set ?rows" "pn_orderId head = i" by (auto simp: group_of_def)
  show "w_sent (cl_world c3) = w_sent (cl_world c) @ [(i, requestOf row)]"
    using attempt_sends [of api row c2] a head(2) by (simp add: c2 row reissued_def)
  show "mr_command (requestOf row) = pn_command head" "mr_mutationId (requestOf row) = ?m"
    by (simp_all add: row reissued_def requestOf_def)
  show u: "w_uuid (cl_world c3) = w_uuid (cl_world c)" "w_drawn (cl_world c3) = Suc (w_drawn (cl_world c))"
    using attempt_draws [of api row c2] a by (simp_all add: c2 randomUUID_def Let_def)
  assume ap: "a = AttemptApplied snap"
  obtain sn now where st: "cl_store c3 = deletePending (pn_mutationId row)
     (cacheOrder now (pn_terminalId row) sn (setPendingStatus (pn_mutationId row) SYNCING (cl_store c2)))"
    using attempt_applied_store [OF a [unfolded ap]] by blast
  have w2: "ls_faults (cl_store c2) = []" using w by (simp add: c2 storage_works_def)
  have m: "?m \<notin> pn_mutationId ` set ?rows" using f by (simp add: fresh_supply_def queued_def)
  have id: "pn_mutationId row = ?m" by (simp add: row reissued_def)
  have pend: "ls_pending (cl_store c3) = delete_where (\<lambda>r. pn_mutationId r = pn_mutationId head) ?rows"
    using reissued_and_deleted [OF ok head(1) m, of SYNCING v, folded row, folded id] w2
    by (simp add: st deletePending_def setPendingStatus_def c2)
  have sub: "queued c3 \<subseteq> queued c" by (auto simp: queued_def pend)
  have "storage_works c3" using w2 by (simp add: storage_works_def st)
  moreover have "queue_ok (ls_pending (cl_store c3))" unfolding pend by (rule queue_ok_delete [OF ok])
  moreover have "fresh_supply c3" using f sub by (auto simp: fresh_supply_def u)
  ultimately show "storage_works c3 \<and> queue_ok (ls_pending (cl_store c3)) \<and> fresh_supply c3
      \<and> group_of t i c3 = rest \<and> queued c3 \<subseteq> queued c"
    using sub group_tail [OF ok g pend] by simp
qed

lemma rebase_loop_rounds:
  assumes "storage_works c" and "queue_ok (ls_pending (cl_store c))" and "fresh_supply c"
    and "length (group_of t i c) < fuel"
  shows "\<exists>r. rebase_loop fuel (store_deps api) t i version c = Some r"
  using assms
proof (induction fuel arbitrary: c version)
  case (Suc fuel)
  show ?case
  proof (cases "group_of t i c")
    case Nil
    have r: "readQueue t (cl_store c) = (terminal_queue t (ls_pending (cl_store c)), cl_store c)"
      using Suc.prems(1) by (simp add: storage_works_def readQueue_works)
    show ?thesis using Nil by (simp add: r group_of_def)
  next
    case (Cons head rest)
    obtain row c2 where s: "rebase_sends head (rebase_version head version) c = (row, c2)" by fastforce
    obtain a c3 where a: "attempt (store_deps api) row c2 = (a, c3)" by fastforce
    show ?thesis
    proof (cases a)
      case (AttemptApplied snap)
      note inv = rebase_sends_facts(6) [OF Suc.prems(1-3) Cons s a AttemptApplied]
      have "length (group_of t i c3) < fuel" using inv Cons Suc.prems(4) by simp
      then show ?thesis
        using Suc.IH [of c3 "snap_version snap"] inv
        by (simp add: rebase_loop_unfold [OF Suc.prems(1) Cons s a] AttemptApplied del: rebase_loop.simps)
    qed (simp_all add: rebase_loop_unfold [OF Suc.prems(1) Cons s a] del: rebase_loop.simps)
  qed
qed simp

text \<open>
  C23. A rebase comes to an end when the storage fails only finitely often, whatever the server answers. With \<open>n\<close> rows on the device and
  \<open>k\<close> calls of the storage still to come before its last fault, \<open>n + k + 1\<close> rounds are enough whichever writes fail, and with any more the
  result is the same. On a device whose storage works, one round for each row of the halted order and one to find it empty are
  enough. The queue alone bounds nothing (\<open>rebase_outlasts_the_queue\<close>): every deletion that fails after an applied
  request costs a round, and in the source a storage that refuses every deletion keeps the loop, which has no bound of its own, going for ever.
\<close>

theorem rebase_terminates:
  "(\<exists>outcome c'. \<forall>fuel. length (ls_pending (cl_store c)) + length (ls_faults (cl_store c)) < fuel \<longrightarrow>
       rebase fuel (store_deps api) t i c = Some (outcome, c'))
   \<and> (storage_works c \<and> queue_ok (ls_pending (cl_store c)) \<and> fresh_supply c \<longrightarrow>
       (\<exists>outcome c'. \<forall>fuel > length (group_of t i c). rebase fuel (store_deps api) t i c = Some (outcome, c')))"
proof (intro conjI impI)
  from rebase_returns [of c api t i] obtain r where r: "rebase (rebase_fuel (cl_store c)) (store_deps api) t i c = Some r" ..
  show "\<exists>outcome c'. \<forall>fuel. length (ls_pending (cl_store c)) + length (ls_faults (cl_store c)) < fuel \<longrightarrow>
      rebase fuel (store_deps api) t i c = Some (outcome, c')"
    using rebase_more_fuel [OF r] by (cases r) (auto simp: rebase_fuel_def)
next
  assume "storage_works c \<and> queue_ok (ls_pending (cl_store c)) \<and> fresh_supply c"
  then obtain r where "rebase_loop (Suc (length (group_of t i c))) (store_deps api) t i (canonical_version i c) c = Some r"
    using rebase_loop_rounds [of c t i "Suc (length (group_of t i c))"] by blast
  then obtain outcome c' where "rebase (Suc (length (group_of t i c))) (store_deps api) t i c = Some (outcome, c')"
    by (cases r) (auto simp: rebase_def)
  then show "\<exists>outcome c'. \<forall>fuel > length (group_of t i c). rebase fuel (store_deps api) t i c = Some (outcome, c')"
    using rebase_more_fuel by (metis Suc_leI)
qed

text \<open>What a request of a rebase carries.\<close>

definition carried :: "uuid \<times> mutation_request \<Rightarrow> uuid \<times> uuid \<times> mutation_command" where
  "carried x = (fst x, mr_mutationId (snd x), mr_command (snd x))"

definition reissues :: "uuid \<Rightarrow> (nat \<Rightarrow> uuid) \<Rightarrow> nat \<Rightarrow> pending_row list \<Rightarrow> (uuid \<times> uuid \<times> mutation_command) list" where
  "reissues i supply k rows = map2 (\<lambda>r j. (i, supply j, pn_command r)) rows [k..<k + length rows]"

lemma reissues_simps [simp]:
  "reissues i supply k [] = []"
  "reissues i supply k (r # rows) = (i, supply k, pn_command r) # reissues i supply (Suc k) rows"
  by (simp_all add: reissues_def upt_rec)

text \<open>
  The base versions of a rebase, along its requests: a creation goes out on 0, any other command on the version of the order the
  answer before it brought, the first on the version the screen had. A request that is not answered with an applied
  order is the last.
\<close>

fun based_in_turn :: "'n api \<Rightarrow> uuid \<Rightarrow> int \<Rightarrow> mutation_request list \<Rightarrow> tab \<times> 'n \<Rightarrow> bool" where
  "based_in_turn api i version [] s = True"
| "based_in_turn api i version (r # rs) s =
     (mr_baseVersion r = (if mutation_type_of (mr_command r) = CREATE_ORDER then 0 else version)
      \<and> (let (result, s') = postMutation (api_post api) i r s in
           case applied_answer result of
             Some snap \<Rightarrow> based_in_turn api i (snap_version snap) rs s'
           | None \<Rightarrow> rs = []))"

lemma rebase_sends_based:
  assumes g: "group_of t i c = head # rest" and s: "rebase_sends head (rebase_version head version) c = (row, c2)"
    and a: "attempt (store_deps api) row c2 = (a, c3)"
    and rs: "rs = [] \<or> (\<exists>snap. a = AttemptApplied snap
      \<and> based_in_turn api i (snap_version snap) rs (w_tab (cl_world c3), w_net (cl_world c3)))"
  shows "based_in_turn api i version (requestOf row # rs) (w_tab (cl_world c), w_net (cl_world c))"
proof -
  have "head \<in> set (group_of t i c)" using g by simp
  then have head: "pn_orderId head = i" by (auto simp: group_of_def)
  have row: "pn_orderId row = i" "mr_command (requestOf row) = pn_command head"
      "mr_baseVersion (requestOf row) = rebase_version head version"
    and c2: "w_tab (cl_world c2) = w_tab (cl_world c)" "w_net (cl_world c2) = w_net (cl_world c)"
    using s head by (auto simp: rebase_sends_def Let_def reissued_def requestOf_def randomUUID_def)
  from attempt_answer [OF a] obtain result where p: "postMutation (api_post api) i (requestOf row)
      (w_tab (cl_world c), w_net (cl_world c)) = (result, w_tab (cl_world c3), w_net (cl_world c3))"
    and ans: "\<And>snap. a = AttemptApplied snap \<Longrightarrow> applied_answer result = Some snap"
    by (auto simp: row(1) c2)
  show ?thesis using rs ans by (auto simp: p row rebase_version_def split: option.splits)
qed

lemma rebase_loop_once_each:
  assumes "storage_works c" and "queue_ok (ls_pending (cl_store c))" and "fresh_supply c"
    and "rebase_loop fuel (store_deps api) t i version c = Some (outcome, c')"
  shows "\<exists>batch n. w_sent (cl_world c') = w_sent (cl_world c) @ batch
      \<and> map carried batch = reissues i (w_uuid (cl_world c)) (w_drawn (cl_world c)) (take n (group_of t i c))
      \<and> based_in_turn api i (version) (map snd batch) (w_tab (cl_world c), w_net (cl_world c))
      \<and> (outcome = drained \<longrightarrow> n = length (group_of t i c) \<and> group_of t i c' = [])"
  using assms
proof (induction fuel arbitrary: c version)
  case (Suc fuel)
  show ?case
  proof (cases "group_of t i c")
    case Nil
    have r: "readQueue t (cl_store c) = (terminal_queue t (ls_pending (cl_store c)), cl_store c)"
      using Suc.prems(1) by (simp add: storage_works_def readQueue_works)
    have "c' = c" using Suc.prems(4) Nil by (simp add: r group_of_def)
    then show ?thesis using Nil by simp
  next
    case (Cons head rest)
    obtain row c2 where s: "rebase_sends head (rebase_version head version) c = (row, c2)" by fastforce
    obtain a c3 where a: "attempt (store_deps api) row c2 = (a, c3)" by fastforce
    note facts = rebase_sends_facts [OF Suc.prems(1-3) Cons s a]
    note rest = Suc.prems(4) [unfolded rebase_loop_unfold [OF Suc.prems(1) Cons s a]]
    have car: "carried (i, requestOf row) = (i, w_uuid (cl_world c) (w_drawn (cl_world c)), pn_command head)"
      using facts(2,3) by (simp add: carried_def)
    show ?thesis
    proof (cases a)
      case (AttemptApplied snap)
      note inv = facts(6) [OF AttemptApplied]
      have run: "rebase_loop fuel (store_deps api) t i (snap_version snap) c3 = Some (outcome, c')"
        using rest by (simp add: AttemptApplied)
      obtain batch n where b: "w_sent (cl_world c') = w_sent (cl_world c3) @ batch"
        "map carried batch = reissues i (w_uuid (cl_world c3)) (w_drawn (cl_world c3)) (take n (group_of t i c3))"
        "based_in_turn api i (snap_version snap) (map snd batch) (w_tab (cl_world c3), w_net (cl_world c3))"
        "outcome = drained \<longrightarrow> n = length (group_of t i c3) \<and> group_of t i c' = []"
        using Suc.IH [OF _ _ _ run] inv by blast
      have "based_in_turn api i version (map snd ((i, requestOf row) # batch)) (w_tab (cl_world c), w_net (cl_world c))"
        using rebase_sends_based [OF Cons s a, of "map snd batch"] AttemptApplied b(3) by simp
      then show ?thesis
        using b facts(1,4,5) inv car Cons
        by (intro exI [of _ "(i, requestOf row) # batch"] exI [of _ "Suc n"]) (simp del: based_in_turn.simps)
    qed (use rest facts(1) car Cons rebase_sends_based [OF Cons s a, of "[]"] in \<open>auto intro!: exI [of _ "[(i, requestOf row)]"] exI [of _ "Suc 0"]\<close>)
  qed
qed simp

text \<open>
  C24. On a device whose storage works, a rebase sends every intent of the halted order at most once, in
  queue order, each with its own command under an id drawn for it, one the queue does not hold. A creation goes out on base version 0;
  any other command on the version of the snapshot the server answered the one before with, the first on the version the screen has, and after an
  answer that did not apply nothing more is sent. When it reports that the order is drained, every intent was sent and none is left in the queue.
\<close>

theorem rebase_reissues_each_intent_once:
  assumes "storage_works c" and "queue_ok (ls_pending (cl_store c))" and "fresh_supply c"
    and "rebase fuel (store_deps api) t i c = Some (outcome, c')"
  shows "\<exists>batch n. w_sent (cl_world c') = w_sent (cl_world c) @ batch
      \<and> map carried batch = reissues i (w_uuid (cl_world c)) (w_drawn (cl_world c)) (take n (group_of t i c))
      \<and> based_in_turn api i (canonical_version i c) (map snd batch) (w_tab (cl_world c), w_net (cl_world c))
      \<and> (outcome = drained \<longrightarrow> n = length (group_of t i c) \<and> group_of t i c' = [])"
proof -
  from assms(4) obtain c1 where l: "rebase_loop fuel (store_deps api) t i (canonical_version i c) c = Some (outcome, c1)"
    and c': "c' = refreshQueue c1" by (auto simp: rebase_def)
  from rebase_loop_once_each [OF assms(1-3) l] show ?thesis by (simp add: c' group_of_def)
qed

section \<open>A deletion that fails\<close>

lemma attempt_on_wire:
  assumes "tab_arms (w_tab (cl_world c)) = (\<lambda>_. False)" "tab_offlineTerminals (w_tab (cl_world c)) = []"
    and "api_post api (pn_orderId row) (requestOf row) (w_net (cl_world c)) = (Body (APPLIED snap v), n)"
  shows "\<exists>c'. attempt (store_deps api) row c = (AttemptApplied snap, c')
    \<and> cl_store c' = deletePending (pn_mutationId row) (cacheOrder (cl_now c) (pn_terminalId row) snap
        (setPendingStatus (pn_mutationId row) SYNCING (cl_store c)))
    \<and> w_net (cl_world c') = n \<and> w_tab (cl_world c') = w_tab (cl_world c) \<and> cl_now c' = cl_now c"
proof -
  let ?c = "on_store (setPendingStatus (pn_mutationId row) SYNCING) c"
  let ?c2 = "?c\<lparr>cl_world := (cl_world c)\<lparr>w_net := n, w_sent := w_sent (cl_world c) @ [(pn_orderId row, requestOf row)]\<rparr>\<rparr>"
  have "post_on_wire api (pn_orderId row) (requestOf row) ?c = (Answered (APPLIED snap v), ?c2)"
    using assms
    by (cases "cl_world c"; cases "w_tab (cl_world c)")
      (simp add: post_on_wire_def postMutation_def applyVersionConflictArm_def isArmed_def postMutationTo_def
        isTerminalOffline_def fireMutationShadows_def)
  then show ?thesis
    by (simp add: attempt_def on_canonical_store) (simp add: on_canonical_def on_screen_def Let_def)
qed

text \<open>One round over a queue of one row; \<open>fails\<close> says whether the deletion at its end is refused.\<close>

lemma rebase_single_round:
  assumes tab: "tab_arms (w_tab (cl_world c)) = (\<lambda>_. False)" "tab_offlineTerminals (w_tab (cl_world c)) = []"
    and rows: "ls_pending (cl_store c) = [head]" "pn_orderId head = i" "pn_terminalId head = t"
    and faults: "ls_faults (cl_store c) = (case fails of None \<Rightarrow> [] | Some e \<Rightarrow> [None, None, None, None, Some e] @ later)"
    and new: "w_uuid (cl_world c) (w_drawn (cl_world c)) \<noteq> pn_mutationId head"
    and row: "row = reissued head (w_uuid (cl_world c) (w_drawn (cl_world c))) (rebase_version head version)"
    and answer: "api_post api i (requestOf row) (w_net (cl_world c)) = (Body (APPLIED snap v), n)"
  shows "\<exists>c'. rebase_loop (Suc fuel) (store_deps api) t i version c
        = rebase_loop fuel (store_deps api) t i (snap_version snap) c'
    \<and> ls_pending (cl_store c') = (if fails = None then [] else [row\<lparr>pn_status := SYNCING\<rparr>])
    \<and> ls_faults (cl_store c') = (case fails of None \<Rightarrow> [] | Some _ \<Rightarrow> later) \<and> w_net (cl_world c') = n \<and> w_tab (cl_world c') = w_tab (cl_world c)
    \<and> w_uuid (cl_world c') = w_uuid (cl_world c) \<and> w_drawn (cl_world c') = Suc (w_drawn (cl_world c))
    \<and> w_sent (cl_world c') = w_sent (cl_world c) @ [(i, requestOf row)]"
proof -
  obtain s1 where r: "readQueue t (cl_store c) = ([head], s1)" "ls_pending s1 = [head]"
    "ls_faults s1 = (case fails of None \<Rightarrow> [] | Some e \<Rightarrow> [None, None, None, Some e] @ later)"
    using rows faults by (auto simp: readQueue_def guarded_def terminal_queue_def split: option.splits)
  have id: "pn_mutationId row = w_uuid (cl_world c) (w_drawn (cl_world c))"
    "pn_baseVersion row = rebase_version head version" "pn_orderId row = i" "pn_terminalId row = t"
    using rows by (simp_all add: row reissued_def)
  have row': "head\<lparr>pn_mutationId := pn_mutationId row, pn_baseVersion := pn_baseVersion row, pn_status := PENDING\<rparr> = row"
    by (simp add: row reissued_def)
  obtain s2 where re: "reissue head (pn_mutationId row) (pn_baseVersion row) s1 = (Some row, s2)"
    "ls_pending s2 = [row]" "ls_faults s2 = (case fails of None \<Rightarrow> [] | Some e \<Rightarrow> [None, None, Some e] @ later)"
    using r new [folded id(1)] by (auto simp: reissue_def guarded_def put_row_def row' Let_def split: option.splits)
  let ?c1 = "snd (randomUUID (c\<lparr>cl_store := s1\<rparr>))"
  let ?c2 = "?c1\<lparr>cl_store := s2\<rparr>"
  obtain c3 where at: "attempt (store_deps api) row ?c2 = (AttemptApplied snap, c3)"
    and st: "cl_store c3 = deletePending (pn_mutationId row) (cacheOrder (cl_now ?c2) (pn_terminalId row) snap
        (setPendingStatus (pn_mutationId row) SYNCING (cl_store ?c2)))"
    and w3: "w_net (cl_world c3) = n" "w_tab (cl_world c3) = w_tab (cl_world ?c2)"
    using attempt_on_wire [of ?c2 api row snap v n] tab answer
    by (auto simp: randomUUID_def Let_def id)
  have sent: "w_sent (cl_world c3) = w_sent (cl_world c) @ [(i, requestOf row)]"
    using attempt_sends [of api row ?c2] at id by (simp add: randomUUID_def Let_def)
  have drawn: "w_uuid (cl_world c3) = w_uuid (cl_world c)" "w_drawn (cl_world c3) = Suc (w_drawn (cl_world c))"
    using attempt_draws [of api row ?c2] at by (simp_all add: randomUUID_def Let_def)
  have step: "rebase_loop (Suc fuel) (store_deps api) t i version c
        = rebase_loop fuel (store_deps api) t i (snap_version snap) c3"
    using at r re rows id by (simp add: case_prod_unfold Let_def randomUUID_def)
  have pend: "ls_pending (cl_store c3) = (if fails = None then [] else [row\<lparr>pn_status := SYNCING\<rparr>])"
    "ls_faults (cl_store c3) = (case fails of None \<Rightarrow> [] | Some _ \<Rightarrow> later)"
    using re by (auto simp: st setPendingStatus_def cacheOrder_def deletePending_def guarded_def
        putSnapshotIfNewer_def split: option.splits)
  show ?thesis using step pend w3 sent drawn by (intro exI [of _ c3]) (simp add: randomUUID_def Let_def)
qed

text \<open>
  A rebase can apply one intent twice. When the server applied the re-issued mutation but the deletion
  of its row fails, the row is still the head of the group, and the loop re-issues the same command
  under a second id at the version the first one produced. Both requests leave the client, the server
  applies both, and the rebase reports \<open>drained\<close>.
\<close>

lemma rebase_applies_an_intent_twice:
  assumes tab: "tab_arms (w_tab (cl_world c)) = (\<lambda>_. False)" "tab_offlineTerminals (w_tab (cl_world c)) = []"
    and rows: "ls_pending (cl_store c) = [head]" "pn_orderId head = i" "pn_terminalId head = t"
    and faults: "ls_faults (cl_store c) = [None, None, None, None, Some e]"
    and ids: "w_uuid (cl_world c) (w_drawn (cl_world c)) = m1" "w_uuid (cl_world c) (Suc (w_drawn (cl_world c))) = m2"
      "m1 \<noteq> pn_mutationId head" "m2 \<noteq> m1"
    and first: "row1 = reissued head m1 (rebase_version head (canonical_version i c))"
      "api_post api i (requestOf row1) (w_net (cl_world c)) = (Body (APPLIED snap1 v1), n1)"
    and second: "row2 = reissued row1 m2 (rebase_version row1 (snap_version snap1))"
      "api_post api i (requestOf row2) n1 = (Body (APPLIED snap2 v2), n2)"
  shows "\<exists>c'. rebase (rebase_fuel (cl_store c)) (store_deps api) t i c = Some (drained, c')
    \<and> w_sent (cl_world c') = w_sent (cl_world c) @ [(i, requestOf row1), (i, requestOf row2)]
    \<and> mr_command (requestOf row1) = pn_command head \<and> mr_command (requestOf row2) = pn_command head
    \<and> w_net (cl_world c') = n2 \<and> ls_pending (cl_store c') = []"
proof -
  have fuel: "rebase_fuel (cl_store c) = Suc (Suc (Suc 4))" using rows faults by (simp add: rebase_fuel_def)
  obtain c1 where c1: "rebase_loop (Suc (Suc (Suc 4))) (store_deps api) t i (canonical_version i c) c
        = rebase_loop (Suc (Suc 4)) (store_deps api) t i (snap_version snap1) c1"
      "ls_pending (cl_store c1) = [row1\<lparr>pn_status := SYNCING\<rparr>]" "ls_faults (cl_store c1) = []"
      "w_net (cl_world c1) = n1" "w_tab (cl_world c1) = w_tab (cl_world c)"
      "w_uuid (cl_world c1) = w_uuid (cl_world c)" "w_drawn (cl_world c1) = Suc (w_drawn (cl_world c))"
      "w_sent (cl_world c1) = w_sent (cl_world c) @ [(i, requestOf row1)]"
    using rebase_single_round [OF tab rows, where fails = "Some e" and later = "[]" and row = row1
        and version = "canonical_version i c" and api = api and snap = snap1 and v = v1 and n = n1 and fuel = "Suc (Suc 4)"]
      faults ids first by auto
  have head1: "pn_orderId (row1\<lparr>pn_status := SYNCING\<rparr>) = i" "pn_terminalId (row1\<lparr>pn_status := SYNCING\<rparr>) = t"
    "pn_mutationId (row1\<lparr>pn_status := SYNCING\<rparr>) = m1"
    using rows(2,3) by (simp_all add: first(1) reissued_def)
  have row2: "row2 = reissued (row1\<lparr>pn_status := SYNCING\<rparr>) m2 (rebase_version (row1\<lparr>pn_status := SYNCING\<rparr>) (snap_version snap1))"
    by (simp add: second(1) reissued_def rebase_version_def)
  obtain c2 where c2: "rebase_loop (Suc (Suc 4)) (store_deps api) t i (snap_version snap1) c1
        = rebase_loop (Suc 4) (store_deps api) t i (snap_version snap2) c2"
      "ls_pending (cl_store c2) = []" "ls_faults (cl_store c2) = []" "w_net (cl_world c2) = n2"
      "w_sent (cl_world c2) = w_sent (cl_world c1) @ [(i, requestOf row2)]"
    using rebase_single_round [where c = c1 and head = "row1\<lparr>pn_status := SYNCING\<rparr>" and i = i and t = t and fails = None and later = "[]"
        and row = row2 and version = "snap_version snap1" and api = api and snap = snap2 and v = v2 and n = n2 and fuel = "Suc 4"]
      tab c1 head1 row2 ids second(2) by auto
  have "rebase_loop (Suc 4) (store_deps api) t i (snap_version snap2) c2 = Some (drained, c2)"
    using c2(2,3) by (simp only: rebase_loop.simps) (simp add: readQueue_def terminal_queue_def)
  then have "rebase (rebase_fuel (cl_store c)) (store_deps api) t i c = Some (drained, refreshQueue c2)"
    using c1(1) c2(1) by (simp only: rebase_def fuel) simp
  moreover have "mr_command (requestOf row1) = pn_command head" "mr_command (requestOf row2) = pn_command head"
    by (simp_all add: first(1) second(1) reissued_def requestOf_def)
  ultimately show ?thesis using c1(8) c2 by simp
qed

text \<open>
  No number of rounds is enough for one queued row: if the server applies what it is sent and the next \<open>n\<close> deletions are refused,
  \<open>n\<close> rounds leave the loop running.
\<close>

lemma rebase_outlasts_the_queue:
  assumes applies: "\<And>r net. \<exists>snap v net'. api_post api i r net = (Body (APPLIED snap v), net')"
    and tab: "tab_arms (w_tab (cl_world c)) = (\<lambda>_. False)" "tab_offlineTerminals (w_tab (cl_world c)) = []"
    and rows: "ls_pending (cl_store c) = [head]" "pn_orderId head = i" "pn_terminalId head = t"
    and ids: "\<forall>k \<ge> w_drawn (cl_world c). w_uuid (cl_world c) k \<noteq> pn_mutationId head" "inj (w_uuid (cl_world c))"
    and faults: "ls_faults (cl_store c) = concat (replicate n [None, None, None, None, Some e])"
  shows "rebase_loop n (store_deps api) t i version c = None"
  using tab rows ids faults
proof (induction n arbitrary: c head version)
  case (Suc n)
  let ?u = "w_uuid (cl_world c)" and ?k = "w_drawn (cl_world c)"
  define row where "row = reissued head (?u ?k) (rebase_version head version)"
  obtain snap v net' where answer: "api_post api i (requestOf row) (w_net (cl_world c)) = (Body (APPLIED snap v), net')"
    using applies by blast
  have new: "?u ?k \<noteq> pn_mutationId head" using Suc.prems(6) by simp
  obtain c' where c': "rebase_loop (Suc n) (store_deps api) t i version c
        = rebase_loop n (store_deps api) t i (snap_version snap) c'"
      "ls_pending (cl_store c') = [row\<lparr>pn_status := SYNCING\<rparr>]"
      "ls_faults (cl_store c') = concat (replicate n [None, None, None, None, Some e])"
      "w_tab (cl_world c') = w_tab (cl_world c)" "w_uuid (cl_world c') = ?u" "w_drawn (cl_world c') = Suc ?k"
    using rebase_single_round [OF Suc.prems(1-5), where fails = "Some e" and row = row and version = version and api = api
        and later = "concat (replicate n [None, None, None, None, Some e])" and snap = snap and v = v and n = net' and fuel = n] Suc.prems(8) new answer by (auto simp: row_def)
  have "pn_orderId (row\<lparr>pn_status := SYNCING\<rparr>) = i" "pn_terminalId (row\<lparr>pn_status := SYNCING\<rparr>) = t"
    using Suc.prems(4,5) by (simp_all add: row_def reissued_def)
  moreover have "\<forall>k \<ge> w_drawn (cl_world c'). w_uuid (cl_world c') k \<noteq> pn_mutationId (row\<lparr>pn_status := SYNCING\<rparr>)"
    using Suc.prems(7) by (auto simp: c'(5,6) row_def reissued_def dest: injD)
  ultimately have "rebase_loop n (store_deps api) t i (snap_version snap) c' = None"
    using Suc.prems(1,2,7) c' by (intro Suc.IH [of c' "row\<lparr>pn_status := SYNCING\<rparr>"]) simp_all
  then show ?case by (simp only: c'(1))
qed simp

end
