(* ===== verification/Halt_Resolution.thy ===== *)
theory Halt_Resolution
  imports Store_Rebase
begin

text \<open>
  What becomes of an intent when the operator resolves a halt, one operation at a time. A rebase replaces an intent by the same command under a new id, a
  discard drops the queue of the order on the screen; nothing else a till does drops one. The ids of the queue are followed
  through every operation (\<open>grown\<close>), for \<open>crypto.randomUUID()\<close> to be new each time (\<open>new_ids\<close>).
\<close>

section \<open>Where the ids of the queue come from\<close>

definition grown :: "'n pos \<Rightarrow> 'n pos \<Rightarrow> bool" where
  "grown c c' \<longleftrightarrow>
     w_uuid (cl_world c') = w_uuid (cl_world c) \<and> w_drawn (cl_world c) \<le> w_drawn (cl_world c')
     \<and> queued c' \<subseteq> queued c \<union> drawn_ids c c'"

lemma grown_refl [simp]: "grown c c"
  by (simp add: grown_def)

lemma drawn_ids_trans:
  "grown a b \<Longrightarrow> grown b c \<Longrightarrow> drawn_ids a c = drawn_ids a b \<union> drawn_ids b c"
  by (auto simp: grown_def drawn_ids_def image_Un [symmetric] ivl_disj_un)

lemma grown_trans: "grown a b \<Longrightarrow> grown b c \<Longrightarrow> grown a c"
  using drawn_ids_trans [of a b c] unfolding grown_def by auto

lemma new_ids_grown:
  assumes "new_ids c" and "grown c c'"
  shows "new_ids c'"
proof -
  let ?u = "w_uuid (cl_world c)"
  have u: "w_uuid (cl_world c') = ?u" and le: "w_drawn (cl_world c) \<le> w_drawn (cl_world c')"
    and q: "queued c' \<subseteq> queued c \<union> drawn_ids c c'" using assms(2) by (simp_all add: grown_def)
  have inj: "inj_on ?u {w_drawn (cl_world c)..}" and old: "\<forall>k \<ge> w_drawn (cl_world c). ?u k \<notin> queued c"
    using assms(1) by (simp_all add: new_ids_def fresh_supply_def)
  have "?u k \<notin> queued c'" if "w_drawn (cl_world c') \<le> k" for k
  proof
    assume "?u k \<in> queued c'"
    then have "?u k \<in> drawn_ids c c'" using q old le that by auto
    then obtain j where "w_drawn (cl_world c) \<le> j" "j < w_drawn (cl_world c')" "?u k = ?u j"
      by (auto simp: drawn_ids_def)
    with inj_onD [OF inj, of k j] le that show False by simp
  qed
  moreover have "inj_on ?u {w_drawn (cl_world c')..}" using inj le by (auto intro: inj_on_subset)
  ultimately show ?thesis by (simp add: new_ids_def fresh_supply_def u)
qed

lemma new_ids_fresh: "new_ids c \<Longrightarrow> fresh_supply c"
  by (simp add: new_ids_def fresh_supply_def)

text \<open>An operation that draws nothing and adds no row.\<close>

lemma grown_same:
  assumes "grown c0 c" and "w_uuid (cl_world c') = w_uuid (cl_world c)" and "w_drawn (cl_world c') = w_drawn (cl_world c)"
    and "queued c' \<subseteq> queued c"
  shows "grown c0 c'"
  using assms by (auto simp: grown_def drawn_ids_def)

lemma on_screen_draws [simp]:
  "w_uuid (cl_world (on_screen f c)) = w_uuid (cl_world c)" "w_drawn (cl_world (on_screen f c)) = w_drawn (cl_world c)"
  by (simp_all add: on_screen_def)

lemma queued_on_screen [simp]: "queued (on_screen f c) = queued c"
  by (simp add: queued_def)

lemma grown_on_screen [simp]: "grown c0 c \<Longrightarrow> grown c0 (on_screen f c)"
  by (erule grown_same) simp_all

lemma cl_world_on_store [simp]: "cl_world (on_store f c) = cl_world c"
  by (simp add: on_store_def)

lemma grown_on_store [simp]:
  "grown c0 c \<Longrightarrow> ls_pending (f (cl_store c)) = ls_pending (cl_store c) \<Longrightarrow> grown c0 (on_store f c)"
  by (erule grown_same) (simp_all add: queued_def)

lemma refreshQueue_draws [simp]:
  "w_uuid (cl_world (refreshQueue c)) = w_uuid (cl_world c)" "w_drawn (cl_world (refreshQueue c)) = w_drawn (cl_world c)"
  by (simp_all add: refreshQueue_def Let_def case_prod_unfold split: option.splits)

lemma grown_refreshQueue [simp]: "grown c0 c \<Longrightarrow> grown c0 (refreshQueue c)"
  by (erule grown_same) (simp_all add: queued_def)

lemma grown_between [simp]: "grown c (on_tab g c)" "grown c (reload c)" "grown c (c\<lparr>cl_now := now\<rparr>)"
  by (simp_all add: grown_def drawn_ids_def queued_def on_tab_def reload_def)

lemma grown_net: "grown c0 c \<Longrightarrow> grown c0 (c\<lparr>cl_world := (cl_world c)\<lparr>w_net := n\<rparr>\<rparr>)"
  by (erule grown_same) (simp_all add: queued_def)

lemma grown_store:
  "grown c0 c \<Longrightarrow> ls_pending s = ls_pending (cl_store c) \<Longrightarrow> grown c0 (c\<lparr>cl_store := s\<rparr>)"
  by (erule grown_same) (simp_all add: queued_def)

lemma grown_randomUUID:
  assumes "grown c0 c" and "randomUUID c = (m, c')"
  shows "grown c0 c'" and "m \<in> drawn_ids c0 c'"
proof -
  have c': "c' = c\<lparr>cl_world := (cl_world c)\<lparr>w_drawn := Suc (w_drawn (cl_world c))\<rparr>\<rparr>"
    and m: "m = w_uuid (cl_world c) (w_drawn (cl_world c))"
    using assms(2) by (auto simp: randomUUID_def Let_def)
  have "drawn_ids c0 c' = insert m (drawn_ids c0 c)" "queued c' = queued c"
    using assms(1) by (auto simp: c' m drawn_ids_def grown_def queued_def atLeastLessThanSuc)
  then show "grown c0 c'" and "m \<in> drawn_ids c0 c'" using assms(1) by (auto simp: grown_def c')
qed

lemma attempt_queued:
  assumes "attempt (store_deps api) row c = (a, c')"
  shows "queued c' \<subseteq> queued c"
proof -
  obtain result c2 where p: "post_on_wire api (pn_orderId row) (requestOf row)
      (on_store (setPendingStatus (pn_mutationId row) SYNCING) c) = (result, c2)" by fastforce
  have q: "queued c2 = queued c"
    using post_on_wire_cases [OF p] queued_setPendingStatus [of "pn_mutationId row" SYNCING c] by (simp add: queued_def)
  have can: "queued (on_canonical t snap c2) = queued c2" for t snap by (simp add: queued_def)
  have hlt: "queued (on_halt row cause c1) = queued c1" for cause and c1 :: "'a pos" by (simp add: queued_def)
  have del: "queued (on_store (deletePending m) c1) \<subseteq> queued c1" for m and c1 :: "'a pos"
    using queued_deletePending [of m c1] by auto
  show ?thesis
    using assms p q del [of "pn_mutationId row"]
    by (auto simp: attempt_def can hlt Let_def split: post_result.splits mutation_response.splits if_splits
        dest!: subsetD [OF del])
qed

lemma grown_attempt: "grown c0 c \<Longrightarrow> attempt (store_deps api) row c = (a, c') \<Longrightarrow> grown c0 c'"
  using attempt_draws [of api row c] attempt_queued [of api row c a c'] by (intro grown_same [of c0 c c']) simp_all

lemma grown_send_group: "grown c0 c \<Longrightarrow> grown c0 (snd (send_group (store_deps api) rows c))"
proof (induction rows arbitrary: c)
  case (Cons row rows)
  obtain a c' where a: "attempt (store_deps api) row c = (a, c')" by fastforce
  from grown_attempt [OF Cons.prems a] Cons.IH show ?case by (cases a) (simp_all add: a)
qed simp

lemma grown_pass_groups: "grown c0 c \<Longrightarrow> grown c0 (snd (pass_groups (store_deps api) groups outcome c))"
proof (induction groups arbitrary: c outcome)
  case (Cons grp groups)
  obtain stop c' where g: "send_group (store_deps api) grp c = (stop, c')" by fastforce
  have "grown c0 c'" using grown_send_group [OF Cons.prems, of api grp] g by simp
  with Cons show ?case by (auto simp: g split: option.splits pass_outcome.splits)
qed simp

lemma grown_requested [simp]: "grown c0 (c\<lparr>cl_requested := q\<rparr>) = grown c0 c"
  by (simp add: grown_def drawn_ids_def)

lemma grown_sync: "grown c0 c \<Longrightarrow> grown c0 (sync api c)"
proof -
  assume g: "grown c0 c"
  have "grown c0 (snd (pass (store_deps api) t (c\<lparr>cl_requested := None\<rparr>)))" for t
    using g by (simp add: pass_def case_prod_unfold Let_def grown_pass_groups grown_store)
  then show ?thesis
    using g by (auto simp: sync_step loop_step_def case_prod_unfold Let_def split: option.splits)
qed

lemma grown_stage:
  assumes g: "grown c0 c" and id: "pn_mutationId identity \<in> drawn_ids c0 c"
  shows "grown c0 (snd (stage identity c))"
proof -
  let ?row = "identity\<lparr>pn_status := PENDING\<rparr>"
  let ?c = "c\<lparr>cl_store := snd (savePending (cl_now c) ?row (cl_store c))\<rparr>"
  have "queued ?c \<subseteq> insert (pn_mutationId identity) (queued c)"
    using savePending_cases [of "cl_now c" ?row "cl_store c"] by (auto simp: queued_def stored_pending_def)
  then have "grown c0 ?c" using g id by (auto simp: grown_def drawn_ids_def)
  then show ?thesis using g by (simp add: stage_def case_prod_unfold Let_def)
qed

lemma grown_stageOrSend:
  assumes "grown c0 c" and "pn_mutationId identity \<in> drawn_ids c0 c"
  shows "grown c0 (snd (stageOrSend api identity c))"
proof -
  obtain r c1 where st: "stage identity c = (r, c1)" by fastforce
  then have g: "grown c0 c1" using grown_stage [OF assms] by simp
  obtain a c2 where at: "attempt (store_deps api) (identity\<lparr>pn_createdAt := cl_now c1, pn_status := PENDING\<rparr>) c1 = (a, c2)"
    by fastforce
  from grown_attempt [OF g at] g show ?thesis
    using at by (simp add: stageOrSend_def st sendUnstored_def split: option.splits bool.splits)
qed

lemma grown_sync_if: "grown c0 (snd r) \<Longrightarrow> grown c0 (sync_if api r)"
  by (simp add: sync_if_def case_prod_unfold grown_sync)

lemma drawn_by_randomUUID: "grown c0 c \<Longrightarrow> fst (randomUUID c) \<in> drawn_ids c0 (snd (randomUUID c))"
  "grown c0 c \<Longrightarrow> grown c0 (snd (randomUUID c))"
  using grown_randomUUID [of c0 c "fst (randomUUID c)" "snd (randomUUID c)"] by simp_all

lemma drawn_ids_cong:
  "w_drawn (cl_world c') = w_drawn (cl_world c) \<Longrightarrow> drawn_ids c0 c' = drawn_ids c0 c"
  by (simp add: drawn_ids_def)

lemma grown_refetch: "grown c0 c \<Longrightarrow> grown c0 (refetch api c)"
  by (auto simp: refetch_def case_prod_unfold Let_def grown_net split: option.splits sum.splits)

lemma grown_normalizeSyncing: "grown c0 c \<Longrightarrow> grown c0 (on_store (normalizeSyncing t) c)"
  by (erule grown_same) simp_all

lemma grown_hydrate: "grown c0 c \<Longrightarrow> grown c0 (hydrate api t c)"
proof -
  assume g: "grown c0 c"
  obtain restored c1 where r: "hydrate_read t c = (restored, c1)" by fastforce
  have "grown c0 c1"
    using grown_store [OF grown_normalizeSyncing [OF g, of t], of "snd (readTerminalState t (normalizeSyncing t (cl_store c)))"] r
    by (auto simp: hydrate_read_def case_prod_unfold Let_def on_store_def)
  moreover from this have "grown c0 c2" if "hydrate_install k t restored c1 = Some c2" for k c2
    using that by (auto simp: hydrate_install_def split: if_splits)
  ultimately show ?thesis by (simp add: hydrate_def r grown_refetch grown_sync split: option.splits)
qed

lemma grown_identityFor:
  assumes "grown c0 c" and "identityFor t r payload c = (answer, c')"
  shows "grown c0 c'" and "answer = Some identity \<Longrightarrow> pn_mutationId identity \<in> drawn_ids c0 c'"
  using assms drawn_by_randomUUID [OF assms(1)]
  by (auto simp: identityFor_def case_prod_unfold Let_def split: option.splits)

lemma grown_command: "grown c0 c \<Longrightarrow> grown c0 (command api t r plan c)"
proof -
  assume g: "grown c0 c"
  have "grown c0 (snd (command_link api i t r plan c))" for i
    using g grown_identityFor [OF g] by (auto simp: command_link_def split: option.splits prod.splits intro!: grown_stageOrSend)
  then show ?thesis by (simp add: command_def grown_sync_if)
qed

lemma grown_createOrder: "grown c0 c \<Longrightarrow> grown c0 (createOrder api t r tableNumber c)"
proof -
  assume g: "grown c0 c"
  obtain i c1 where i: "randomUUID c = (i, c1)" by fastforce
  let ?c = "on_store (setCurrentOrder (cl_now c1) t i)
      (on_screen (\<lambda>s. s\<lparr>os_order := None, os_conflict := None, os_currentOrderId := Some i\<rparr>) c1)"
  obtain m c2 where m: "randomUUID ?c = (m, c2)" by fastforce
  have "grown c0 ?c" using grown_randomUUID(1) [OF g i] by simp
  note step = grown_randomUUID [OF this m]
  show ?thesis
    using m by (simp add: createOrder_def createOrder_link_def i Let_def grown_sync_if grown_stageOrSend step)
qed

lemma grown_focusOrder: "grown c0 c \<Longrightarrow> grown c0 (focusOrder api i c)"
proof -
  assume g: "grown c0 c"
  have "grown c0 (snd (focusOrder_link i c))"
    using g by (auto simp: focusOrder_link_def case_prod_unfold Let_def grown_store split: option.splits)
  then show ?thesis using g by (simp add: focusOrder_def case_prod_unfold grown_refetch)
qed

lemma grown_reportResolution: "grown c0 c \<Longrightarrow> grown c0 (reportResolution api t i resolution held c)"
  by (auto simp: reportResolution_def Let_def grown_net)

lemma grown_discardHalted: "grown c0 c \<Longrightarrow> grown c0 (discardHalted api c)"
proof -
  assume g: "grown c0 c"
  have "queued (on_store (discardOrderQueue t i) c) \<subseteq> queued c" for t i
    using discardOrderQueue_pending [of t i "cl_store c"] by (auto simp: queued_def)
  then have "grown c0 (on_store (discardOrderQueue t i) c)" for t i by (intro grown_same [OF g]) simp_all
  then show ?thesis using g by (auto simp: discardHalted_def Let_def grown_reportResolution split: option.splits)
qed

lemma readQueue_rows:
  assumes "readQueue t s = (rows, s')" and "r \<in> set rows"
  shows "r \<in> set (ls_pending s) \<and> pn_terminalId r = t"
  using assms
  by (cases rule: guarded_cases [of "''Reading the queue''" "\<lambda>s. (terminal_queue t (ls_pending s), s)" "[]" s])
    (auto simp: readQueue_def terminal_queue_def)

text \<open>One round of a rebase: nothing left to send, a re-issue that did not commit, or one that did and its request.\<close>

lemma rebase_loop_round:
  assumes "rebase_loop (Suc fuel) (store_deps api) t i version c = Some (outcome, c')"
  obtains (stopped) s where "c' = c\<lparr>cl_store := s\<rparr>" "ls_pending s = ls_pending (cl_store c)"
  | (refused) m c1 s where "randomUUID c = (m, c1)" "c' = c1\<lparr>cl_store := s\<rparr>" "ls_pending s = ls_pending (cl_store c)"
  | (sent) m c1 head row s a c3 where "randomUUID c = (m, c1)" "head \<in> set (ls_pending (cl_store c))"
      "pn_orderId head = i" "pn_terminalId head = t" "row = reissued head m (rebase_version head version)"
      "ls_pending s = delete_where (\<lambda>r. pn_mutationId r = pn_mutationId head) (put_row pn_mutationId row (ls_pending (cl_store c)))"
      "attempt (store_deps api) row (c1\<lparr>cl_store := s\<rparr>) = (a, c3)"
      "(case a of AttemptApplied snap \<Rightarrow> rebase_loop fuel (store_deps api) t i (snap_version snap) c3 = Some (outcome, c')
         | _ \<Rightarrow> c' = c3)"
proof -
  obtain rows s1 where r: "readQueue t (cl_store c) = (rows, s1)" by fastforce
  have p1: "ls_pending s1 = ls_pending (cl_store c)" using r pending_reads(3) [of t "cl_store c"] by simp
  show thesis
  proof (cases "filter (\<lambda>r. pn_orderId r = i) rows")
    case Nil
    then show thesis using assms stopped [OF _ p1] by (simp add: r)
  next
    case (Cons head rest)
    obtain m c1 where id: "randomUUID c = (m, c1)" by fastforce
    then have id1: "randomUUID (c\<lparr>cl_store := s1\<rparr>) = (m, c1\<lparr>cl_store := s1\<rparr>)" by (auto simp: randomUUID_def Let_def)
    obtain answer s2 where re: "reissue head m (rebase_version head version) s1 = (answer, s2)" by fastforce
    have "head \<in> set (filter (\<lambda>r. pn_orderId r = i) rows)" by (simp only: Cons list.set_intros)
    then have "head \<in> set rows" and hi: "pn_orderId head = i" by simp_all
    then have head: "head \<in> set (ls_pending (cl_store c))" "pn_terminalId head = t"
      using readQueue_rows [OF r] by auto
    show thesis
    proof (cases answer)
      case None
      have "ls_pending s2 = ls_pending (cl_store c)" using reissue_cases [of head m "rebase_version head version" s1] re None p1 by auto
      moreover have "c' = c1\<lparr>cl_store := s2\<rparr>" using assms re None by (simp add: r Cons id1)
      ultimately show thesis using refused [OF id] by blast
    next
      case (Some row)
      have row: "row = reissued head m (rebase_version head version)"
        "ls_pending s2 = delete_where (\<lambda>r. pn_mutationId r = pn_mutationId head) (put_row pn_mutationId row (ls_pending (cl_store c)))"
        using reissue_cases [of head m "rebase_version head version" s1] re Some p1 by auto
      obtain a c3 where at: "attempt (store_deps api) row (c1\<lparr>cl_store := s2\<rparr>) = (a, c3)" by fastforce
      have "(case a of AttemptApplied snap \<Rightarrow> rebase_loop fuel (store_deps api) t i (snap_version snap) c3 = Some (outcome, c')
         | _ \<Rightarrow> c' = c3)"
        using assms re Some at by (cases a) (simp_all add: r Cons id1)
      then show thesis using sent [OF id head(1) hi head(2) row at] by blast
    qed
  qed
qed

section \<open>The intents of the queue\<close>

definition intent_of :: "pending_row \<Rightarrow> uuid \<times> uuid \<times> mutation_command" where
  "intent_of r = (pn_mutationId r, pn_orderId r, pn_command r)"

definition intents :: "'n pos \<Rightarrow> (uuid \<times> uuid \<times> mutation_command) set" where
  "intents c = intent_of ` set (ls_pending (cl_store c))"

lemma fst_intent_of [simp]: "fst (intent_of r) = pn_mutationId r"
  by (simp add: intent_of_def)

text \<open>Whatever is queued under this id is this command for this order.\<close>

definition only_intent :: "uuid \<Rightarrow> uuid \<Rightarrow> mutation_command \<Rightarrow> 'n pos \<Rightarrow> bool" where
  "only_intent m i payload c \<longleftrightarrow> (\<forall>j other. (m, j, other) \<in> intents c \<longrightarrow> j = i \<and> other = payload)"

lemma queued_intents: "m \<in> queued c \<longleftrightarrow> (\<exists>i payload. (m, i, payload) \<in> intents c)"
  by (auto simp: queued_def intents_def intent_of_def)

lemma intents_cong: "ls_pending (cl_store c') = ls_pending (cl_store c) \<Longrightarrow> intents c' = intents c"
  by (simp add: intents_def)

lemma intent_of_status [simp]: "intent_of (r\<lparr>pn_status := st\<rparr>) = intent_of r"
  by (simp add: intent_of_def)

lemma intents_update_where:
  assumes "\<And>r. intent_of (f r) = intent_of r"
  shows "intent_of ` set (update_where P f rows) = intent_of ` set rows"
  using assms by (induction rows) (simp_all add: update_where_def)

lemma intents_setPendingStatus [simp]: "intents (on_store (setPendingStatus m st) c) = intents c"
  using setPendingStatus_pending [of m st "cl_store c"]
  by (elim disjE) (simp_all add: intents_def intents_update_where)

lemma intents_haltQueue [simp]: "intents (on_store (haltQueue row) c) = intents c"
  using haltQueue_pending [of row "cl_store c"]
  by (elim disjE) (simp_all add: intents_def halted_rows_def intents_update_where)

lemma intents_deletePending: "intents (on_store (deletePending m) c) \<subseteq> intents c"
  using deletePending_pending [of m "cl_store c"] by (auto simp: intents_def)

lemma intents_frame [simp]:
  "intents (on_canonical t snap c) = intents c" "intents (on_halt row cause c) = intents c"
  "intents (on_screen f c) = intents c" "intents (refreshQueue c) = intents c"
  by (simp_all add: intents_def)

lemma attempt_intents:
  assumes "attempt (store_deps api) row c = (a, c')"
  shows "intents c' \<subseteq> intents c"
proof -
  obtain result c2 where p: "post_on_wire api (pn_orderId row) (requestOf row)
      (on_store (setPendingStatus (pn_mutationId row) SYNCING) c) = (result, c2)" by fastforce
  have "intents c2 = intents (on_store (setPendingStatus (pn_mutationId row) SYNCING) c)"
    using post_on_wire_cases [OF p] by (intro intents_cong) simp
  then have q: "intents c2 = intents c" by simp
  have del: "intents (on_store (deletePending m) (on_canonical t snap c2)) \<subseteq> intents c" for m t snap
    using intents_deletePending [of m "on_canonical t snap c2"] by (simp add: q)
  have "intents (snd (attempt (store_deps api) row c)) \<subseteq> intents c"
    by (simp add: attempt_def p Let_def q del split: post_result.split mutation_response.split)
  then show ?thesis by (simp add: assms)
qed

text \<open>The re-issue of a row under an id the queue does not hold.\<close>

lemma reissued_intents:
  assumes "ls_pending s = delete_where (\<lambda>r. pn_mutationId r = pn_mutationId head)
      (put_row pn_mutationId (reissued head m v) (ls_pending (cl_store c)))"
    and "head \<in> set (ls_pending (cl_store c))" and "m \<notin> queued c"
  shows "intents (c1\<lparr>cl_store := s\<rparr>) =
    insert (m, pn_orderId head, pn_command head) {x \<in> intents c. fst x \<noteq> pn_mutationId head}"
proof -
  have rows: "set (ls_pending s) = insert (reissued head m v) {r \<in> set (ls_pending (cl_store c)). pn_mutationId r \<noteq> pn_mutationId head}"
    using assms by (auto simp: queued_def reissued_def)
  have "intent_of (reissued head m v) = (m, pn_orderId head, pn_command head)" by (simp add: intent_of_def reissued_def)
  then show ?thesis by (auto simp: intents_def rows)
qed

section \<open>The lineage of a rebase\<close>

lemma grown_reissued:
  assumes "new_ids c" and "randomUUID c = (m, c1)" and "head \<in> set (ls_pending (cl_store c))"
    and "ls_pending s = delete_where (\<lambda>r. pn_mutationId r = pn_mutationId head)
      (put_row pn_mutationId (reissued head m v) (ls_pending (cl_store c)))"
  shows "grown c (c1\<lparr>cl_store := s\<rparr>)"
proof -
  have m: "m \<notin> queued c" using assms(1,2) by (auto simp: new_ids_def randomUUID_def Let_def)
  have "intents (c1\<lparr>cl_store := s\<rparr>) \<subseteq> insert (m, pn_orderId head, pn_command head) (intents c)"
    using reissued_intents [OF assms(4,3) m, of c1] by auto
  then have "queued (c1\<lparr>cl_store := s\<rparr>) \<subseteq> insert m (queued c)" by (fastforce simp: queued_intents)
  with grown_randomUUID [OF grown_refl assms(2)] show ?thesis by (auto simp: grown_def drawn_ids_def)
qed

lemma grown_rebase_loop:
  assumes "rebase_loop fuel (store_deps api) t i version c = Some (outcome, c')" and "grown c0 c" and "new_ids c"
  shows "grown c0 c'"
  using assms
proof (induction fuel arbitrary: c version)
  case (Suc fuel)
  from Suc.prems(1) show ?case
  proof (cases rule: rebase_loop_round)
    case (stopped s)
    then show ?thesis using Suc.prems(2) by (simp add: grown_store)
  next
    case (refused m c1 s)
    have "cl_store c1 = cl_store c" using refused(1) randomUUID_frame(1) [of c] by simp
    then show ?thesis using grown_randomUUID(1) [OF Suc.prems(2) refused(1)] refused by (simp add: grown_store)
  next
    case (sent m c1 head row s a c3)
    have g: "grown c (c1\<lparr>cl_store := s\<rparr>)" by (rule grown_reissued [OF Suc.prems(3) sent(1,2,6) [unfolded sent(5)]])
    from grown_trans [OF Suc.prems(2) g] have "grown c0 (c1\<lparr>cl_store := s\<rparr>)" .
    note g3 = grown_attempt [OF this sent(7)] grown_attempt [OF g sent(7)]
    from Suc.IH [OF _ g3(1) new_ids_grown [OF Suc.prems(3) g3(2)]] show ?thesis using sent(8) g3(1) by (cases a) auto
  qed
qed simp

lemma rebase_loop_sends:
  "rebase_loop fuel (store_deps api) t i version c = Some (outcome, c') \<Longrightarrow> \<exists>batch. w_sent (cl_world c') = w_sent (cl_world c) @ batch"
proof (induction fuel arbitrary: c version)
  case (Suc fuel)
  from Suc.prems show ?case
  proof (cases rule: rebase_loop_round)
    case (refused n c1 s)
    then show ?thesis using randomUUID_frame(4) [of c] by simp
  next
    case (sent n c1 head row s a c3)
    have s3: "w_sent (cl_world c3) = w_sent (cl_world c) @ [(pn_orderId row, requestOf row)]"
      using attempt_sends [of api row "c1\<lparr>cl_store := s\<rparr>"] sent(1,7) randomUUID_frame(4) [of c] by simp
    show ?thesis
    proof (cases "\<exists>snap. a = AttemptApplied snap")
      case True
      then obtain snap :: order_snapshot where "rebase_loop fuel (store_deps api) t i (snap_version snap) c3 = Some (outcome, c')"
        using sent(8) by auto
      from Suc.IH [OF this] show ?thesis using s3 by auto
    next
      case False
      then have "c' = c3" using sent(8) by (cases a) auto
      then show ?thesis using s3 by simp
    qed
  qed simp
qed simp

text \<open>A re-issue stays one while the loop goes on, and one of a later state is one of the state before.\<close>

lemma drop_more: "set (drop (length (xs @ ys)) zs) \<subseteq> set (drop (length xs) zs)"
  by (simp add: set_drop_subset_set_drop)

lemma only_intent_loop:
  assumes "rebase_loop fuel (store_deps api) t i version c = Some (outcome, c')"
    and "only_intent m j payload c" and "\<forall>k \<ge> w_drawn (cl_world c). w_uuid (cl_world c) k \<noteq> m" and "new_ids c"
  shows "only_intent m j payload c'"
  using assms
proof (induction fuel arbitrary: c version)
  case (Suc fuel)
  from Suc.prems(1) show ?case
  proof (cases rule: rebase_loop_round)
    case (stopped s)
    then show ?thesis using Suc.prems(2) by (simp add: only_intent_def intents_def)
  next
    case (refused n c1 s)
    then show ?thesis using Suc.prems(2) by (simp add: only_intent_def intents_def)
  next
    case (sent n c1 head row s a c3)
    have n: "n \<notin> queued c" "n \<noteq> m"
      using Suc.prems(3,4) sent(1) by (auto simp: new_ids_def randomUUID_def Let_def)
    note i1 = reissued_intents [OF sent(6) [unfolded sent(5)] sent(2) n(1), of c1]
    have "only_intent m j payload (c1\<lparr>cl_store := s\<rparr>)" using Suc.prems(2) n(2) by (auto simp: only_intent_def i1)
    then have o3: "only_intent m j payload c3" using attempt_intents [OF sent(7)] by (auto simp: only_intent_def)
    have g: "grown c (c1\<lparr>cl_store := s\<rparr>)" by (rule grown_reissued [OF Suc.prems(4) sent(1,2,6) [unfolded sent(5)]])
    note g3 = grown_attempt [OF g sent(7)]
    have "\<forall>k \<ge> w_drawn (cl_world c3). w_uuid (cl_world c3) k \<noteq> m" using Suc.prems(3) g3 by (auto simp: grown_def)
    with o3 Suc.IH [OF _ o3 _ new_ids_grown [OF Suc.prems(4) g3]] show ?thesis using sent(8) by (cases a) auto
  qed
qed simp

text \<open>
  What a rebase leaves of an intent: it is kept as it was, or the loop re-issued it, and what it was re-issued as is kept, queued for the
  same order with the same command or on record at the server, to which this device sent just that.
\<close>

definition reissued_as :: "'n pos \<Rightarrow> 'n pos \<Rightarrow> uuid \<Rightarrow> uuid \<Rightarrow> bool" where
  "reissued_as c c' m m' \<longleftrightarrow>
     m' \<in> drawn_ids c c'
     \<and> (\<exists>i payload. (m, i, payload) \<in> intents c \<and> only_intent m' i payload c'
          \<and> (\<exists>r. (i, r) \<in> set (drop (length (w_sent (cl_world c))) (w_sent (cl_world c')))
               \<and> mr_mutationId r = m' \<and> mr_command r = payload))"

definition discarded :: "uuid \<Rightarrow> 'n pos \<Rightarrow> bool" where
  "discarded m c \<longleftrightarrow>
     (\<exists>r \<in> set (ls_pending (cl_store c)). pn_mutationId r = m
        \<and> os_activeTerminalId (screen_of c) = Some (pn_terminalId r) \<and> os_currentOrderId (screen_of c) = Some (pn_orderId r))"

text \<open>
  What may become of an intent, along what the operator does: it is kept, on the device or at the server; a discard it was named in
  drops it; and from a rebase on it may live on as what it was re-issued as.
\<close>

fun survives :: "'n api \<Rightarrow> (uuid \<Rightarrow> 'n \<Rightarrow> bool) \<Rightarrow> till_action list \<Rightarrow> uuid \<Rightarrow> 'n pos \<Rightarrow> bool" where
  "survives api known [] m c \<longleftrightarrow> m \<in> queued c \<or> known m (w_net (cl_world c))"
| "survives api known (a # acts) m c \<longleftrightarrow>
     (let c' = act api a c in
        survives api known acts m c'
        \<or> a = Discard \<and> discarded m c
        \<or> a = Rebase \<and> (\<exists>m'. reissued_as c c' m m' \<and> survives api known acts m' c'))"

lemma act_grown: "new_ids c \<Longrightarrow> grown c (act api a c)"
proof (cases a)
  case Rebase
  assume new: "new_ids c"
  let ?c1 = "on_screen (\<lambda>s. s\<lparr>os_conflict := None\<rparr>) c"
  have "new_ids ?c1" using new by (simp add: new_ids_def fresh_supply_def)
  note g = grown_rebase_loop [OF _ grown_on_screen [OF grown_refl] this]
  show ?thesis
    using g by (auto simp: Rebase rebaseHalted_def rebase_def Let_def split: option.splits intro!: grown_reportResolution)
qed (simp_all add: useTerminal_def releaseTerminal_def grown_hydrate grown_refetch grown_sync grown_createOrder fixedCommand_def
    stepQuantity_def grown_command grown_focusOrder clear_order_def detach_def grown_discardHalted Let_def split: option.splits)

context mutation_server
begin

lemma attempt_known:
  assumes "attempt (store_deps api) row c = (a, c')"
  shows "known m (w_net (cl_world c)) \<Longrightarrow> known m (w_net (cl_world c'))"
    and "a = AttemptApplied snap \<Longrightarrow> known (pn_mutationId row) (w_net (cl_world c'))"
proof -
  obtain result where p: "postMutation (api_post api) (pn_orderId row) (requestOf row) (w_tab (cl_world c), w_net (cl_world c))
        = (result, w_tab (cl_world c'), w_net (cl_world c'))"
      "\<And>snap. a = AttemptApplied snap \<Longrightarrow> applied_answer result = Some snap"
    using attempt_answer [OF assms] by blast
  then show "known m (w_net (cl_world c)) \<Longrightarrow> known m (w_net (cl_world c'))"
    using postMutation_stays [of m "w_net (cl_world c)" "pn_orderId row" "requestOf row" "w_tab (cl_world c)"] by simp
  assume "a = AttemptApplied snap"
  then obtain response where "result = Answered response" "accepted response"
    using p(2) by (auto simp: applied_answer_def accepted_def split: post_result.splits mutation_response.splits)
  then show "known (pn_mutationId row) (w_net (cl_world c'))"
    using postMutation_known [of "pn_orderId row" "requestOf row" "w_tab (cl_world c)" "w_net (cl_world c)"] p(1)
    by (simp add: requestOf_def)
qed

lemma rebase_loop_known:
  "rebase_loop fuel (store_deps api) t i version c = Some (outcome, c') \<Longrightarrow> known m (w_net (cl_world c)) \<Longrightarrow>
     known m (w_net (cl_world c'))"
proof (induction fuel arbitrary: c version)
  case (Suc fuel)
  from Suc.prems(1) show ?case
  proof (cases rule: rebase_loop_round)
    case (refused n c1 s)
    then show ?thesis using Suc.prems(2) randomUUID_frame(3) [of c] by simp
  next
    case (sent n c1 head row s a c3)
    have "known m (w_net (cl_world (c1\<lparr>cl_store := s\<rparr>)))" using Suc.prems(2) sent(1) randomUUID_frame(3) [of c] by simp
    from Suc.IH [OF _ attempt_known(1) [OF sent(7) this]] attempt_known(1) [OF sent(7) this] show ?thesis
      using sent(8) by (cases a) auto
  qed (use Suc.prems(2) in simp)
qed simp

lemma rebase_loop_lineage:
  assumes "rebase_loop fuel (store_deps api) t i version c = Some (outcome, c')" and "new_ids c" and "m \<in> queued c"
  shows "(\<exists>batch. w_sent (cl_world c') = w_sent (cl_world c) @ batch)
    \<and> (safe (settled_at known) m c' \<or> (\<exists>m'. reissued_as c c' m m' \<and> safe (settled_at known) m' c'))"
  using assms
proof (induction fuel arbitrary: c version m)
  case (Suc fuel)
  from Suc.prems(1) show ?case
  proof (cases rule: rebase_loop_round)
    case (stopped s)
    then show ?thesis using Suc.prems(3) by (simp add: safe_def queued_def)
  next
    case (refused n c1 s)
    then show ?thesis using Suc.prems(3) randomUUID_frame(4) [of c] by (simp add: safe_def queued_def)
  next
    case (sent n c1 head row s a c3)
    let ?c2 = "c1\<lparr>cl_store := s\<rparr>"
    have n: "n \<notin> queued c" and nk: "n = w_uuid (cl_world c) (w_drawn (cl_world c))" "w_drawn (cl_world c1) = Suc (w_drawn (cl_world c))"
        "w_uuid (cl_world c1) = w_uuid (cl_world c)"
      using Suc.prems(2) sent(1) by (auto simp: new_ids_def randomUUID_def Let_def)
    have row: "pn_mutationId row = n" "pn_orderId row = i" "pn_command row = pn_command head"
      using sent(3,5) by (simp_all add: reissued_def)
    note i2 = reissued_intents [OF sent(6) [unfolded sent(5)] sent(2) n, of c1]
    have g2: "grown c ?c2" by (rule grown_reissued [OF Suc.prems(2) sent(1,2,6) [unfolded sent(5)]])
    note g3 = grown_attempt [OF g2 sent(7)]
    note new3 = new_ids_grown [OF Suc.prems(2) g3]
    have sent3: "w_sent (cl_world c3) = w_sent (cl_world c) @ [(i, requestOf row)]"
      using attempt_sends [of api row ?c2] sent(1,7) randomUUID_frame(4) [of c] by (simp add: row)
    have d3: "w_drawn (cl_world c3) = Suc (w_drawn (cl_world c))" "w_uuid (cl_world c3) = w_uuid (cl_world c)"
      using attempt_draws [of api row ?c2] sent(7) nk by simp_all
    have ndr: "\<forall>k \<ge> w_drawn (cl_world c3). w_uuid (cl_world c3) k \<noteq> n"
      using Suc.prems(2) by (auto simp: d3 nk new_ids_def dest!: inj_onD [of _ _ _ "w_drawn (cl_world c)"])
    \<comment> \<open>where the rest of the loop, if there is one, starts\<close>
    have rest: "c' = c3 \<or> (\<exists>snap. a = AttemptApplied snap \<and> rebase_loop fuel (store_deps api) t i (snap_version snap) c3 = Some (outcome, c'))"
      using sent(8) by (cases a) auto
    have more: "\<exists>batch. w_sent (cl_world c') = w_sent (cl_world c3) @ batch" and g': "grown c3 c'"
      using rest rebase_loop_sends grown_rebase_loop [OF _ grown_refl new3] by fastforce+
    have kn: "known x (w_net (cl_world c'))" if "known x (w_net (cl_world c3))" for x
      using rest rebase_loop_known that by blast
    have batch: "\<exists>batch. w_sent (cl_world c') = w_sent (cl_world c) @ batch"
      and there: "(i, requestOf row) \<in> set (drop (length (w_sent (cl_world c))) (w_sent (cl_world c')))"
      using more sent3 by auto
    have between: "n \<in> drawn_ids c c'" "drawn_ids c3 c' \<subseteq> drawn_ids c c'"
      using g' d3 nk by (auto simp: drawn_ids_def grown_def)
    have "only_intent n i (pn_command head) ?c2" using n sent(3) by (auto simp: only_intent_def i2 queued_intents)
    then have o3: "only_intent n i (pn_command head) c3" using attempt_intents [OF sent(7)] by (auto simp: only_intent_def)
    then have "only_intent n i (pn_command head) c'" using rest only_intent_loop [OF _ o3 ndr new3] by blast
    moreover have "(pn_mutationId head, i, pn_command head) \<in> intents c"
      using sent(2,3) by (force simp: intents_def intent_of_def)
    ultimately have head: "reissued_as c c' (pn_mutationId head) n"
      unfolding reissued_as_def using between(1) there row by (fastforce simp: requestOf_def)
    have safe3: "safe (settled_at known) x c3" if "x \<in> queued ?c2" for x
      using store.attempt_safe [OF sent(7)] that by (simp add: safe_def)
    have "n \<in> queued ?c2" by (auto simp: queued_intents i2)
    then have "safe (settled_at known) n c3" by (rule safe3)
    then have safe_n: "safe (settled_at known) n c'"
      using rest attempt_known(2) [OF sent(7)] kn by (auto simp: row safe_def settled_at_def)
    show ?thesis
    proof (cases "m = pn_mutationId head")
      case True
      then show ?thesis using batch head safe_n by blast
    next
      case False
      then have "m \<in> queued ?c2" using Suc.prems(3) by (auto simp: queued_intents i2)
      note s3 = safe3 [OF this]
      have neq: "m \<noteq> n" using n Suc.prems(3) by blast
      show ?thesis
      proof (cases "c' = c3 \<or> known m (w_net (cl_world c3))")
        case True
        then have "safe (settled_at known) m c'" using s3 kn by (auto simp: safe_def settled_at_def)
        then show ?thesis using batch by blast
      next
        case False
        then have "m \<in> queued c3" using s3 by (simp add: safe_def settled_at_def)
        moreover obtain snap :: order_snapshot where "rebase_loop fuel (store_deps api) t i (snap_version snap) c3 = Some (outcome, c')"
          using rest False by blast
        ultimately have ih: "safe (settled_at known) m c' \<or> (\<exists>m'. reissued_as c3 c' m m' \<and> safe (settled_at known) m' c')"
          using Suc.IH [OF _ new3] by blast
        have "x \<in> intents c" if "x \<in> intents c3" "fst x = m" for x
          using that attempt_intents [OF sent(7)] neq by (auto simp: i2)
        moreover have "set (drop (length (w_sent (cl_world c3))) (w_sent (cl_world c')))
            \<subseteq> set (drop (length (w_sent (cl_world c))) (w_sent (cl_world c')))"
          unfolding sent3 by (rule drop_more)
        ultimately have "reissued_as c c' m m'" if "reissued_as c3 c' m m'" for m'
          using that between(2) unfolding reissued_as_def by (metis fst_conv subsetD)
        with ih batch show ?thesis by blast
      qed
    qed
  qed
qed simp

lemma reportResolution_safe:
  "safe (settled_at known) m c \<Longrightarrow> safe (settled_at known) m (reportResolution api t i resolution held c)"
  using report_stays [of m "w_net (cl_world c)" i t resolution]
  by (auto simp: reportResolution_def postConflictResolution_def Let_def safe_def settled_at_def queued_def)

lemma rebaseHalted_lineage:
  assumes run: "rebaseHalted api c = Some c'" and new: "new_ids c" and m: "safe (settled_at known) m c"
  shows "grown c c' \<and> (safe (settled_at known) m c' \<or> (\<exists>m'. reissued_as c c' m m' \<and> safe (settled_at known) m' c'))"
proof (cases "os_activeTerminalId (screen_of c) = None \<or> os_currentOrderId (screen_of c) = None")
  case True
  then have "c' = c" using run by (auto simp: rebaseHalted_def split: option.splits)
  then show ?thesis using m by simp
next
  case False
  then obtain t i where ti: "os_activeTerminalId (screen_of c) = Some t" "os_currentOrderId (screen_of c) = Some i" by auto
  let ?c1 = "on_screen (\<lambda>s. s\<lparr>os_conflict := None\<rparr>) c"
  obtain outcome c3 where l: "rebase_loop (rebase_fuel (cl_store ?c1)) (store_deps api) t i (canonical_version i ?c1) ?c1 = Some (outcome, c3)"
    and c': "c' = reportResolution api t i REBASED (queuedIdsFor i (screen_of c)) (refreshQueue (refreshQueue c3))"
    using run ti by (auto simp: rebaseHalted_def rebase_def Let_def split: option.splits)
  have n1: "new_ids ?c1" using new by (simp add: new_ids_def fresh_supply_def)
  have "grown c c3" using grown_rebase_loop [OF l _ n1] by simp
  then have g: "grown c c'" unfolding c' by (simp add: grown_reportResolution)
  have "w_drawn (cl_world c') = w_drawn (cl_world c3)" "w_sent (cl_world c') = w_sent (cl_world c3)" "intents c' = intents c3"
    by (simp_all add: c' reportResolution_def Let_def intents_def)
  then have same: "reissued_as ?c1 c3 m m' \<Longrightarrow> reissued_as c c' m m'" for m'
    by (simp add: reissued_as_def drawn_ids_def only_intent_def)
  have "safe (settled_at known) m c3 \<or> (\<exists>m'. reissued_as ?c1 c3 m m' \<and> safe (settled_at known) m' c3)"
  proof (cases "m \<in> queued c")
    case True
    then show ?thesis using rebase_loop_lineage [OF l n1, of m] by simp
  next
    case False
    then have "known m (w_net (cl_world ?c1))" using m by (simp add: safe_def settled_at_def)
    from rebase_loop_known [OF l this] show ?thesis by (simp add: safe_def settled_at_def)
  qed
  moreover have "safe (settled_at known) x c3 \<Longrightarrow> safe (settled_at known) x c'" for x
    unfolding c' by (intro reportResolution_safe) simp
  ultimately show ?thesis using g same by blast
qed

text \<open>A discard drops the rows of the order on the screen that are the terminal's own, and no other intent.\<close>

lemma discardHalted_safe:
  assumes m: "safe (settled_at known) m c"
  shows "safe (settled_at known) m (discardHalted api c) \<or> discarded m c"
proof (cases "os_activeTerminalId (screen_of c) = None \<or> os_currentOrderId (screen_of c) = None")
  case True
  then have "discardHalted api c = c" by (auto simp: discardHalted_def split: option.splits)
  then show ?thesis using m by simp
next
  case False
  then obtain t i where ti: "os_activeTerminalId (screen_of c) = Some t" "os_currentOrderId (screen_of c) = Some i" by auto
  let ?c1 = "on_store (discardOrderQueue t i) c"
  have "m \<in> queued ?c1 \<or> discarded m c" if "m \<in> queued c"
  proof -
    from that obtain r where r: "r \<in> set (ls_pending (cl_store c))" "pn_mutationId r = m" by (auto simp: queued_def)
    show ?thesis
    proof (cases "pn_orderId r = i \<and> pn_terminalId r = t")
      case True
      then show ?thesis using r by (auto simp: discarded_def ti)
    next
      case False
      then have "r \<in> set (ls_pending (discardOrderQueue t i (cl_store c)))"
        using discardOrderQueue_pending [of t i "cl_store c"] r(1) by (elim disjE) simp_all
      then show ?thesis using r(2) by (auto simp: queued_def)
    qed
  qed
  then have "safe (settled_at known) m ?c1 \<or> discarded m c" using m by (auto simp: safe_def settled_at_def)
  then show ?thesis by (auto simp: discardHalted_def ti Let_def intro!: reportResolution_safe)
qed

lemma act_survives:
  assumes "new_ids c" and "safe (settled_at known) m c"
  shows "safe (settled_at known) m (act api a c) \<or> a = Discard \<and> discarded m c
    \<or> a = Rebase \<and> (\<exists>m'. reissued_as c (act api a c) m m' \<and> safe (settled_at known) m' (act api a c))"
proof -
  consider "a = Discard" | "a = Rebase" | "\<not> resolves a" by (auto simp: resolves_def)
  then show ?thesis
  proof cases
    case 1
    then show ?thesis using discardHalted_safe [OF assms(2)] by simp
  next
    case 2
    obtain c' where "rebaseHalted api c = Some c'" using rebaseHalted_returns by blast
    then show ?thesis using rebaseHalted_lineage [OF _ assms] 2 by auto
  next
    case 3
    then show ?thesis using act_safe [OF _ assms(2)] by blast
  qed
qed

lemma survival: "new_ids c \<Longrightarrow> safe (settled_at known) m c \<Longrightarrow> survives api known acts m c"
proof (induction acts arbitrary: m c)
  case Nil
  then show ?case by (simp add: safe_def settled_at_def)
next
  case (Cons a acts)
  have "new_ids (act api a c)" by (rule new_ids_grown [OF Cons.prems(1) act_grown [OF Cons.prems(1)]])
  note ih = Cons.IH [OF this]
  from act_survives [OF Cons.prems, of a] ih show ?case by (auto simp: Let_def)
qed

end

end
