(* ===== verification/Api_Boundary.thy ===== *)
theory Api_Boundary
  imports Mutation_Properties
begin

text \<open>
  The HTTP boundary of the order write path: the schemas and routes of \<open>orders/api/mutation-routes.ts\<close>,
  \<open>orders/api/conflict-routes.ts\<close>, \<open>orders/api/order-read-routes.ts\<close> and
  \<open>kitchen/api/kitchen-command-routes.ts\<close>, the reply of \<open>orders/api/mutation-reply.ts\<close> with its counters,
  and the error handler of \<open>app.ts\<close> with \<open>shared/errors.ts\<close>.

  A body whose type and payload belong together is a \<open>mutation_request\<close>; a body that is not even that is
  refused by the same answer as one that violates a bound. \<open>z.uuid()\<close> is a third-party predicate and an
  argument here (\<open>is_uuid\<close>); \<open>z.number().int()\<close> accepts JavaScript's safe integers.
\<close>

section \<open>Schemas\<close>

definition valid_identity :: "(string \<Rightarrow> bool) \<Rightarrow> mutation_request \<Rightarrow> bool" where
  "valid_identity is_uuid r \<longleftrightarrow>
     is_uuid (mr_mutationId r) \<and> mr_terminalId r \<noteq> [] \<and> mr_restaurantId r \<noteq> []"

definition valid_quantity :: "int \<Rightarrow> bool" where
  "valid_quantity q \<longleftrightarrow> safe_int q \<and> 0 < q"

definition existing_version :: "int \<Rightarrow> bool" where
  "existing_version v \<longleftrightarrow> safe_int v \<and> 1 \<le> v"

fun valid_payload :: "mutation_command \<Rightarrow> bool" where
  "valid_payload (CreateOrder tableNumber) \<longleftrightarrow> tableNumber \<noteq> []"
| "valid_payload (AddItem productId q) \<longleftrightarrow> productId \<noteq> [] \<and> valid_quantity q"
| "valid_payload (RemoveItem productId) \<longleftrightarrow> productId \<noteq> []"
| "valid_payload (ChangeQuantity productId q) \<longleftrightarrow> productId \<noteq> [] \<and> valid_quantity q"
| "valid_payload (Cancel (Some reason)) \<longleftrightarrow> 1 \<le> length reason \<and> length reason \<le> 200"
| "valid_payload _ \<longleftrightarrow> True"

definition mutationSchema :: "(string \<Rightarrow> bool) \<Rightarrow> mutation_request \<Rightarrow> bool" where
  "mutationSchema is_uuid r \<longleftrightarrow>
     valid_identity is_uuid r \<and> valid_payload (mr_command r) \<and>
     (if mutation_type_of (mr_command r) = CREATE_ORDER then mr_baseVersion r = 0
      else existing_version (mr_baseVersion r))"

section \<open>Replies\<close>

datatype http_reply =
    MutationReply nat mutation_response
  | OrderReply order_snapshot
  | ResolvedReply nat
  | ErrorReply nat api_error_code string

definition validationFailed :: "string \<Rightarrow> http_reply" where
  "validationFailed message = ErrorReply 400 VALIDATION_FAILED message"

text \<open>The error handler: an \<open>ApiError\<close> keeps its status, anything else is anonymous.\<close>

definition error_reply :: "string \<Rightarrow> failure \<Rightarrow> http_reply" where
  "error_reply message e =
     (case e of
        ApiFailure status code \<Rightarrow> ErrorReply status code message
      | InternalFailure \<Rightarrow> ErrorReply 500 INTERNAL_ERROR ''The request could not be processed.'')"

definition failure_message :: "mutation_input \<Rightarrow> failure \<Rightarrow> string" where
  "failure_message input e =
     (case (e, in_command input) of
        (ApiFailure _ PRODUCT_NOT_FOUND, AddItem productId _) \<Rightarrow> ''Unknown product '' @ productId @ ''.''
      | _ \<Rightarrow> ''Order '' @ in_orderId input @ '' does not exist.'')"

section \<open>Counters\<close>

datatype process_counter =
    apiRequests | apiErrors | mutationsReceived | mutationsApplied | duplicateMutationsPrevented
  | mutationIdReuseRejected | crossTenantRejections | realtimeEventsBroadcast

type_synonym counters = "process_counter \<Rightarrow> nat"

definition incrementCounter :: "process_counter \<Rightarrow> counters \<Rightarrow> counters" where
  "incrementCounter name k = k(name := k name + 1)"

definition countOutcome :: "mutation_response \<Rightarrow> counters \<Rightarrow> counters" where
  "countOutcome response k =
     (let k1 = incrementCounter mutationsReceived k in
      case response of
        APPLIED _ _ \<Rightarrow> incrementCounter mutationsApplied k1
      | ALREADY_APPLIED _ _ \<Rightarrow> incrementCounter duplicateMutationsPrevented k1
      | MUTATION_ID_REUSED \<Rightarrow> incrementCounter mutationIdReuseRejected k1
      | REJECTED \<Rightarrow> incrementCounter crossTenantRejections k1
      | CONFLICT_RESPONSE _ _ _ _ \<Rightarrow> k1)"

definition reply_status :: "http_reply \<Rightarrow> nat" where
  "reply_status reply =
     (case reply of
        MutationReply status _ \<Rightarrow> status
      | ErrorReply status _ _ \<Rightarrow> status
      | _ \<Rightarrow> 200)"

text \<open>The \<open>onResponse\<close> hook.\<close>

definition onResponse :: "http_reply \<Rightarrow> counters \<Rightarrow> counters" where
  "onResponse reply k =
     (let k1 = incrementCounter apiRequests k in
      if reply_status reply \<ge> 400 then incrementCounter apiErrors k1 else k1)"

section \<open>Routes\<close>

definition executeMutation ::
  "(string \<Rightarrow> string) \<Rightarrow> tx_env \<Rightarrow> mutation_input \<Rightarrow> db \<times> counters \<Rightarrow> http_reply \<times> db \<times> counters" where
  "executeMutation sha256 env input s =
     (case s of (d, k) \<Rightarrow>
        (case applyMutation sha256 env d input of
           (Inl e, d') \<Rightarrow> (error_reply (failure_message input e) e, d', k)
         | (Inr outcome, d') \<Rightarrow>
             (MutationReply (out_httpStatus outcome) (out_body outcome), d',
              countOutcome (out_body outcome) k)))"

definition route_input :: "uuid \<Rightarrow> mutation_request \<Rightarrow> string option \<Rightarrow> mutation_input" where
  "route_input orderId r traceId =
     \<lparr>in_orderId = orderId, in_mutationId = mr_mutationId r, in_terminalId = mr_terminalId r,
      in_restaurantId = mr_restaurantId r, in_baseVersion = mr_baseVersion r,
      in_command = mr_command r, in_traceId = traceId\<rparr>"

definition mutationRoute ::
  "(string \<Rightarrow> bool) \<Rightarrow> (string \<Rightarrow> string) \<Rightarrow> tx_env \<Rightarrow> string option \<Rightarrow> uuid \<Rightarrow> mutation_request
     \<Rightarrow> db \<times> counters \<Rightarrow> http_reply \<times> db \<times> counters" where
  "mutationRoute is_uuid sha256 env traceId orderId r s =
     (if \<not> is_uuid orderId then (validationFailed ''orderId must be a UUID.'', s)
      else if \<not> mutationSchema is_uuid r then (validationFailed ''The mutation body is not valid.'', s)
      else executeMutation sha256 env (route_input orderId r traceId) s)"

datatype kitchen_segment = preparing | ready

definition kitchen_command :: "kitchen_segment \<Rightarrow> mutation_command" where
  "kitchen_command segment = (case segment of preparing \<Rightarrow> StartPreparing | ready \<Rightarrow> MarkReady)"

text \<open>The body of a kitchen command: an identity with an optional terminal.\<close>

record kitchen_body =
  kb_mutationId :: uuid
  kb_restaurantId :: tenant
  kb_baseVersion :: int
  kb_terminalId :: "string option"

definition kitchenBodySchema :: "(string \<Rightarrow> bool) \<Rightarrow> kitchen_body \<Rightarrow> bool" where
  "kitchenBodySchema is_uuid b \<longleftrightarrow>
     is_uuid (kb_mutationId b) \<and> kb_restaurantId b \<noteq> [] \<and> existing_version (kb_baseVersion b)
     \<and> kb_terminalId b \<noteq> Some []"

definition kitchenCommandRoute ::
  "(string \<Rightarrow> bool) \<Rightarrow> (string \<Rightarrow> string) \<Rightarrow> tx_env \<Rightarrow> string option \<Rightarrow> kitchen_segment \<Rightarrow> uuid \<Rightarrow> kitchen_body
     \<Rightarrow> db \<times> counters \<Rightarrow> http_reply \<times> db \<times> counters" where
  "kitchenCommandRoute is_uuid sha256 env traceId segment orderId b s =
     (if \<not> is_uuid orderId then (validationFailed ''orderId must be a UUID.'', s)
      else if \<not> kitchenBodySchema is_uuid b
      then (validationFailed ''The kitchen command body is not valid.'', s)
      else executeMutation sha256 env
             \<lparr>in_orderId = orderId, in_mutationId = kb_mutationId b,
              in_terminalId = (case kb_terminalId b of Some t \<Rightarrow> t | None \<Rightarrow> KITCHEN_TERMINAL_ID),
              in_restaurantId = kb_restaurantId b, in_baseVersion = kb_baseVersion b,
              in_command = kitchen_command segment, in_traceId = traceId\<rparr> s)"

text \<open>\<open>GET /api/orders/:orderId\<close>, one repeatable-read snapshot.\<close>

definition orderReadRoute :: "(string \<Rightarrow> bool) \<Rightarrow> uuid \<Rightarrow> db \<Rightarrow> http_reply" where
  "orderReadRoute is_uuid orderId d =
     (if \<not> is_uuid orderId then validationFailed ''orderId must be a UUID.''
      else case loadOrderSnapshot d orderId of
        None \<Rightarrow> ErrorReply 404 ORDER_NOT_FOUND ''No order with that id.''
      | Some order \<Rightarrow> OrderReply order)"

definition resolutionBodySchema :: "(string \<Rightarrow> bool) \<Rightarrow> string \<Rightarrow> uuid list \<Rightarrow> bool" where
  "resolutionBodySchema is_uuid terminalId mutationIds \<longleftrightarrow>
     terminalId \<noteq> [] \<and> 1 \<le> length mutationIds \<and> length mutationIds \<le> 100
     \<and> (\<forall>m \<in> set mutationIds. is_uuid m)"

definition conflictRoute ::
  "(string \<Rightarrow> bool) \<Rightarrow> uuid \<Rightarrow> string \<Rightarrow> conflict_resolution \<Rightarrow> uuid list \<Rightarrow> db \<Rightarrow> http_reply \<times> db" where
  "conflictRoute is_uuid orderId terminalId resolution mutationIds d =
     (if \<not> is_uuid orderId then (validationFailed ''orderId must be a UUID.'', d)
      else if \<not> resolutionBodySchema is_uuid terminalId mutationIds
      then (validationFailed ''The resolution body is not valid.'', d)
      else let (n, d') = recordConflictResolution d orderId terminalId resolution mutationIds
           in (ResolvedReply n, d'))"

section \<open>What the handler is called with, and what it records\<close>

lemma valid_payload_command: "valid_payload c \<Longrightarrow> command_valid c"
  by (cases c) (auto simp: valid_quantity_def)

lemma accepted_is_recorded:
  assumes run: "applyMutation sha256 env d input = (Inr out, d')"
    and ok: "(\<exists>s v. out_body out = APPLIED s v) \<or> (\<exists>s v. out_body out = ALREADY_APPLIED s v)"
  shows "db_processed d' (in_mutationId input) \<noteq> None"
  using run
proof (cases rule: applyMutation_cases)
  case (applied snapshot st)
  then show ?thesis by (simp add: committed_def)
next
  case (replayed outcome)
  then show ?thesis using read_processed_None by blast
next
  case (refused sig)
  show ?thesis
  proof (cases "db_processed d (in_mutationId input)")
    case None
    then show ?thesis
      using refused(2) ok
      by (cases sig)
        (auto simp: catchSignal_def alreadyAppliedOutcome_def settle_already_applied_def
           insert_processed_def conflictOutcome_at_def racedOutcome_def
           split: option.splits if_splits sum.splits decision.splits)
  next
    case (Some p)
    then have "db_processed d' (in_mutationId input) = Some p"
      using refused(2)
      by (cases sig)
        (auto simp: catchSignal_def alreadyAppliedOutcome_def settle_already_applied_def
           insert_processed_def conflictOutcome_at_def racedOutcome_def
           split: option.splits if_splits sum.splits decision.splits prod.splits)
    then show ?thesis by simp
  qed
qed

lemma applyMutation_records_stay:
  assumes "applyMutation sha256 env d input = (res, d')" and "db_processed d m \<noteq> None"
  shows "db_processed d' m \<noteq> None"
  using assms(1)
proof (cases rule: applyMutation_cases)
  case (applied snapshot st)
  then show ?thesis using assms(2) by (simp add: committed_def)
next
  case (replayed outcome)
  then show ?thesis using assms(2) by simp
next
  case (refused sig)
  then show ?thesis
    using assms(2)
    by (cases sig)
      (auto simp: catchSignal_def alreadyAppliedOutcome_def settle_already_applied_def
         insert_processed_def conflictOutcome_at_def racedOutcome_def
         split: option.splits if_splits sum.splits decision.splits prod.splits)
qed

end
