(* ===== verification/End_To_End.thy ===== *)
theory End_To_End
  imports Halt_Resolution Api_Boundary
begin

text \<open>
  A browser and the API together: the order store over the routes, through a network that may lose a
  request or its answer. The API provides the contract \<open>mutation_server\<close> the browser relies on, so the
  facts of the sync engine hold of the whole system.
\<close>

section \<open>The API behind a network\<close>

text \<open>
  \<open>Lost_answer\<close> is the case the idempotency exists for: the mutation committed and nobody heard. The
  script lists what happens to the next requests; an exhausted script delivers. Event ids and the
  clock of the server are drawn one per request.
\<close>

datatype delivery = Delivered | Lost_request | Lost_answer

record net =
  net_db :: db
  net_counters :: counters
  net_script :: "delivery list"
  net_event :: "nat \<Rightarrow> uuid"
  net_served :: nat

fun api_error_name :: "api_error_code \<Rightarrow> string" where
  "api_error_name VALIDATION_FAILED = ''VALIDATION_FAILED''"
| "api_error_name ORDER_NOT_FOUND = ''ORDER_NOT_FOUND''"
| "api_error_name PRODUCT_NOT_FOUND = ''PRODUCT_NOT_FOUND''"
| "api_error_name ROUTE_NOT_FOUND = ''ROUTE_NOT_FOUND''"
| "api_error_name PRINTER_OFFLINE = ''PRINTER_OFFLINE''"
| "api_error_name INTERNAL_ERROR = ''INTERNAL_ERROR''"

definition fetched :: "http_reply \<Rightarrow> fetch_result" where
  "fetched reply =
     (case reply of
        MutationReply _ response \<Rightarrow> Body response
      | ErrorReply status code message \<Rightarrow> Envelope (Some (api_error_name code)) (Some message) status
      | OrderReply _ \<Rightarrow> Envelope None None 200
      | ResolvedReply _ \<Rightarrow> Envelope None None 200)"

definition deliver :: "net \<Rightarrow> delivery \<times> net" where
  "deliver n =
     (case net_script n of [] \<Rightarrow> (Delivered, n) | x # xs \<Rightarrow> (x, n\<lparr>net_script := xs\<rparr>))"

definition server_env :: "net \<Rightarrow> tx_env" where
  "server_env n = \<lparr>tx_now = net_served n, tx_eventId = net_event n (net_served n)\<rparr>"

definition api_wire :: "(string \<Rightarrow> bool) \<Rightarrow> (string \<Rightarrow> string) \<Rightarrow> net wire" where
  "api_wire is_uuid sha256 orderId r n =
     (case deliver n of
        (Lost_request, n1) \<Rightarrow> (NetworkError ''Failed to fetch'', n1)
      | (d, n1) \<Rightarrow>
          (let (reply, db', k') = mutationRoute is_uuid sha256 (server_env n1) None orderId r
                                    (net_db n1, net_counters n1);
               n2 = n1\<lparr>net_db := db', net_counters := onResponse reply k', net_served := net_served n1 + 1\<rparr>
           in (if d = Lost_answer then NetworkError ''Failed to fetch'' else fetched reply, n2)))"

definition api_order_read :: "(string \<Rightarrow> bool) \<Rightarrow> uuid \<Rightarrow> net \<Rightarrow> read_result \<times> net" where
  "api_order_read is_uuid orderId n =
     (case deliver n of
        (Delivered, n1) \<Rightarrow>
          ((case orderReadRoute is_uuid orderId (net_db n1) of
              OrderReply order \<Rightarrow> ReadBody order
            | ErrorReply status code message \<Rightarrow> ReadEnvelope (Some (api_error_name code)) (Some message) status
            | _ \<Rightarrow> ReadNetworkError ''unexpected body''), n1)
      | (_, n1) \<Rightarrow> (ReadNetworkError ''Failed to fetch'', n1))"

definition api_report ::
  "(string \<Rightarrow> bool) \<Rightarrow> uuid \<Rightarrow> string \<Rightarrow> conflict_resolution \<Rightarrow> uuid list \<Rightarrow> net \<Rightarrow> net" where
  "api_report is_uuid orderId terminalId resolution mutationIds n =
     (case deliver n of
        (Lost_request, n1) \<Rightarrow> n1
      | (_, n1) \<Rightarrow>
          n1\<lparr>net_db := snd (conflictRoute is_uuid orderId terminalId resolution mutationIds (net_db n1))\<rparr>)"

definition pos_api :: "(string \<Rightarrow> bool) \<Rightarrow> (string \<Rightarrow> string) \<Rightarrow> net api" where
  "pos_api is_uuid sha256 =
     \<lparr>api_post = api_wire is_uuid sha256, api_read = api_order_read is_uuid, api_resolve = api_report is_uuid\<rparr>"

definition recorded :: "uuid \<Rightarrow> net \<Rightarrow> bool" where
  "recorded m n \<longleftrightarrow> db_processed (net_db n) m \<noteq> None"

section \<open>The API keeps the contract\<close>

lemma deliver_db: "deliver n = (d, n1) \<Longrightarrow> net_db n1 = net_db n"
  by (auto simp: deliver_def split: list.splits)

lemma executeMutation_recorded:
  assumes "executeMutation sha256 env input (d, k) = (MutationReply st response, d', k')" and "accepted response"
  shows "db_processed d' (in_mutationId input) \<noteq> None"
  using assms accepted_is_recorded [of sha256 env d input _ d']
  by (auto simp: executeMutation_def error_reply_def accepted_def
      split: prod.splits sum.splits failure.splits mutation_response.splits)

lemma executeMutation_records_stay:
  "executeMutation sha256 env input (d, k) = (reply, d', k') \<Longrightarrow> db_processed d m \<noteq> None \<Longrightarrow> db_processed d' m \<noteq> None"
  by (auto simp: executeMutation_def split: prod.splits sum.splits dest: applyMutation_records_stay)

lemma mutationRoute_recorded:
  assumes "mutationRoute is_uuid sha256 env traceId i r (d, k) = (MutationReply st response, d', k')"
    and "accepted response"
  shows "db_processed d' (mr_mutationId r) \<noteq> None"
  using assms executeMutation_recorded [of sha256 env "route_input i r traceId" d k st response d' k']
  by (auto simp: mutationRoute_def validationFailed_def route_input_def split: if_splits)

lemma mutationRoute_records_stay:
  "mutationRoute is_uuid sha256 env traceId i r (d, k) = (reply, d', k') \<Longrightarrow> db_processed d m \<noteq> None \<Longrightarrow>
     db_processed d' m \<noteq> None"
  by (auto simp: mutationRoute_def split: if_splits dest: executeMutation_records_stay)

interpretation pos: mutation_server "pos_api is_uuid sha256" recorded for is_uuid sha256
proof
  fix i r n response n'
  assume w: "api_post (pos_api is_uuid sha256) i r n = (Body response, n')" and acc: "accepted response"
  obtain d n1 where d: "deliver n = (d, n1)" by fastforce
  obtain reply db' k' where m: "mutationRoute is_uuid sha256 (server_env n1) None i r (net_db n1, net_counters n1) = (reply, db', k')"
    using prod_cases3 by blast
  have "d = Delivered" and "fetched reply = Body response" and n': "net_db n' = db'"
    using w by (cases d; auto simp: pos_api_def api_wire_def d m Let_def)+
  then obtain st where "reply = MutationReply st response"
    by (cases reply) (auto simp: fetched_def)
  then show "recorded (mr_mutationId r) n'"
    using mutationRoute_recorded m acc n' by (auto simp: recorded_def)
next
  fix m n i r
  assume k: "recorded m n"
  obtain d n1 where d: "deliver n = (d, n1)" by fastforce
  obtain reply db' k' where m: "mutationRoute is_uuid sha256 (server_env n1) None i r (net_db n1, net_counters n1) = (reply, db', k')"
    using prod_cases3 by blast
  have "db_processed db' m \<noteq> None" using mutationRoute_records_stay [OF m] k deliver_db [OF d] by (simp add: recorded_def)
  moreover have "db_processed (net_db n1) m \<noteq> None" using k deliver_db [OF d] by (simp add: recorded_def)
  ultimately show "recorded m (snd (api_post (pos_api is_uuid sha256) i r n))"
    using d by (cases d) (simp_all add: pos_api_def api_wire_def m Let_def recorded_def)
next
  fix m n i
  assume "recorded m n"
  then show "recorded m (snd (api_read (pos_api is_uuid sha256) i n))"
    by (auto simp: pos_api_def api_order_read_def recorded_def deliver_db
        split: prod.splits delivery.splits)
next
  fix m n i t r ms
  assume "recorded m n"
  then show "recorded m (api_resolve (pos_api is_uuid sha256) i t r ms n)"
    by (auto simp: pos_api_def api_report_def recorded_def deliver_db conflictRoute_def
        recordConflictResolution_def Let_def split: prod.splits delivery.splits)
qed

section \<open>A till to evaluate on\<close>

definition demo_tab :: tab where
  "demo_tab = \<lparr>tab_offlineTerminals = [], tab_arms = (\<lambda>_. False), tab_latches = (\<lambda>_. False), tab_effects = []\<rparr>"

definition demo_net :: "delivery list \<Rightarrow> net" where
  "demo_net script = \<lparr>net_db = demo_open, net_counters = (\<lambda>_. 0), net_script = script,
     net_event = (\<lambda>n. if n = 0 then ''e10'' else if n = 1 then ''e11'' else ''e12''), net_served = 0\<rparr>"

definition demo_screen :: screen where
  "demo_screen = \<lparr>os_order = loadOrderSnapshot demo_open ''o1'', os_currentOrderId = Some ''o1'',
     os_conflict = None, os_lastError = None, os_readError = None, os_queue = [],
     os_activeTerminalId = Some ''pos-1'', os_generation = 1\<rparr>"

definition demo_row :: "uuid \<Rightarrow> int \<Rightarrow> pending_status \<Rightarrow> mutation_command \<Rightarrow> pending_row" where
  "demo_row m v st c = \<lparr>pn_mutationId = m, pn_restaurantId = ''demo-restaurant'', pn_terminalId = ''pos-1'',
     pn_orderId = ''o1'', pn_baseVersion = v, pn_command = c, pn_createdAt = 7, pn_status = st\<rparr>"

definition demo_pos :: "pending_row list \<Rightarrow> string option list \<Rightarrow> delivery list \<Rightarrow> net pos" where
  "demo_pos rows faults script =
     \<lparr>cl_store = empty_store\<lparr>ls_pending := rows, ls_faults := faults\<rparr>, cl_requested = None, cl_now = 50,
      cl_world = \<lparr>w_tab = demo_tab, w_screen = demo_screen, w_menu = demo_menu, w_net = demo_net script,
        w_uuid = (\<lambda>n. if n = 0 then ''u0'' else ''u1''), w_drawn = 0, w_sent = []\<rparr>\<rparr>"

definition demo_api :: "net api" where
  "demo_api = pos_api (\<lambda>_. True) id"

definition burger_row :: "pending_status \<Rightarrow> pending_row" where
  "burger_row st = demo_row ''m5'' 1 st (AddItem ''burger'' 1)"

lemma demo_pos_simps [simp]:
  "ls_pending (cl_store (demo_pos rows faults script)) = rows"
  "ls_faults (cl_store (demo_pos rows faults script)) = faults"
  "w_sent (cl_world (demo_pos rows faults script)) = []"
  "w_net (cl_world (demo_pos rows faults script)) = demo_net script"
  by (simp_all add: demo_pos_def)

lemma burger_row_simps [simp]:
  "pn_mutationId (burger_row st) = ''m5''" "pn_terminalId (burger_row st) = ''pos-1''"
  "pn_orderId (burger_row st) = ''o1''" "pn_command (burger_row st) = AddItem ''burger'' 1"
  by (simp_all add: burger_row_def demo_row_def)

section \<open>Properties\<close>

text \<open>
  C20. No intent is lost but by a human's discard. Whatever the operator does at the till, one operation after the other in whatever order, with any storage
  failures, any requests and answers lost, the terminal switched off and on, any control armed and the tab reloaded in between: a mutation that was queued or
  on record is, at every later moment, still in the queue of the device or on record at the server, as long as no halt is resolved.
  With the two resolutions, and ids that are new when they are drawn, it stays so until a discard, which drops the rows of the order on the screen that are the
  terminal's own and no other, or a rebase. What a rebase does not keep it has re-issued under an id drawn for it: a request with
  the same command for the same order left under this id, nothing else is queued under it, and from there on the same holds of it.
\<close>

theorem queued_mutations_are_never_lost:
  fixes c :: "net pos"
  assumes "m \<in> queued c \<or> recorded m (w_net (cl_world c))"
  shows "((\<forall>a \<in> set acts. a \<noteq> Discard \<and> a \<noteq> Rebase) \<longrightarrow>
      m \<in> queued (fold (act (pos_api is_uuid sha256)) acts c)
      \<or> recorded m (w_net (cl_world (fold (act (pos_api is_uuid sha256)) acts c))))
    \<and> (new_ids c \<longrightarrow> survives (pos_api is_uuid sha256) recorded acts m c)"
proof -
  have s: "safe (settled_at recorded) m c" using assms by (simp add: safe_def settled_at_def)
  from pos.acts_safe [OF _ s, of acts is_uuid sha256] pos.survival [OF _ s, of is_uuid sha256 acts]
  show ?thesis by (simp add: safe_def settled_at_def resolves_def)
qed

text \<open>A halted burger is rebased and the request is lost: what lives on in the queue is its second id.\<close>

definition demo_halted :: "net pos" where
  "demo_halted =
     (let c = demo_pos [burger_row CONFLICT] [] [Lost_request]
      in c\<lparr>cl_world := (cl_world c)\<lparr>w_uuid := (\<lambda>n. CHR ''u'' # replicate n CHR ''x'')\<rparr>\<rparr>)"

lemma demo_halted_later:
  "case act demo_api Rebase demo_halted of c \<Rightarrow>
     map pn_mutationId (ls_pending (cl_store c)) = [''u''] \<and> \<not> recorded ''m5'' (w_net (cl_world c)) \<and> w_drawn (cl_world c) = 1"
  by code_simp

theorem queued_mutations_are_never_lost_witness:
  "reissued_as demo_halted (act demo_api Rebase demo_halted) ''m5'' ''u''"
proof -
  let ?later = "act demo_api Rebase demo_halted"
  have "map pn_mutationId (ls_pending (cl_store ?later)) = [''u'']" using demo_halted_later by simp
  then have "set (map pn_mutationId (ls_pending (cl_store ?later))) = {''u''}" by (simp only: list.set)
  then have later: "queued ?later = {''u''}" by (simp add: queued_def)
  have "\<not> recorded ''m5'' (w_net (cl_world ?later))" using demo_halted_later by simp
  moreover have "''m5'' \<in> queued demo_halted" by (simp add: queued_def demo_halted_def Let_def)
  moreover have "new_ids demo_halted"
    by (auto simp: new_ids_def queued_def demo_halted_def Let_def demo_pos_def inj_on_def)
  ultimately obtain m' where m': "reissued_as demo_halted ?later ''m5'' m'" "m' \<in> queued ?later \<or> recorded m' (w_net (cl_world ?later))"
    using queued_mutations_are_never_lost [of "''m5''" demo_halted "[Rebase]" "\<lambda>_. True" id] later
    by (auto simp: demo_api_def Let_def simp del: act.simps)
  have "w_drawn (cl_world demo_halted) = 0" "w_drawn (cl_world ?later) = 1"
    using demo_halted_later by (simp_all add: demo_halted_def Let_def demo_pos_def)
  then have "m' = ''u''" using m'(1) by (simp add: reissued_as_def drawn_ids_def demo_halted_def Let_def)
  then show ?thesis using m'(1) by simp
qed

text \<open>
  C21. A pass sends the queue of every order in the order its intents were formed. Of each order it sends
  a prefix of the terminal's queue, the requests as they were stored; of an order with a conflicted or
  blocked row it sends nothing.
\<close>

theorem pass_sends_each_queue_in_order:
  "\<exists>batch n. w_sent (cl_world (snd (pass (store_deps (pos_api is_uuid sha256)) t c))) = w_sent (cl_world c) @ batch
    \<and> filter (\<lambda>x. fst x = i) batch = map (\<lambda>r. (i, requestOf r))
        (take n (filter (\<lambda>r. pn_orderId r = i) (fst (readQueue t (cl_store c)))))
    \<and> (isSendable (filter (\<lambda>r. pn_orderId r = i) (fst (readQueue t (cl_store c)))) \<or> n = 0)"
proof -
  obtain batch n where
    "sent_from (snd (pass (store_deps (pos_api is_uuid sha256)) t c)) = sent_from c @ batch"
    "filter (\<lambda>x. fst x = i) batch = map (\<lambda>r. (i, requestOf r))
        (take n (filter (\<lambda>r. pn_orderId r = i) (fst (readQueue t (cl_store c)))))"
    "\<not> isSendable (filter (\<lambda>r. pn_orderId r = i) (fst (readQueue t (cl_store c)))) \<longrightarrow> n = 0"
    using pos.store.pass_sends_prefixes [OF refl, of is_uuid sha256 t c i] by blast
  then show ?thesis by (intro exI [of _ batch] exI [of _ n]) (auto simp: sent_from_def)
qed

text \<open>
  C22. On a device whose storage works, a pass that reports \<open>drained\<close> has settled the queue it found:
  every mutation of the terminal is on record at the server and gone from the device.
\<close>

theorem drained_pass_settled_the_queue:
  assumes "pass (store_deps (pos_api is_uuid sha256)) t c = (drained, c')" and "storage_works c"
    and "r \<in> set (ls_pending (cl_store c))" and "pn_terminalId r = t"
  shows "recorded (pn_mutationId r) (w_net (cl_world c')) \<and> pn_mutationId r \<notin> queued c'"
  using pos.store.pass_drained [OF assms] by (simp add: settled_and_gone_def settled_at_def)

lemma demo_pass_drained:
  "fst (pass (store_deps demo_api) ''pos-1'' (demo_pos [burger_row PENDING] [] [])) = drained"
  by code_simp

theorem drained_pass_settled_the_queue_witness:
  "recorded ''m5'' (w_net (cl_world (snd (pass (store_deps demo_api) ''pos-1'' (demo_pos [burger_row PENDING] [] [])))))"
proof -
  let ?c = "demo_pos [burger_row PENDING] [] []"
  have p: "pass (store_deps (pos_api (\<lambda>_. True) id)) ''pos-1'' ?c
      = (drained, snd (pass (store_deps demo_api) ''pos-1'' ?c))"
    using demo_pass_drained by (metis demo_api_def prod.collapse)
  from drained_pass_settled_the_queue [OF p, of "burger_row PENDING"] show ?thesis
    by (simp add: storage_works_def)
qed

text \<open>
  A pass whose read of the queue fails reports \<open>drained\<close>: the neutral answer of the repository is an
  empty queue, so nothing is sent, and the pass is counted as a success while the mutation is still
  queued.
\<close>

lemma failed_read_counts_as_drained:
  assumes "ls_faults (cl_store c) = Some detail # faults"
  shows "fst (pass deps t c) = drained \<and> ls_pending (cl_store (snd (pass deps t c))) = ls_pending (cl_store c)
    \<and> fst (loop_step deps t c) = drained"
  using assms
  by (simp add: pass_def loop_step_def readQueue_def guarded_def groupByOrder_def case_prod_unfold Let_def)

lemma failed_read_counts_as_drained_witness:
  "fst (pass (store_deps demo_api) ''pos-1'' (demo_pos [burger_row PENDING] [Some ''QuotaExceededError''] [])) = drained"
  using failed_read_counts_as_drained [of "demo_pos [burger_row PENDING] [Some ''QuotaExceededError''] []"
      "''QuotaExceededError''" "[]" "store_deps demo_api" "''pos-1''"]
  by simp

lemma demo_draws:
  "w_uuid (cl_world (demo_pos rows faults script)) 0 = ''u0''" "w_drawn (cl_world (demo_pos rows faults script)) = 0"
  by (simp_all add: demo_pos_def)

lemma demo_rebase_facts:
  "storage_works (demo_pos [burger_row CONFLICT] [] [])" "queue_ok (ls_pending (cl_store (demo_pos [burger_row CONFLICT] [] [])))"
  "fresh_supply (demo_pos [burger_row CONFLICT] [] [])"
  "length (group_of ''pos-1'' ''o1'' (demo_pos [burger_row CONFLICT] [] [])) = 1"
  by (simp_all add: storage_works_def queue_ok_def keyed_def fresh_supply_def queued_def demo_pos_def group_of_def
      terminal_queue_def)

theorem rebase_terminates_witness:
  "\<exists>outcome c'. rebase 2 (store_deps demo_api) ''pos-1'' ''o1'' (demo_pos [burger_row CONFLICT] [] []) = Some (outcome, c')"
  using rebase_terminates [of "demo_pos [burger_row CONFLICT] [] []" demo_api "''pos-1''" "''o1''"] demo_rebase_facts
  by auto

lemma demo_canonical_version: "canonical_version ''o1'' (demo_pos rows faults script) = 1"
proof -
  have "map_option (\<lambda>s. (snap_id s, snap_version s)) (loadOrderSnapshot demo_open ''o1'') = Some (''o1'', 1)"
    by code_simp
  then show ?thesis by (auto simp: canonical_version_def demo_pos_def demo_screen_def)
qed

text \<open>One queued burger, two burgers on the order.\<close>

lemma demo_twice:
  "let head = burger_row CONFLICT;
       row1 = reissued head ''u0'' 1;
       r1 = api_post demo_api ''o1'' (requestOf row1) (demo_net []);
       row2 = reissued row1 ''u1'' 2;
       r2 = api_post demo_api ''o1'' (requestOf row2) (snd r1)
   in (case fst r1 of Body (APPLIED snap1 _) \<Rightarrow> snap_version snap1 = 2 | _ \<Rightarrow> False)
      \<and> (case fst r2 of Body (APPLIED snap2 _) \<Rightarrow> map item_quantity (snap_items snap2) = [2] | _ \<Rightarrow> False)
      \<and> map_option (\<lambda>s. map item_quantity (snap_items s)) (loadOrderSnapshot (net_db (snd r2)) ''o1'') = Some [2]"
  by code_simp

text \<open>
  A burger formed on version 3, which a prediction had; the order on screen is on version 1, and that is the version the one request of the
  rebase carries.
\<close>

definition stale_burger :: pending_row where
  "stale_burger = (burger_row CONFLICT)\<lparr>pn_baseVersion := 3\<rparr>"

lemma stale_burger_simps [simp]:
  "pn_mutationId stale_burger = ''m5''" "pn_terminalId stale_burger = ''pos-1''" "pn_orderId stale_burger = ''o1''"
  "pn_command stale_burger = AddItem ''burger'' 1" "reissued stale_burger m v = reissued (burger_row CONFLICT) m v"
  by (simp_all add: stale_burger_def reissued_def)

lemma stale_rebase_facts:
  "storage_works (demo_pos [stale_burger] [] [])" "queue_ok (ls_pending (cl_store (demo_pos [stale_burger] [] [])))"
  "fresh_supply (demo_pos [stale_burger] [] [])"
  by (simp_all add: storage_works_def queue_ok_def keyed_def fresh_supply_def queued_def demo_pos_def)

lemma demo_rebase_sends:
  "\<exists>outcome c'. rebase 3 (store_deps demo_api) ''pos-1'' ''o1'' (demo_pos [stale_burger] [] []) = Some (outcome, c')
     \<and> length (w_sent (cl_world c')) = 1"
proof -
  let ?c = "demo_pos [stale_burger] [] []"
  define row where "row = reissued (burger_row CONFLICT) ''u0'' 1"
  obtain b n where p: "api_post demo_api ''o1'' (requestOf row) (demo_net []) = (b, n)" by fastforce
  have "case b of Body (APPLIED snap _) \<Rightarrow> snap_version snap = 2 | _ \<Rightarrow> False"
    using demo_twice [unfolded Let_def, folded row_def, unfolded p, simplified] by simp
  then obtain snap v where b: "b = Body (APPLIED snap v)" by (auto split: fetch_result.splits mutation_response.splits)
  have w: "tab_arms (w_tab (cl_world ?c)) = (\<lambda>_. False)" "tab_offlineTerminals (w_tab (cl_world ?c)) = []"
    by (simp_all add: demo_pos_def demo_tab_def)
  have row': "row = reissued stale_burger (w_uuid (cl_world ?c) (w_drawn (cl_world ?c)))
      (rebase_version stale_burger (canonical_version ''o1'' ?c))"
    by (simp add: row_def demo_draws demo_canonical_version rebase_version_def)
  obtain c' where c': "rebase_loop 3 (store_deps demo_api) ''pos-1'' ''o1'' (canonical_version ''o1'' ?c) ?c
        = rebase_loop 2 (store_deps demo_api) ''pos-1'' ''o1'' (snap_version snap) c'"
      "ls_pending (cl_store c') = []" "ls_faults (cl_store c') = []" "w_sent (cl_world c') = [(''o1'', requestOf row)]"
    using rebase_single_round [OF w, of "stale_burger" "''o1''" "''pos-1''", where fails = None and later = "[]" and row = row
        and version = "canonical_version ''o1'' ?c" and api = demo_api and snap = snap and v = v and n = n and fuel = 2] p b row'
    by (auto simp: demo_draws numeral_3_eq_3 numeral_2_eq_2)
  have "rebase_loop 2 (store_deps demo_api) ''pos-1'' ''o1'' (snap_version snap) c' = Some (drained, c')"
    using c'(2,3) by (simp add: numeral_2_eq_2 readQueue_def terminal_queue_def)
  then show ?thesis using c' by (simp add: rebase_def)
qed

theorem rebase_reissues_each_intent_once_witness:
  "\<exists>outcome c' r. rebase 3 (store_deps demo_api) ''pos-1'' ''o1'' (demo_pos [stale_burger] [] []) = Some (outcome, c')
     \<and> w_sent (cl_world c') = [(''o1'', r)] \<and> mr_mutationId r = ''u0'' \<and> mr_command r = AddItem ''burger'' 1 \<and> mr_baseVersion r = 1"
proof -
  let ?c = "demo_pos [stale_burger] [] []"
  obtain outcome c' where r: "rebase 3 (store_deps demo_api) ''pos-1'' ''o1'' ?c = Some (outcome, c')"
    and one: "length (w_sent (cl_world c')) = 1"
    using demo_rebase_sends by blast
  obtain batch n where b: "w_sent (cl_world c') = batch"
      "map carried batch = reissues ''o1'' (w_uuid (cl_world ?c)) (w_drawn (cl_world ?c)) (take n (group_of ''pos-1'' ''o1'' ?c))"
      "based_in_turn demo_api ''o1'' (canonical_version ''o1'' ?c) (map snd batch) (w_tab (cl_world ?c), w_net (cl_world ?c))"
    using rebase_reissues_each_intent_once [OF stale_rebase_facts r] by auto
  have g: "group_of ''pos-1'' ''o1'' ?c = [stale_burger]" by (simp add: group_of_def terminal_queue_def)
  obtain i q where q: "batch = [(i, q)]" using one b(1) by (auto simp: length_Suc_conv)
  then obtain k where "n = Suc k" using b(2) by (cases n) auto
  then have "i = ''o1''" "mr_mutationId q = ''u0''" "mr_command q = AddItem ''burger'' 1"
    using b(2) q by (auto simp: g carried_def demo_draws)
  moreover from this have "mr_baseVersion q = 1" using b(3) q by (simp add: demo_canonical_version split: prod.splits)
  ultimately show ?thesis using r b(1) q by blast
qed

definition demo_quantities :: "net \<Rightarrow> int list option" where
  "demo_quantities n = map_option (\<lambda>s. map item_quantity (snap_items s)) (loadOrderSnapshot (net_db n) ''o1'')"

lemma rebase_applies_an_intent_twice_witness:
  "\<exists>c'. rebase (rebase_fuel (cl_store (demo_pos [burger_row CONFLICT] [None, None, None, None, Some ''QuotaExceededError''] [])))
      (store_deps demo_api) ''pos-1'' ''o1''
      (demo_pos [burger_row CONFLICT] [None, None, None, None, Some ''QuotaExceededError''] []) = Some (drained, c')
    \<and> demo_quantities (w_net (cl_world c')) = Some [2]"
proof -
  let ?c = "demo_pos [burger_row CONFLICT] [None, None, None, None, Some ''QuotaExceededError''] []"
  define row1 where "row1 = reissued (burger_row CONFLICT) ''u0'' 1"
  define row2 where "row2 = reissued row1 ''u1'' 2"
  obtain b1 n1 where p1: "api_post demo_api ''o1'' (requestOf row1) (demo_net []) = (b1, n1)" by fastforce
  obtain b2 n2 where p2: "api_post demo_api ''o1'' (requestOf row2) n1 = (b2, n2)" by fastforce
  have d: "(case b1 of Body (APPLIED snap1 _) \<Rightarrow> snap_version snap1 = 2 | _ \<Rightarrow> False)"
    "(case b2 of Body (APPLIED snap2 _) \<Rightarrow> map item_quantity (snap_items snap2) = [2] | _ \<Rightarrow> False)"
    "demo_quantities n2 = Some [2]"
    using demo_twice [unfolded Let_def, folded row1_def, unfolded p1, simplified, folded row2_def, unfolded p2]
    by (simp_all add: demo_quantities_def)
  obtain snap1 v1 where b1: "b1 = Body (APPLIED snap1 v1)" "snap_version snap1 = 2"
    using d(1) by (auto split: fetch_result.splits mutation_response.splits)
  obtain snap2 v2 where b2: "b2 = Body (APPLIED snap2 v2)"
    using d(2) by (auto split: fetch_result.splits mutation_response.splits)
  have w: "tab_arms (w_tab (cl_world ?c)) = (\<lambda>_. False)" "tab_offlineTerminals (w_tab (cl_world ?c)) = []"
    "w_uuid (cl_world ?c) (w_drawn (cl_world ?c)) = ''u0''" "w_uuid (cl_world ?c) (Suc (w_drawn (cl_world ?c))) = ''u1''"
    by (simp_all add: demo_pos_def demo_tab_def)
  have v: "rebase_version (burger_row CONFLICT) (canonical_version ''o1'' ?c) = 1" "rebase_version row1 (snap_version snap1) = 2"
    by (simp_all add: rebase_version_def demo_canonical_version b1 row1_def reissued_def)
  show ?thesis
    using rebase_applies_an_intent_twice [of ?c "burger_row CONFLICT" "''o1''" "''pos-1''" "''QuotaExceededError''"
        "''u0''" "''u1''" row1 demo_api snap1 v1 n1 row2 snap2 v2 n2] w v p1 p2 b1 b2 d(3)
    by (auto simp: row1_def row2_def)
qed

end
