(* ===== verification/Client_Prediction.thy ===== *)
theory Client_Prediction
  imports Api_Boundary Sync_Engine
begin

text \<open>
  The optimistic screen against the server: as long as a terminal is the only writer of its order, the
  projection of its queue (\<open>projectQueue\<close>) is what the server will make of it, and no mutation of a
  queue stamped with \<open>nextBaseVersion\<close> is refused for its version. The two sides keep the lines of an
  order in different orders, so snapshots are compared up to the order of their items and their times.
\<close>

section \<open>Agreement\<close>

definition same_order :: "order_snapshot \<Rightarrow> order_snapshot \<Rightarrow> bool" where
  "same_order s p \<longleftrightarrow>
     snap_id s = snap_id p \<and> snap_restaurantId s = snap_restaurantId p
     \<and> snap_tableNumber s = snap_tableNumber p \<and> snap_status s = snap_status p
     \<and> snap_version s = snap_version p \<and> snap_totalCents s = snap_totalCents p
     \<and> mset (snap_items s) = mset (snap_items p)"

definition agrees :: "order_snapshot option \<Rightarrow> order_snapshot option \<Rightarrow> bool" where
  "agrees a b \<longleftrightarrow>
     (case (a, b) of (None, None) \<Rightarrow> True | (Some s, Some p) \<Rightarrow> same_order s p | _ \<Rightarrow> False)"

lemma agrees_simps [simp]:
  "agrees None None" "\<not> agrees (Some s) None" "\<not> agrees None (Some p)"
  "agrees (Some s) (Some p) \<longleftrightarrow> same_order s p"
  by (simp_all add: agrees_def)

lemma agrees_Some: "agrees (Some s) b \<longleftrightarrow> (\<exists>p. b = Some p \<and> same_order s p)"
  by (cases b) auto

lemma agrees_Nones: "a = None \<Longrightarrow> agrees a None"
  by simp

lemma agrees_None: "agrees None b \<longleftrightarrow> b = None"
  by (cases b) auto

lemma same_order_products: "same_order s p \<Longrightarrow> item_productId ` set (snap_items s) = item_productId ` set (snap_items p)"
  by (auto simp: same_order_def dest: mset_eq_setD)

lemma held_line_same:
  "item_productId ` set xs = item_productId ` set ys \<Longrightarrow> held_line xs q = None \<longleftrightarrow> held_line ys q = None"
  by (simp add: held_line_None)

lemma decide_same_order: "same_order s p \<Longrightarrow> decide (Some s) c = decide (Some p) c"
proof -
  assume so: "same_order s p"
  then have "snap_status s = snap_status p" "snap_tableNumber s = snap_tableNumber p"
    by (simp_all add: same_order_def)
  moreover have "held_line (snap_items s) q = None \<longleftrightarrow> held_line (snap_items p) q = None" for q
    using same_order_products [OF so] by (rule held_line_same)
  ultimately show ?thesis
    by (cases c) (auto simp: decide_def split: option.splits; metis option.distinct(1))+
qed

lemma decide_agrees: "agrees a b \<Longrightarrow> decide a c = decide b c"
  by (cases a; cases b) (simp_all add: decide_same_order)

lemma decide_not_version_conflict: "decide p c \<noteq> Inr (Conflict ORDER_VERSION_CONFLICT)"
proof (cases p)
  case None
  then show ?thesis by (cases c) (simp_all add: decide_def)
next
  case (Some s)
  then show ?thesis
    by (cases c; cases "snap_status s") (auto simp: decide_defs split: option.splits)
qed

section \<open>The lines of both sides\<close>

lemma map_line_item_update:
  "(\<And>l. line_item (f l) = g (line_item l)) \<Longrightarrow>
     map line_item (update_where (\<lambda>l. line_product l = p) f ls) =
       map (\<lambda>i. if item_productId i = p then g i else i) (map line_item ls)"
  by (simp add: update_where_def)

lemma projected_items_lines:
  assumes same: "mset items = mset (map line_item ls)"
    and menu: "\<And>x. lookup x = find (\<lambda>m. menu_id m = x) ps" and args: "arguments_ok ps c"
    and proj: "projected_items lookup c items = Some items'"
  shows "mset items' = mset (map line_item (lines_after now ps c ls))"
  using args proj
proof (cases c)
  case (AddItem p q)
  then obtain m where m: "find (\<lambda>m. menu_id m = p) ps = Some m" using args by auto
  have id: "menu_id m = p" using find_Some_in [OF m] by simp
  have prod: "item_productId ` set items = line_product ` set ls"
    using mset_eq_setD [OF same] by (simp add: image_comp)
  let ?g = "\<lambda>i. i\<lparr>item_quantity := item_quantity i + q\<rparr>"
  show ?thesis
  proof (cases "p \<in> line_product ` set ls")
    case True
    then obtain h where "held_line items p = Some h" using prod held_line_None [of items p] by (cases "held_line items p") auto
    then have "items' = map (\<lambda>i. if item_productId i = p then ?g i else i) items" using proj AddItem by simp
    then have "mset items' = mset (map (\<lambda>i. if item_productId i = p then ?g i else i) (map line_item ls))"
      using same by (simp add: multiset.map_comp)
    also have "map (\<lambda>i. if item_productId i = p then ?g i else i) (map line_item ls)
        = map line_item (lines_after now ps c ls)"
      using True id m AddItem by (simp add: upsert_line_def update_where_def)
    finally show ?thesis .
  next
    case False
    then have "held_line items p = None" using prod by (simp add: held_line_None)
    then show ?thesis using proj AddItem same False m id menu by (auto simp: upsert_line_def)
  qed
next
  case (RemoveItem p)
  have "map line_item (delete_where (\<lambda>l. line_product l = p) ls) = filter (\<lambda>i. item_productId i \<noteq> p) (map line_item ls)"
    by (simp add: delete_where_def filter_map o_def)
  then show ?thesis using proj RemoveItem same by (auto simp: mset_filter)
next
  case (ChangeQuantity p q)
  have "map line_item (set_line_quantity now p q ls) =
      map (\<lambda>i. if item_productId i = p then i\<lparr>item_quantity := q\<rparr> else i) (map line_item ls)"
    by (simp add: set_line_quantity_def update_where_def)
  then show ?thesis using proj ChangeQuantity same by (auto simp: multiset.map_comp)
qed auto

lemma lines_total_items: "mset items = mset (map line_item ls) \<Longrightarrow> calculateTotalCents items = lines_total ls"
proof -
  assume "mset items = mset (map line_item ls)"
  then have "sum_mset (image_mset line_total (mset items)) = sum_mset (image_mset line_total (mset (map line_item ls)))"
    by simp
  moreover have "line_cents = line_total \<circ> line_item" by (simp add: fun_eq_iff line_cents_def)
  ultimately show ?thesis
    by (simp add: calculateTotalCents_sum lines_total_def multiset.map_comp flip: sum_mset_sum_list)
qed

lemma projected_items_touch: "projected_items lookup c items = None \<longleftrightarrow> \<not> touches_lines c"
  by (cases c) simp_all

section \<open>One request\<close>

definition request_input :: "pending_row \<Rightarrow> mutation_input" where
  "request_input row = route_input (pn_orderId row) (requestOf row) None"

lemma request_input_simps [simp]:
  "in_orderId (request_input row) = pn_orderId row" "in_mutationId (request_input row) = pn_mutationId row"
  "in_restaurantId (request_input row) = pn_restaurantId row" "in_baseVersion (request_input row) = pn_baseVersion row"
  "in_command (request_input row) = pn_command row" "in_terminalId (request_input row) = pn_terminalId row"
  by (simp_all add: request_input_def route_input_def requestOf_def)

text \<open>
  The situation of a sole writer: the server's order is the client's, the row is stamped with the
  version they agree on, its id is new, and the menus are the same.
\<close>

definition in_step :: "db \<Rightarrow> menu_lookup \<Rightarrow> order_snapshot option \<Rightarrow> pending_row \<Rightarrow> bool" where
  "in_step d lookup p row \<longleftrightarrow>
     db_ok d \<and> agrees (loadOrderSnapshot d (pn_orderId row)) p
     \<and> pn_baseVersion row = nextBaseVersion p
     \<and> (case p of None \<Rightarrow> True | Some o' \<Rightarrow> snap_restaurantId o' = pn_restaurantId row)
     \<and> db_processed d (pn_mutationId row) = None
     \<and> lookup = (\<lambda>x. find (\<lambda>m. menu_id m = x) (db_products d))"

lemma in_step_None:
  assumes "in_step d lookup None row"
  shows "db_orders d (pn_orderId row) = None" and "db_items d (pn_orderId row) = []" and "pn_baseVersion row = 0"
proof -
  show no: "db_orders d (pn_orderId row) = None"
    using assms by (cases "loadOrderSnapshot d (pn_orderId row)") (auto simp: in_step_def)
  have "order_ok d (pn_orderId row)" using assms by (simp add: in_step_def db_ok_def)
  then show "db_items d (pn_orderId row) = []" using no by (simp add: order_ok_def)
  show "pn_baseVersion row = 0" using assms by (simp add: in_step_def nextBaseVersion_def)
qed

lemma in_step_Some:
  assumes "in_step d lookup (Some p) row"
  obtains r where "db_orders d (pn_orderId row) = Some r"
    and "same_order (snapshot_of (pn_orderId row) r (db_items d (pn_orderId row))) p"
    and "ord_version r = pn_baseVersion row" and "ord_restaurantId r = pn_restaurantId row"
proof -
  have ag: "agrees (loadOrderSnapshot d (pn_orderId row)) (Some p)" and b: "pn_baseVersion row = snap_version p"
    and t: "snap_restaurantId p = pn_restaurantId row"
    using assms by (auto simp: in_step_def nextBaseVersion_def)
  from ag obtain s where s: "loadOrderSnapshot d (pn_orderId row) = Some s" and so: "same_order s p"
    by (cases "loadOrderSnapshot d (pn_orderId row)") auto
  from s obtain r where r: "db_orders d (pn_orderId row) = Some r"
    and sr: "s = snapshot_of (pn_orderId row) r (db_items d (pn_orderId row))"
    by (auto simp: loadOrderSnapshot_Some_iff)
  have "ord_version r = pn_baseVersion row" "ord_restaurantId r = pn_restaurantId row"
    using so b t by (simp_all add: sr same_order_def)
  with that [OF r] so show thesis by (simp add: sr)
qed

lemma mset_snapshot_items: "mset (snap_items (snapshot_of i r ls)) = mset (map line_item ls)"
  by simp

lemma applied_agrees:
  assumes st: "in_step d lookup p row" and dec: "decide p (pn_command row) = Inr (Apply status')"
    and w: "writable env d (request_input row) (loadOrderSnapshot d (pn_orderId row))"
  shows "agrees (Some (snapshot_after env d (request_input row) status')) (applyOne lookup row p)"
proof (cases p)
  case None
  then obtain t where t: "pn_command row = CreateOrder t" "status' = OPEN"
    using dec by (cases "pn_command row") (auto simp: decide_def)
  note n = in_step_None [OF st [unfolded None]]
  show ?thesis
    using None t n by (simp add: snapshot_after_def row_after_def applyOne_def same_order_def)
next
  case (Some o')
  from in_step_Some [OF st [unfolded Some]] obtain r
    where r: "db_orders d (pn_orderId row) = Some r" "ord_version r = pn_baseVersion row"
      and so: "same_order (snapshot_of (pn_orderId row) r (db_items d (pn_orderId row))) o'" by metis
  let ?ls = "db_items d (pn_orderId row)" and ?c = "pn_command row"
  let ?ls' = "lines_after (tx_now env) (db_products d) ?c ?ls"
  have items: "mset (snap_items o') = mset (map line_item ?ls)"
    using so by (simp add: same_order_def del: mset_map) (metis mset_map mset_sort)
  have args: "arguments_ok (db_products d) ?c" using w by (cases ?c) (auto simp: writable_def)
  have lookup: "lookup x = find (\<lambda>m. menu_id m = x) (db_products d)" for x using st by (simp add: in_step_def)
  show ?thesis
  proof (cases "projected_items lookup ?c (snap_items o')")
    case None
    then have "\<not> touches_lines ?c" by (simp add: projected_items_touch)
    then have "?ls' = ?ls" and "total_after ?c ?ls' (ord_totalCents r) = ord_totalCents r"
      by (cases ?c; simp add: total_after_def)+
    then show ?thesis
      using so r None Some dec
      by (auto simp: applyOne_def commandOf_def snapshot_after_def row_after_def same_order_def)
  next
    case (Some items')
    then have touch: "touches_lines ?c" using projected_items_touch [of lookup ?c "snap_items o'"] by auto
    have m: "mset items' = mset (map line_item ?ls')"
      by (rule projected_items_lines [OF items lookup args Some])
    have "total_after ?c ?ls' (ord_totalCents r) = calculateTotalCents items'"
      using touch lines_total_items [OF m] by (simp add: total_after_def)
    then show ?thesis
      using so r Some \<open>p = Some o'\<close> dec m
      by (simp add: applyOne_def commandOf_def snapshot_after_def row_after_def same_order_def withItems_def)
  qed
qed

text \<open>What the verdict of \<open>decide\<close> on the prediction says of the answer.\<close>

fun foretells :: "int \<Rightarrow> (decide_error + decision) \<Rightarrow> mutation_response \<Rightarrow> bool" where
  "foretells base (Inr (Apply status')) body \<longleftrightarrow>
     (\<exists>s. body = APPLIED s (base + 1) \<and> snap_status s = status')"
| "foretells base (Inr AlreadyApplied) body \<longleftrightarrow> (\<exists>s. body = ALREADY_APPLIED s base)"
| "foretells base (Inr (Conflict reason)) body \<longleftrightarrow> (\<exists>s. body = CONFLICT_RESPONSE reason base base s)"
| "foretells base (Inl e) body \<longleftrightarrow> False"

lemma applyEffect_failure:
  assumes st: "in_step d lookup p row" and dec: "decide p (pn_command row) = Inr (Apply status')"
    and eff: "applyEffect env d (request_input row) status' (loadOrderSnapshot d (pn_orderId row)) = Inl sig"
  shows "sig = Unhandled \<or> (\<exists>status code. sig = ApiErrorSignal status code)
    \<or> sig = UniqueViolation ''payments_mutation_id_unique''"
proof (cases p)
  case None
  then obtain t where "pn_command row = CreateOrder t"
    using dec by (cases "pn_command row") (auto simp: decide_def)
  then show ?thesis
    using eff in_step_None [OF st [unfolded None]]
    by (auto simp: applyEffect_def load_own_def insert_order_def split: if_splits option.splits)
next
  case (Some o')
  from in_step_Some [OF st [unfolded Some]] obtain r
    where r: "db_orders d (pn_orderId row) = Some r" "ord_version r = pn_baseVersion row" by metis
  have c: "\<nexists>t. pn_command row = CreateOrder t"
    using dec Some by (auto simp: decide_def split: if_splits)
  show ?thesis
    using eff c r
    by (cases "pn_command row")
      (auto simp: applyEffect_def applyChange_def Let_def and_then_def guardedVersionBump_def write_lines_def
        recalculateTotal_def load_own_def insert_payment_def loadOrderSnapshot_Some_iff
        split: if_splits option.splits sum.splits)
qed

lemma applyEffect_processed:
  "applyEffect env d input status' cur = Inr (d', s) \<Longrightarrow> db_processed d' = db_processed d"
  by (cases "\<exists>t. in_command input = CreateOrder t") (auto simp: applyEffect_create applyEffect_change)

lemma in_step_read:
  assumes st: "in_step d lookup p row"
  shows "runMutation_read d d d (request_input row) h =
    (if mutation_type_of (pn_command row) \<noteq> CREATE_ORDER \<and> p = None then Inl (ApiErrorSignal 404 ORDER_NOT_FOUND)
     else case decide p (pn_command row) of
            Inl _ \<Rightarrow> Inl Unhandled
          | Inr (Conflict reason) \<Rightarrow> Inl (ConflictSignal reason)
          | Inr AlreadyApplied \<Rightarrow> Inl AlreadyAppliedSignal
          | Inr (Apply status') \<Rightarrow> Inr (Inr (loadOrderSnapshot d (pn_orderId row), status')))"
proof -
  have ag: "agrees (loadOrderSnapshot d (pn_orderId row)) p" and fresh: "db_processed d (pn_mutationId row) = None"
    using st by (simp_all add: in_step_def)
  have own: "snap_restaurantId s = pn_restaurantId row" if "loadOrderSnapshot d (pn_orderId row) = Some s" for s
    using that ag st by (auto simp: in_step_def agrees_Some same_order_def split: option.splits)
  have none: "loadOrderSnapshot d (pn_orderId row) = None \<longleftrightarrow> p = None"
    using ag by (cases "loadOrderSnapshot d (pn_orderId row)"; cases p) auto
  show ?thesis
    using own
    by (auto simp del: loadOrderSnapshot_None simp: runMutation_read_def Let_def loadOrderSnapshot_same fresh none
        decide_agrees [OF ag] split: option.split)
qed

lemma applyOne_refused:
  assumes "\<And>st. decide p (pn_command row) \<noteq> Inr (Apply st)"
  shows "applyOne lookup row p = p"
proof (cases p)
  case None
  then show ?thesis using assms [of OPEN] by (cases "pn_command row") (simp_all add: applyOne_def decide_def)
next
  case (Some o')
  then show ?thesis using assms by (simp add: applyOne_def commandOf_def split: sum.splits decision.splits)
qed

lemma same_business_snapshot: "same_business d d' \<Longrightarrow> loadOrderSnapshot d' i = loadOrderSnapshot d i"
  by (cases "db_orders d i") (simp_all add: same_business_def loadOrderSnapshot_def loadOrderSnapshot_at_def)

lemma in_step_refused:
  assumes st: "in_step d lookup p row" and run: "runMutation env d (request_input row) h = Inl sig"
    and cs: "catchSignal d (request_input row) h sig = (Inr out, d')"
  shows "foretells (pn_baseVersion row) (decide p (pn_command row)) (out_body out) \<and> applyOne lookup row p = p
    \<and> (\<forall>m. m \<noteq> pn_mutationId row \<longrightarrow> db_processed d' m = db_processed d m)"
proof -
  let ?S = "loadOrderSnapshot d (pn_orderId row)"
  have ag: "agrees ?S p" and fresh: "db_processed d (pn_mutationId row) = None"
    using st by (simp_all add: in_step_def)
  have vs: "snap_version s = pn_baseVersion row" if "?S = Some s" for s
    using that st by (auto simp: in_step_def agrees_Some same_order_def nextBaseVersion_def)
  have no_write: False if dec: "decide p (pn_command row) = Inr (Apply status')"
    and w: "runMutation_write env d (request_input row) h ?S status' = Inl sig" for status'
  proof -
    from w have "applyEffect env d (request_input row) status' ?S = Inl sig \<or> sig = UniqueViolation ''outbox_events_pkey''"
      using fresh
      by (auto simp: runMutation_write_def and_then_Inl_iff insert_processed_def insert_event_def
          dest!: applyEffect_processed split: if_splits)
    with applyEffect_failure [OF st dec, of env sig] cs show False by (auto simp: catchSignal_def)
  qed
  consider reason where "sig = ConflictSignal reason" "decide p (pn_command row) = Inr (Conflict reason)"
    | "sig = AlreadyAppliedSignal" "decide p (pn_command row) = Inr AlreadyApplied"
  proof -
    from run consider "runMutation_read d d d (request_input row) h = Inl sig"
      | plan where "runMutation_read d d d (request_input row) h = Inr plan"
          "(case plan of Inl outcome \<Rightarrow> Inr (d, outcome)
            | Inr (snapshot, st') \<Rightarrow> runMutation_write env d (request_input row) h snapshot st') = Inl sig"
      unfolding runMutation_def and_then_Inl_iff by blast
    then show thesis
    proof cases
      case 1
      then have "sig = Unhandled \<or> (\<exists>a b. sig = ApiErrorSignal a b)
          \<or> (\<exists>reason. sig = ConflictSignal reason \<and> decide p (pn_command row) = Inr (Conflict reason))
          \<or> sig = AlreadyAppliedSignal \<and> decide p (pn_command row) = Inr AlreadyApplied"
        by (auto simp: in_step_read [OF st] split: if_splits sum.splits decision.splits)
      then show thesis using that cs by (auto simp: catchSignal_def)
    next
      case 2
      then show thesis
        using no_write by (auto simp: in_step_read [OF st] split: if_splits sum.splits decision.splits)
    qed
  qed
  then show ?thesis
  proof cases
    case 1
    then show ?thesis
      using cs fresh vs
      by (auto simp: catchSignal_def conflictOutcome_at_def loadOrderSnapshot_same applyOne_refused
          split: option.splits if_splits)
  next
    case 2
    then show ?thesis
      using cs fresh vs decide_agrees [OF ag, of "pn_command row"]
      by (auto simp: catchSignal_def alreadyAppliedOutcome_def settle_already_applied_def insert_processed_def
          applyOne_refused split: option.splits if_splits)
  qed
qed

lemma failed_same_business:
  assumes run: "applyMutation sha256 env d input = (Inl e, d')" shows "same_business d d'"
  using run
proof (cases rule: applyMutation_cases)
  case (refused sig)
  then show ?thesis using catchSignal_frame by blast
qed simp_all

text \<open>
  One answered request of a sole writer: the answer is the one its own prediction gave, and the two
  sides agree again.
\<close>

lemma in_step_run:
  assumes st: "in_step d lookup p row" and valid: "command_valid (pn_command row)"
    and run: "applyMutation sha256 env d (request_input row) = (Inr out, d')"
  shows "db_ok d' \<and> db_products d' = db_products d
    \<and> agrees (loadOrderSnapshot d' (pn_orderId row)) (applyOne lookup row p)
    \<and> foretells (pn_baseVersion row) (decide p (pn_command row)) (out_body out)
    \<and> (\<forall>m. m \<noteq> pn_mutationId row \<longrightarrow> db_processed d' m = db_processed d m)"
proof -
  have ok: "db_ok d" and ag: "agrees (loadOrderSnapshot d (pn_orderId row)) p"
    and fresh: "db_processed d (pn_mutationId row) = None" using st by (simp_all add: in_step_def)
  have "db_ok d'" using applyMutation_db_ok [OF ok _ run] valid by simp
  moreover from run
  have "db_products d' = db_products d
    \<and> agrees (loadOrderSnapshot d' (pn_orderId row)) (applyOne lookup row p)
    \<and> foretells (pn_baseVersion row) (decide p (pn_command row)) (out_body out)
    \<and> (\<forall>m. m \<noteq> pn_mutationId row \<longrightarrow> db_processed d' m = db_processed d m)"
  proof (cases rule: applyMutation_cases)
    case (applied snapshot status')
    from applied(1) have dec: "decide p (pn_command row) = Inr (Apply status')"
      and snap: "snapshot = loadOrderSnapshot d (pn_orderId row)"
      by (auto simp: in_step_read [OF st] split: if_splits sum.splits decision.splits)
    note w = applied(2) [unfolded snap]
    have v: "snap_version (snapshot_after env d (request_input row) status') = pn_baseVersion row + 1
      \<and> snap_status (snapshot_after env d (request_input row) status') = status'"
    proof (cases p)
      case None
      then have "status' = OPEN" using dec by (cases "pn_command row") (auto simp: decide_def)
      then show ?thesis using in_step_None [OF st [unfolded None]] by (simp add: snapshot_after_def row_after_def)
    next
      case (Some o')
      from in_step_Some [OF st [unfolded Some]] obtain r
        where "db_orders d (pn_orderId row) = Some r" "ord_version r = pn_baseVersion row" by metis
      then show ?thesis by (simp add: snapshot_after_def row_after_def)
    qed
    have "loadOrderSnapshot d' (pn_orderId row) = Some (snapshot_after env d (request_input row) status')"
      using loadOrderSnapshot_committed [of env d "request_input row"] applied(3) by simp
    then show ?thesis
      using applied_agrees [OF st dec w] applied(3,4) dec v
      by (simp add: committed_def applied_outcome_def)
  next
    case (replayed outcome)
    then show ?thesis
      by (auto simp: in_step_read [OF st] split: if_splits sum.splits decision.splits)
  next
    case (refused sig)
    have "same_business d d'" using catchSignal_frame refused(2) by blast
    then have "db_products d' = db_products d" "loadOrderSnapshot d' (pn_orderId row) = loadOrderSnapshot d (pn_orderId row)"
      by (simp add: same_business_def) (rule same_business_snapshot, fact)
    then show ?thesis using in_step_refused [OF st refused(1,2)] ag by simp
  qed
  ultimately show ?thesis by blast
qed

section \<open>A queue\<close>

text \<open>The server answers the requests of a queue in turn, until one of them fails.\<close>

definition menu_of :: "db \<Rightarrow> menu_lookup" where
  "menu_of d = (\<lambda>x. find (\<lambda>m. menu_id m = x) (db_products d))"

fun answered_queue ::
  "(string \<Rightarrow> string) \<Rightarrow> db \<Rightarrow> (tx_env \<times> pending_row) list \<Rightarrow> db \<times> mutation_response list" where
  "answered_queue sha256 d [] = (d, [])"
| "answered_queue sha256 d ((env, row) # queue) =
     (case applyMutation sha256 env d (request_input row) of
        (Inl e, d') \<Rightarrow> (d', [])
      | (Inr out, d') \<Rightarrow>
          (let (d'', answers) = answered_queue sha256 d' queue in (d'', out_body out # answers)))"

fun foretold :: "menu_lookup \<Rightarrow> order_snapshot option \<Rightarrow> pending_row list \<Rightarrow> mutation_response list \<Rightarrow> bool" where
  "foretold lookup p (row # rows) (body # answers) \<longleftrightarrow>
     foretells (pn_baseVersion row) (decide p (pn_command row)) body
     \<and> foretold lookup (applyOne lookup row p) rows answers"
| "foretold lookup p rows answers \<longleftrightarrow> answers = []"

definition own_rows :: "uuid \<Rightarrow> tenant \<Rightarrow> pending_row list \<Rightarrow> bool" where
  "own_rows i tenant rows \<longleftrightarrow>
     distinct (map pn_mutationId rows)
     \<and> (\<forall>row \<in> set rows. pn_orderId row = i \<and> pn_restaurantId row = tenant \<and> command_valid (pn_command row))"

definition of_tenant :: "tenant \<Rightarrow> order_snapshot option \<Rightarrow> bool" where
  "of_tenant tenant p \<longleftrightarrow> (case p of None \<Rightarrow> True | Some o' \<Rightarrow> snap_restaurantId o' = tenant)"

lemma of_tenant_applyOne:
  "of_tenant tenant p \<Longrightarrow> pn_restaurantId row = tenant \<Longrightarrow> of_tenant tenant (applyOne lookup row p)"
  by (auto simp: of_tenant_def applyOne_def withItems_def Let_def
      split: option.splits mutation_command.splits sum.splits decision.splits)

lemma foretold_no_version_conflict:
  "foretold lookup p rows answers \<Longrightarrow> CONFLICT_RESPONSE ORDER_VERSION_CONFLICT base v s \<notin> set answers"
proof (induction lookup p rows answers rule: foretold.induct)
  case (1 lookup p row rows body answers)
  have "body \<noteq> CONFLICT_RESPONSE ORDER_VERSION_CONFLICT base v s"
    using 1 decide_not_version_conflict [of p "pn_command row"]
    by (cases "(pn_baseVersion row, decide p (pn_command row), body)" rule: foretells.cases) auto
  then show ?case using 1 by auto
qed simp_all

lemma answered_queue_foretold:
  assumes "db_ok d" and "agrees (loadOrderSnapshot d i) p" and "of_tenant tenant p"
    and "own_rows i tenant (map snd queue)" and "stamped (menu_of d) p (map snd queue)"
    and "\<forall>row \<in> set (map snd queue). db_processed d (pn_mutationId row) = None"
    and "answered_queue sha256 d queue = (d', answers)"
  shows "foretold (menu_of d) p (map snd queue) answers
    \<and> agrees (loadOrderSnapshot d' i) (projectQueue p (take (length answers) (map snd queue)) (menu_of d))"
  using assms
proof (induction sha256 d queue arbitrary: p d' answers rule: answered_queue.induct)
  case (2 sha256 d env row queue)
  have st: "in_step d (menu_of d) p row"
    using "2.prems" by (auto simp: in_step_def own_rows_def menu_of_def of_tenant_def split: option.splits)
  have valid: "command_valid (pn_command row)" and i: "pn_orderId row = i"
    using "2.prems"(4) by (simp_all add: own_rows_def)
  obtain res d1 where run: "applyMutation sha256 env d (request_input row) = (res, d1)" by fastforce
  show ?case
  proof (cases res)
    case (Inl e)
    have "same_business d d1" using run Inl by (rule_tac failed_same_business) simp
    then show ?thesis using "2.prems"(2,7) run Inl by (simp add: same_business_snapshot)
  next
    case (Inr out)
    from in_step_run [OF st valid run [unfolded Inr]]
    have n: "db_ok d1" "menu_of d1 = menu_of d" "agrees (loadOrderSnapshot d1 i) (applyOne (menu_of d) row p)"
      "foretells (pn_baseVersion row) (decide p (pn_command row)) (out_body out)"
      and keep: "\<And>m. m \<noteq> pn_mutationId row \<Longrightarrow> db_processed d1 m = db_processed d m"
      by (simp_all add: i menu_of_def)
    obtain d2 as where q: "answered_queue sha256 d1 queue = (d2, as)" by fastforce
    have a: "answers = out_body out # as" "d' = d2" using "2.prems"(7) run Inr q by simp_all
    have "of_tenant tenant (applyOne (menu_of d) row p)"
      using "2.prems"(3,4) by (simp add: of_tenant_applyOne own_rows_def)
    moreover have "own_rows i tenant (map snd queue)" using "2.prems"(4) by (simp add: own_rows_def)
    moreover have "\<forall>row \<in> set (map snd queue). db_processed d1 (pn_mutationId row) = None"
    proof
      fix row' assume r': "row' \<in> set (map snd queue)"
      then have "pn_mutationId row' \<noteq> pn_mutationId row" using "2.prems"(4) by (force simp: own_rows_def)
      then show "db_processed d1 (pn_mutationId row') = None" using "2.prems"(6) r' keep by auto
    qed
    moreover have "stamped (menu_of d1) (applyOne (menu_of d) row p) (map snd queue)"
      using "2.prems"(5) by (simp add: n(2))
    ultimately have "foretold (menu_of d1) (applyOne (menu_of d) row p) (map snd queue) as
      \<and> agrees (loadOrderSnapshot d2 i)
          (projectQueue (applyOne (menu_of d) row p) (take (length as) (map snd queue)) (menu_of d1))"
      using "2.IH" [OF run [symmetric] Inr n(1) n(3) _ _ _ _ q] by blast
    then show ?thesis using n(2,4) by (simp add: a)
  qed
qed simp

text \<open>The menu of the client is the table of the server, whose ids are its primary key.\<close>

lemma menuLookup_menu_of:
  assumes "distinct (map menu_id (db_products d))"
  shows "menuLookup (db_products d) = menu_of d"
proof -
  have "map_of (rev (map (\<lambda>item. (menu_id item, item)) ps)) x = find (\<lambda>m. menu_id m = x) ps"
    if "distinct (map menu_id ps)" for ps x
    using that
  proof (induction ps)
    case (Cons m ps)
    have "map_of (rev (map (\<lambda>item. (menu_id item, item)) ps)) x = None" if "menu_id m = x"
      using that Cons.prems by (auto simp: map_of_eq_None_iff)
    then show ?case using Cons by (auto simp: map_add_def split: option.splits)
  qed simp
  from this [OF assms] show ?thesis by (auto simp: menuLookup_def menu_of_def simp del: rev_map)
qed

text \<open>
  C26. The optimistic screen is exact for a sole writer. Let the canonical order of a terminal be the
  server's, and its queue be stamped with \<open>nextBaseVersion\<close> and under new ids. As far as the server
  answers the queue, each answer is the one \<open>decide\<close> gave on the screen the operator saw (so none of them is a
  version conflict), and the order the server then holds is the projection of the rows it answered, up to
  the order of the lines and the two times. The first failure (an unknown product, an integer out of
  range) ends the run with the prediction of the rows before it.
\<close>

theorem sole_writer_prediction_is_exact:
  assumes "distinct (map menu_id (db_products d))" and "db_ok d" and "agrees (loadOrderSnapshot d i) p" and "of_tenant tenant p"
    and "own_rows i tenant (map snd queue)" and "stamped (menuLookup (db_products d)) p (map snd queue)"
    and "\<forall>row \<in> set (map snd queue). db_processed d (pn_mutationId row) = None"
    and "answered_queue sha256 d queue = (d', answers)"
  shows "foretold (menuLookup (db_products d)) p (map snd queue) answers
    \<and> agrees (loadOrderSnapshot d' i) (projectQueue p (take (length answers) (map snd queue)) (menuLookup (db_products d)))
    \<and> (\<forall>base v s. CONFLICT_RESPONSE ORDER_VERSION_CONFLICT base v s \<notin> set answers)"
  using answered_queue_foretold [OF assms(2-5) _ assms(7,8)] assms(6) foretold_no_version_conflict
  unfolding menuLookup_menu_of [OF assms(1)] by blast

definition predicted_rows :: "pending_row list" where
  "predicted_rows =
     [\<lparr>pn_mutationId = ''m1'', pn_restaurantId = ''demo-restaurant'', pn_terminalId = ''pos-1'', pn_orderId = ''o1'',
       pn_baseVersion = 0, pn_command = CreateOrder ''7'', pn_createdAt = 1, pn_status = PENDING\<rparr>,
      \<lparr>pn_mutationId = ''m2'', pn_restaurantId = ''demo-restaurant'', pn_terminalId = ''pos-1'', pn_orderId = ''o1'',
       pn_baseVersion = 1, pn_command = AddItem ''burger'' 2, pn_createdAt = 2, pn_status = PENDING\<rparr>,
      \<lparr>pn_mutationId = ''m3'', pn_restaurantId = ''demo-restaurant'', pn_terminalId = ''pos-1'', pn_orderId = ''o1'',
       pn_baseVersion = 2, pn_command = MarkReady, pn_createdAt = 3, pn_status = PENDING\<rparr>]"

theorem sole_writer_prediction_is_exact_witness:
  "agrees
     (loadOrderSnapshot (fst (answered_queue id (empty_db demo_restaurants demo_menu)
        (zip [demo_env 5 ''e1'', demo_env 6 ''e2'', demo_env 7 ''e3''] predicted_rows))) ''o1'')
     (projectQueue None (take (length (snd (answered_queue id (empty_db demo_restaurants demo_menu)
        (zip [demo_env 5 ''e1'', demo_env 6 ''e2'', demo_env 7 ''e3''] predicted_rows)))) predicted_rows)
        (menuLookup demo_menu))"
proof -
  let ?d = "empty_db demo_restaurants demo_menu"
  let ?q = "zip [demo_env 5 ''e1'', demo_env 6 ''e2'', demo_env 7 ''e3''] predicted_rows"
  have rows: "map snd ?q = predicted_rows" by (simp add: predicted_rows_def)
  have "loadOrderSnapshot ?d ''o1'' = None" by (simp add: empty_db_def)
  moreover have "db_processed ?d m = None" for m by (simp add: empty_db_def)
  moreover have "own_rows ''o1'' ''demo-restaurant'' predicted_rows"
    by (simp add: own_rows_def predicted_rows_def)
  moreover have "stamped (menuLookup demo_menu) None predicted_rows"
    by code_simp
  moreover have "db_products ?d = demo_menu" "distinct (map menu_id demo_menu)"
    by (simp_all add: empty_db_def demo_menu_def)
  ultimately show ?thesis
    using sole_writer_prediction_is_exact [of ?d "''o1''" None "''demo-restaurant''" ?q id, OF _ _ _ _ _ _ _ surjective_pairing] rows
    by (simp add: db_ok_empty of_tenant_def agrees_Nones del: loadOrderSnapshot_None)
qed

end
