(* ===== verification/Offline_Taps.thy ===== *)
theory Offline_Taps
  imports End_To_End Client_Prediction
begin

text \<open>
  What an operator does at a terminal between two syncs: every command is stamped against the
  projection and queued, so the queue stays one that \<open>nextBaseVersion\<close> stamped, and the order on screen is the one
  the server will make of it (with \<open>Client_Prediction\<close>). And the one way a screen can lose an order it is
  on: a hydration that installs its order over one created while the disk was read.
\<close>

section \<open>A screen in step with its device\<close>

abbreviation menu_on :: "'n pos \<Rightarrow> menu_lookup" where
  "menu_on c \<equiv> menuLookup (w_menu (cl_world c))"

definition tap_ready :: "string \<Rightarrow> 'n pos \<Rightarrow> bool" where
  "tap_ready t c \<longleftrightarrow>
     storage_works c \<and> queue_ok (ls_pending (cl_store c))
     \<and> os_activeTerminalId (screen_of c) = Some t
     \<and> os_queue (screen_of c) = terminal_queue t (ls_pending (cl_store c))
     \<and> stamped (menu_on c) (os_order (screen_of c)) (currentQueue (screen_of c))"

text \<open>One command as the screen issues it, up to the point where the sync would start.\<close>

definition tap ::
  "'n api \<Rightarrow> string \<Rightarrow> tenant \<Rightarrow> ('n pos \<Rightarrow> mutation_command option) \<Rightarrow> 'n pos \<Rightarrow> 'n pos" where
  "tap api t tenant plan c = snd (command_link api (os_currentOrderId (screen_of c)) t tenant plan c)"

definition tapped_row :: "string \<Rightarrow> tenant \<Rightarrow> mutation_command \<Rightarrow> 'n pos \<Rightarrow> pending_row" where
  "tapped_row t tenant payload c =
     \<lparr>pn_mutationId = w_uuid (cl_world c) (w_drawn (cl_world c)), pn_restaurantId = tenant, pn_terminalId = t,
      pn_orderId = the (os_currentOrderId (screen_of c)), pn_baseVersion = nextBaseVersion (projected c),
      pn_command = payload, pn_createdAt = queueStamp (cl_now c) (ls_pending (cl_store c)), pn_status = PENDING\<rparr>"

lemma tap_effect:
  assumes ready: "tap_ready t c" and ids: "new_ids c" and i: "os_currentOrderId (screen_of c) = Some i"
    and open': "\<not> is_halted (screen_of c)" and plan: "plan c = Some payload"
  shows "tap api t tenant plan c =
    on_screen (\<lambda>s. s\<lparr>os_queue := os_queue s @ [tapped_row t tenant payload c]\<rparr>)
      (c\<lparr>cl_world := (cl_world c)\<lparr>w_drawn := w_drawn (cl_world c) + 1\<rparr>,
         cl_store := (cl_store c)\<lparr>ls_pending := put_row pn_mutationId (tapped_row t tenant payload c) (ls_pending (cl_store c))\<rparr>\<rparr>)"
proof -
  let ?rows = "ls_pending (cl_store c)" and ?row = "tapped_row t tenant payload c"
  have f: "ls_faults (cl_store c) = []" and ok: "queue_ok ?rows" and act: "os_activeTerminalId (screen_of c) = Some t"
    and q: "os_queue (screen_of c) = terminal_queue t ?rows"
    using ready by (simp_all add: tap_ready_def storage_works_def)
  have new: "pn_mutationId ?row \<notin> pn_mutationId ` set ?rows"
    using ids by (simp add: new_ids_def queued_def tapped_row_def)
  have "\<forall>r \<in> set ?rows. pn_createdAt r < pn_createdAt ?row"
    by (simp add: tapped_row_def queueStamp_later)
  from terminal_queue_stored_new [OF ok new this, of t]
  have tq: "terminal_queue t (put_row pn_mutationId ?row ?rows) = terminal_queue t ?rows @ [?row]"
    by (simp add: tapped_row_def)
  have none: "get_row pn_mutationId (pn_mutationId ?row) ?rows = None" using new by (simp add: get_row_None)
  show ?thesis
    using i open' plan f act q tq none
    by (simp add: tap_def command_link_def identityFor_def stageOrSend_def stage_def randomUUID_def savePending_def
        refreshQueue_def readQueue_def on_screen_def Let_def stored_pending_def tapped_row_def)
qed

text \<open>What a run of commands adds to the queue of the order on screen, and what it leaves alone.\<close>

definition own_row :: "string \<Rightarrow> tenant \<Rightarrow> 'n pos \<Rightarrow> pending_row \<Rightarrow> bool" where
  "own_row t tenant c row \<longleftrightarrow>
     os_currentOrderId (screen_of c) = Some (pn_orderId row) \<and> pn_restaurantId row = tenant
     \<and> pn_terminalId row = t \<and> command_valid (pn_command row)"

definition session :: "string \<Rightarrow> tenant \<Rightarrow> 'n pos \<Rightarrow> 'n pos \<Rightarrow> bool" where
  "session t tenant c c' \<longleftrightarrow>
     os_order (screen_of c') = os_order (screen_of c)
     \<and> os_currentOrderId (screen_of c') = os_currentOrderId (screen_of c)
     \<and> w_menu (cl_world c') = w_menu (cl_world c) \<and> w_uuid (cl_world c') = w_uuid (cl_world c)
     \<and> w_drawn (cl_world c) \<le> w_drawn (cl_world c')
     \<and> (\<exists>new. currentQueue (screen_of c') = currentQueue (screen_of c) @ new
          \<and> distinct (map pn_mutationId new)
          \<and> (\<forall>row \<in> set new. own_row t tenant c row \<and> pn_mutationId row \<in> drawn_ids c c'))"

lemma session_refl: "session t tenant c c"
  by (auto simp: session_def)

lemma session_trans:
  assumes ids: "new_ids c" and s1: "session t tenant c c1" and s2: "session t tenant c1 c2"
  shows "session t tenant c c2"
proof -
  obtain n1 where n1: "currentQueue (screen_of c1) = currentQueue (screen_of c) @ n1" "distinct (map pn_mutationId n1)"
      "\<forall>row \<in> set n1. own_row t tenant c row \<and> pn_mutationId row \<in> drawn_ids c c1"
    using s1 by (auto simp: session_def)
  obtain n2 where n2: "currentQueue (screen_of c2) = currentQueue (screen_of c1) @ n2" "distinct (map pn_mutationId n2)"
      "\<forall>row \<in> set n2. own_row t tenant c1 row \<and> pn_mutationId row \<in> drawn_ids c1 c2"
    using s2 by (auto simp: session_def)
  have eq: "w_uuid (cl_world c1) = w_uuid (cl_world c)" "os_currentOrderId (screen_of c1) = os_currentOrderId (screen_of c)"
    "w_drawn (cl_world c) \<le> w_drawn (cl_world c1)" "w_drawn (cl_world c1) \<le> w_drawn (cl_world c2)"
    using s1 s2 by (simp_all add: session_def)
  have "drawn_ids c c1 \<inter> drawn_ids c1 c2 = {}"
    using ids eq unfolding drawn_ids_def new_ids_def
    by (auto dest!: inj_onD)
  then have "distinct (map pn_mutationId (n1 @ n2))" using n1 n2 by auto
  moreover have "drawn_ids c c1 \<subseteq> drawn_ids c c2" "drawn_ids c1 c2 \<subseteq> drawn_ids c c2"
    using eq by (auto simp: drawn_ids_def)
  then have "\<forall>row \<in> set (n1 @ n2). own_row t tenant c row \<and> pn_mutationId row \<in> drawn_ids c c2"
    using n1(3) n2(3) eq(2) by (auto simp: own_row_def)
  ultimately show ?thesis
    using s1 s2 n1(1) n2(1) by (auto simp: session_def intro!: exI [of _ "n1 @ n2"])
qed

lemma tap_quiet:
  assumes "is_halted (screen_of c) \<or> os_currentOrderId (screen_of c) = None \<or> plan c = None"
  obtains e where "tap api t tenant plan c = on_screen (\<lambda>s. s\<lparr>os_lastError := e\<rparr>) c"
proof -
  have same: "on_screen (\<lambda>s. s\<lparr>os_lastError := os_lastError (screen_of c)\<rparr>) c = c"
    by (simp add: on_screen_def)
  show thesis
  proof (cases "is_halted (screen_of c)")
    case True
    then show thesis by (intro that [of "Some ''This order is halted on a conflict. Discard or rebase first.''"])
      (simp add: tap_def command_link_def)
  next
    case False
    then have "tap api t tenant plan c = c"
      using assms by (auto simp: tap_def command_link_def identityFor_def split: option.splits)
    then show thesis using that [of "os_lastError (screen_of c)"] same by simp
  qed
qed

lemma tap_step:
  assumes ready: "tap_ready t c" and ids: "new_ids c" and valid: "\<And>payload. plan c = Some payload \<Longrightarrow> command_valid payload"
  shows "tap_ready t (tap api t tenant plan c) \<and> new_ids (tap api t tenant plan c)
    \<and> session t tenant c (tap api t tenant plan c)"
proof (cases "is_halted (screen_of c) \<or> os_currentOrderId (screen_of c) = None \<or> plan c = None")
  case True
  then obtain e where "tap api t tenant plan c = on_screen (\<lambda>s. s\<lparr>os_lastError := e\<rparr>) c" using tap_quiet by metis
  then show ?thesis
    using ready ids by (auto simp: on_screen_def tap_ready_def new_ids_def session_def storage_works_def
      queued_def currentQueue_def split: option.splits)
next
  case False
  then obtain i payload where i: "os_currentOrderId (screen_of c) = Some i" and p: "plan c = Some payload"
    and h: "\<not> is_halted (screen_of c)" by auto
  let ?row = "tapped_row t tenant payload c" and ?rows = "ls_pending (cl_store c)"
  note eff = tap_effect [where plan = plan, OF ready ids i h p, of api tenant]
  have new: "pn_mutationId ?row \<notin> pn_mutationId ` set ?rows"
    using ids by (simp add: new_ids_def queued_def tapped_row_def)
  have late: "\<forall>r \<in> set ?rows. pn_createdAt r < pn_createdAt ?row" by (simp add: tapped_row_def queueStamp_later)
  have cq: "currentQueue (screen_of (tap api t tenant plan c)) = currentQueue (screen_of c) @ [?row]"
    using i by (simp add: eff on_screen_def currentQueue_def tapped_row_def)
  have rows: "ls_pending (cl_store (tap api t tenant plan c)) = put_row pn_mutationId ?row ?rows"
    by (simp add: eff on_screen_def)
  have "queue_ok (put_row pn_mutationId ?row ?rows)"
    using ready new late by (intro queue_ok_put_new) (force simp: tap_ready_def)+
  moreover have "terminal_queue t (put_row pn_mutationId ?row ?rows) = terminal_queue t ?rows @ [?row]"
    using terminal_queue_stored_new [OF _ new late, of t] ready by (simp add: tap_ready_def tapped_row_def)
  moreover have "stamped (menu_on c) (os_order (screen_of c)) (currentQueue (screen_of c) @ [?row])"
    using ready by (simp add: tap_ready_def stamped_append tapped_row_def projected_def)
  ultimately have "tap_ready t (tap api t tenant plan c)"
    using ready by (simp add: tap_ready_def storage_works_def rows cq) (simp add: eff on_screen_def)
  moreover have "new_ids (tap api t tenant plan c)"
  proof -
    have k: "w_uuid (cl_world c) k \<noteq> pn_mutationId ?row" if "Suc (w_drawn (cl_world c)) \<le> k" for k
    proof
      assume "w_uuid (cl_world c) k = pn_mutationId ?row"
      then have "k = w_drawn (cl_world c)"
        using ids that by (auto simp: new_ids_def tapped_row_def dest!: inj_onD)
      then show False using that by simp
    qed
    have "inj_on (w_uuid (cl_world c)) {Suc (w_drawn (cl_world c))..}"
      using ids by (auto simp: new_ids_def intro: inj_on_subset)
    moreover have "w_uuid (cl_world c) k \<notin> pn_mutationId ` {r \<in> set ?rows. pn_mutationId r \<noteq> pn_mutationId ?row}"
      if "Suc (w_drawn (cl_world c)) \<le> k" for k
      using ids that by (auto simp: new_ids_def queued_def dest!: Suc_leD)
    ultimately show ?thesis using k by (simp add: new_ids_def queued_def eff on_screen_def)
  qed
  moreover have "session t tenant c (tap api t tenant plan c)"
    using cq i valid [OF p]
    by (auto simp: session_def own_row_def drawn_ids_def tapped_row_def eff on_screen_def)
  ultimately show ?thesis by blast
qed

section \<open>A session without a network\<close>

definition plans_valid :: "('n pos \<Rightarrow> mutation_command option) list \<Rightarrow> bool" where
  "plans_valid plans \<longleftrightarrow> (\<forall>plan \<in> set plans. \<forall>c payload. plan c = Some payload \<longrightarrow> command_valid payload)"

lemma taps_session:
  "tap_ready t c \<Longrightarrow> new_ids c \<Longrightarrow> plans_valid plans \<Longrightarrow>
     tap_ready t (fold (tap api t tenant) plans c) \<and> session t tenant c (fold (tap api t tenant) plans c)"
proof (induction plans arbitrary: c)
  case Nil
  then show ?case by (simp add: session_refl)
next
  case (Cons plan plans)
  have "\<And>payload. plan c = Some payload \<Longrightarrow> command_valid payload" using Cons.prems(3) by (simp add: plans_valid_def)
  note step = tap_step [where plan = plan, OF Cons.prems(1,2) this, of api tenant]
  have "plans_valid plans" using Cons.prems(3) by (simp add: plans_valid_def)
  with Cons.IH [of "tap api t tenant plan c"] step session_trans [OF Cons.prems(2)] show ?case by auto
qed

text \<open>
  C25. What the operator sees without a network is what the server makes of it. From a screen that shows
  the server's order and has nothing queued for it, let any commands be issued, each computed
  from what is on screen at that moment. When the queue is later answered in order, with no other
  terminal writing the order, no answer is a version conflict, and once all of it is answered the server
  holds the order that was on screen.
\<close>

theorem offline_session_is_what_the_server_makes:
  assumes "tap_ready t c" and "new_ids c" and "plans_valid plans"
    and "os_currentOrderId (screen_of c) = Some i" and "currentQueue (screen_of c) = []"
    and "db_ok d" and "w_menu (cl_world c) = db_products d" and "distinct (map menu_id (db_products d))"
    and "agrees (loadOrderSnapshot d i) (os_order (screen_of c))" and "of_tenant tenant (os_order (screen_of c))"
    and "\<forall>k \<ge> w_drawn (cl_world c). db_processed d (w_uuid (cl_world c) k) = None"
    and "c' = fold (tap api t tenant) plans c"
    and "length envs = length (currentQueue (screen_of c'))"
    and "answered_queue sha256 d (zip envs (currentQueue (screen_of c'))) = (d', answers)"
  shows "(\<forall>base v s. CONFLICT_RESPONSE ORDER_VERSION_CONFLICT base v s \<notin> set answers)
    \<and> (length answers = length (currentQueue (screen_of c')) \<longrightarrow>
         agrees (loadOrderSnapshot d' i) (projected c'))"
proof -
  have ready: "tap_ready t c'" and ses: "session t tenant c c'"
    using taps_session [OF assms(1-3)] assms(12) by auto
  let ?q = "currentQueue (screen_of c')"
  have same: "os_order (screen_of c') = os_order (screen_of c)" "menu_on c' = menuLookup (db_products d)"
    using ses assms(7) by (simp_all add: session_def)
  have snds: "map snd (zip envs ?q) = ?q" using assms(13) by simp
  have own: "own_rows i tenant ?q" and ids: "\<forall>row \<in> set ?q. pn_mutationId row \<in> drawn_ids c c'"
    using ses assms(4,5) by (auto simp: session_def own_rows_def own_row_def)
  have "\<forall>row \<in> set ?q. db_processed d (pn_mutationId row) = None"
    using ids assms(11) by (auto simp: drawn_ids_def)
  moreover have "stamped (menuLookup (db_products d)) (os_order (screen_of c)) ?q"
    using ready same by (simp add: tap_ready_def)
  ultimately show ?thesis
    using sole_writer_prediction_is_exact [of d i "os_order (screen_of c)" tenant "zip envs ?q", OF assms(8,6,9,10) _ _ _ assms(14)]
      own snds same by (auto simp: projected_def)
qed

definition demo_till :: "net pos" where
  "demo_till = (let c = demo_pos [] [] [] in
     c\<lparr>cl_world := (cl_world c)\<lparr>w_uuid := (\<lambda>n. CHR ''v'' # replicate n CHR ''u'')\<rparr>\<rparr>)"

definition demo_plans :: "(net pos \<Rightarrow> mutation_command option) list" where
  "demo_plans =
     [\<lambda>c. Some (AddItem ''burger'' 1),
      \<lambda>c. map_option (\<lambda>o'. ChangeQuantity ''burger'' (int (length (snap_items o')) + 2)) (projected c)]"

definition demo_session :: "net pos" where
  "demo_session = fold (tap demo_api ''pos-1'' ''demo-restaurant'') demo_plans demo_till"

lemma demo_session_run:
  "let q = currentQueue (screen_of demo_session);
       r = answered_queue id demo_open (zip [demo_env 5 ''e5'', demo_env 6 ''e6''] q)
   in length q = 2 \<and> length (snd r) = 2"
  by code_simp

lemma demo_open_facts:
  "map_option snap_restaurantId (loadOrderSnapshot demo_open ''o1'') = Some ''demo-restaurant''"
  "db_products demo_open = demo_menu" "distinct (map menu_id (db_products demo_open))"
  "db_processed demo_open (CHR ''v'' # m) = None"
  by (code_simp, code_simp, code_simp) (simp add: demo_defs run_defs)

lemma demo_till_ready: "tap_ready ''pos-1'' demo_till" "new_ids demo_till" "plans_valid demo_plans"
proof -
  show "tap_ready ''pos-1'' demo_till"
    by (simp add: tap_ready_def demo_till_def Let_def storage_works_def queue_ok_def demo_pos_def demo_screen_def
        currentQueue_def terminal_queue_def)
  show "new_ids demo_till"
    by (auto simp: new_ids_def demo_till_def Let_def queued_def demo_pos_def inj_on_def)
  show "plans_valid demo_plans"
    by (auto simp: plans_valid_def demo_plans_def)
qed

theorem offline_session_is_what_the_server_makes_witness:
  "agrees
     (loadOrderSnapshot (fst (answered_queue id demo_open
        (zip [demo_env 5 ''e5'', demo_env 6 ''e6''] (currentQueue (screen_of demo_session))))) ''o1'')
     (projected demo_session)"
proof -
  let ?q = "currentQueue (screen_of demo_session)"
  obtain d' answers where r: "answered_queue id demo_open (zip [demo_env 5 ''e5'', demo_env 6 ''e6''] ?q) = (d', answers)"
    by fastforce
  have len: "length ?q = 2" "length answers = 2" using demo_session_run r by (simp_all add: Let_def)
  have scr: "screen_of demo_till = demo_screen" by (simp add: demo_till_def Let_def demo_pos_def)
  have ag: "agrees (loadOrderSnapshot demo_open ''o1'') (os_order (screen_of demo_till))"
    by (cases "loadOrderSnapshot demo_open ''o1''") (simp_all del: loadOrderSnapshot_None add: scr demo_screen_def same_order_def)
  have ten: "of_tenant ''demo-restaurant'' (os_order (screen_of demo_till))"
    using demo_open_facts(1) by (auto simp: of_tenant_def scr demo_screen_def)
  have fresh: "\<forall>k \<ge> w_drawn (cl_world demo_till). db_processed demo_open (w_uuid (cl_world demo_till) k) = None"
    by (simp add: demo_till_def Let_def demo_open_facts(4))
  have q0: "currentQueue (screen_of demo_till) = []" and cur: "os_currentOrderId (screen_of demo_till) = Some ''o1''"
    and menu: "w_menu (cl_world demo_till) = db_products demo_open"
    by (simp_all add: scr demo_screen_def currentQueue_def demo_till_def Let_def demo_pos_def demo_open_facts(2))
  show ?thesis
    using offline_session_is_what_the_server_makes
      [OF demo_till_ready cur q0 demo_open_ok menu demo_open_facts(3) ag ten fresh demo_session_def _ r] len r
    by simp
qed

section \<open>A hydration that comes too late\<close>

lemma stageOrSend_staged:
  "stageOrSend api row c = (True, c') \<Longrightarrow> \<exists>q store. c' = on_screen (\<lambda>s. s\<lparr>os_queue := q\<rparr>) (c\<lparr>cl_store := store\<rparr>)"
  by (auto simp: stageOrSend_def stage_def refreshQueue_def on_screen_def Let_def
      split: option.splits bool.splits prod.splits if_splits)

text \<open>
  A hydration can take the screen away from a new order. The disk read of \<open>hydrate\<close> ends, with the
  order the terminal was on, after the operator created a new one whose request has not been
  answered: the screen has moved to neither another terminal nor another generation, and the canonical order
  of the new one is still \<open>undefined\<close>, so the restored order is adopted and the pointer moves to it. The
  next command is issued for that order.
\<close>

lemma hydration_displaces_new_order:
  assumes "os_generation (screen_of c) = mine" and "os_activeTerminalId (screen_of c) = Some t"
    and "ts_order restored = Some o'"
    and "createOrder_link api t tenant tableNumber orderId c = (True, c1)"
  shows "os_currentOrderId (screen_of c1) = Some orderId
    \<and> (\<exists>c2. hydrate_install mine t restored c1 = Some c2 \<and> os_currentOrderId (screen_of c2) = Some (snap_id o'))"
proof -
  obtain q store where c1: "c1 = on_screen (\<lambda>s. s\<lparr>os_queue := q\<rparr>)
     ((snd (randomUUID (on_store (setCurrentOrder (cl_now c) t orderId)
        (on_screen (\<lambda>s. s\<lparr>os_order := None, os_conflict := None, os_currentOrderId := Some orderId\<rparr>) c))))\<lparr>cl_store := store\<rparr>)"
    using assms(4) by (auto simp: createOrder_link_def Let_def case_prod_unfold on_screen_def dest!: stageOrSend_staged)
  have scr: "screen_of c1 = (screen_of c)\<lparr>os_order := None, os_conflict := None, os_currentOrderId := Some orderId, os_queue := q\<rparr>"
    by (simp add: c1 on_screen_def randomUUID_def on_store_def Let_def)
  have "os_currentOrderId (screen_of (refreshQueue c2)) = os_currentOrderId (screen_of c2)" for c2 :: "'a pos"
    by (simp add: refreshQueue_def on_screen_def Let_def case_prod_unfold split: option.splits)
  then show ?thesis
    using assms(1-3) by (simp add: hydrate_install_def scr) (simp add: on_screen_def scr adopt_def acceptsSnapshot_def Let_def)
qed

lemma hydration_displaces_new_order_witness:
  "\<exists>c1 c2. createOrder_link demo_api ''pos-1'' ''demo-restaurant'' ''9'' ''o2'' demo_till = (True, c1)
    \<and> hydrate_install 1 ''pos-1'' \<lparr>ts_currentOrderId = Some ''o1'', ts_order = Some (sample_order 4), ts_queue = []\<rparr> c1 = Some c2
    \<and> os_currentOrderId (screen_of c1) = Some ''o2'' \<and> os_currentOrderId (screen_of c2) = Some ''o1''"
proof -
  have st: "os_generation (screen_of demo_till) = 1" "os_activeTerminalId (screen_of demo_till) = Some ''pos-1''"
    by (simp_all add: demo_till_def Let_def demo_pos_def demo_screen_def)
  have "fst (createOrder_link demo_api ''pos-1'' ''demo-restaurant'' ''9'' ''o2'' demo_till)" by code_simp
  then obtain c1 where run: "createOrder_link demo_api ''pos-1'' ''demo-restaurant'' ''9'' ''o2'' demo_till = (True, c1)"
    by (cases "createOrder_link demo_api ''pos-1'' ''demo-restaurant'' ''9'' ''o2'' demo_till") simp
  show ?thesis
    using hydration_displaces_new_order [OF st _ run,
        of "\<lparr>ts_currentOrderId = Some ''o1'', ts_order = Some (sample_order 4), ts_queue = []\<rparr>" "sample_order 4"] run
    by (auto simp: sample_order_def)
qed

end
