(* ===== verification/Api_Service.thy ===== *)
theory Api_Service
  imports Api_Boundary
begin

text \<open>
  The API as a service: any sequence of calls to its routes, with any bodies. The schemas establish
  what the handler assumes, so the database stays well-formed without a hypothesis on what is sent, and
  the counters of the process add up to what was done.
\<close>

section \<open>Calls\<close>

datatype api_call =
    MutationCall tx_env "string option" uuid mutation_request
  | KitchenCall tx_env "string option" kitchen_segment uuid kitchen_body
  | ResolutionCall uuid string conflict_resolution "uuid list"
  | ReadCall uuid

type_synonym service = "db \<times> counters"

fun answer_call ::
  "(string \<Rightarrow> bool) \<Rightarrow> (string \<Rightarrow> string) \<Rightarrow> api_call \<Rightarrow> service \<Rightarrow> http_reply \<times> service" where
  "answer_call is_uuid sha256 (MutationCall env traceId i r) s = mutationRoute is_uuid sha256 env traceId i r s"
| "answer_call is_uuid sha256 (KitchenCall env traceId segment i b) s =
     kitchenCommandRoute is_uuid sha256 env traceId segment i b s"
| "answer_call is_uuid sha256 (ResolutionCall i t resolution ms) s =
     (let (reply, d) = conflictRoute is_uuid i t resolution ms (fst s) in (reply, d, snd s))"
| "answer_call is_uuid sha256 (ReadCall i) s = (orderReadRoute is_uuid i (fst s), s)"

definition serve ::
  "(string \<Rightarrow> bool) \<Rightarrow> (string \<Rightarrow> string) \<Rightarrow> api_call \<Rightarrow> service \<times> http_reply list \<Rightarrow> service \<times> http_reply list" where
  "serve is_uuid sha256 call st =
     (case st of (s, replies) \<Rightarrow>
        (let (reply, d, k) = answer_call is_uuid sha256 call s in ((d, onResponse reply k), replies @ [reply])))"

section \<open>What one call does to the books\<close>

definition mutation_reply :: "http_reply \<Rightarrow> bool" where
  "mutation_reply reply = (case reply of MutationReply _ _ \<Rightarrow> True | _ \<Rightarrow> False)"

definition reply_ok :: "http_reply \<Rightarrow> bool" where
  "reply_ok reply \<longleftrightarrow>
     (case reply of
        MutationReply status body \<Rightarrow>
          status = (case body of APPLIED _ _ \<Rightarrow> 200 | ALREADY_APPLIED _ _ \<Rightarrow> 200 | REJECTED \<Rightarrow> 403 | _ \<Rightarrow> 409)
      | ErrorReply status code _ \<Rightarrow>
          (status, code) \<in> {(400, VALIDATION_FAILED), (400, PRODUCT_NOT_FOUND), (404, ORDER_NOT_FOUND), (500, INTERNAL_ERROR)}
      | _ \<Rightarrow> True)"

text \<open>
  What each counter is there to count, said of the answer alone: a refused call is one answered with an error, or a mutation that was neither
  applied nor found applied. The broadcasts are another part of the process and none of the routes' business.
\<close>

definition refused_reply :: "http_reply \<Rightarrow> bool" where
  "refused_reply reply =
     (case reply of
        MutationReply _ body \<Rightarrow> (case body of APPLIED _ _ \<Rightarrow> False | ALREADY_APPLIED _ _ \<Rightarrow> False | _ \<Rightarrow> True)
      | ErrorReply _ _ _ \<Rightarrow> True
      | _ \<Rightarrow> False)"

definition judged_as :: "(mutation_response \<Rightarrow> bool) \<Rightarrow> http_reply \<Rightarrow> bool" where
  "judged_as P reply = (case reply of MutationReply _ body \<Rightarrow> P body | _ \<Rightarrow> False)"

fun due :: "process_counter \<Rightarrow> http_reply \<Rightarrow> bool" where
  "due apiRequests reply = True"
| "due apiErrors reply = refused_reply reply"
| "due mutationsReceived reply = mutation_reply reply"
| "due mutationsApplied reply = judged_as (\<lambda>b. case b of APPLIED _ _ \<Rightarrow> True | _ \<Rightarrow> False) reply"
| "due duplicateMutationsPrevented reply = judged_as (\<lambda>b. case b of ALREADY_APPLIED _ _ \<Rightarrow> True | _ \<Rightarrow> False) reply"
| "due mutationIdReuseRejected reply = judged_as (\<lambda>b. case b of MUTATION_ID_REUSED \<Rightarrow> True | _ \<Rightarrow> False) reply"
| "due crossTenantRejections reply = judged_as (\<lambda>b. case b of REJECTED \<Rightarrow> True | _ \<Rightarrow> False) reply"
| "due realtimeEventsBroadcast reply = False"

definition booked :: "service \<Rightarrow> http_reply \<Rightarrow> service \<Rightarrow> bool" where
  "booked s reply s' \<longleftrightarrow>
     reply_ok reply
     \<and> (\<forall>c. snd s' c = snd s c + (if due c reply \<and> c \<noteq> apiRequests \<and> c \<noteq> apiErrors then 1 else 0))
     \<and> int (snd s' mutationsApplied) - int (snd s mutationsApplied)
         = int (length (db_outbox (fst s'))) - int (length (db_outbox (fst s)))"

lemma countOutcome_due:
  "countOutcome body k c = k c + (if due c (MutationReply status body) \<and> c \<noteq> apiRequests \<and> c \<noteq> apiErrors then 1 else 0)"
  by (cases c; cases body) (simp_all add: countOutcome_def incrementCounter_def judged_as_def mutation_reply_def Let_def)

lemma onResponse_due:
  assumes "reply_ok reply"
  shows "onResponse reply k c = k c + (if due c reply \<and> (c = apiRequests \<or> c = apiErrors) then 1 else 0)"
proof -
  have "400 \<le> reply_status reply \<longleftrightarrow> refused_reply reply"
    using assms by (auto simp: reply_ok_def reply_status_def refused_reply_def split: http_reply.splits mutation_response.splits)
  then show ?thesis by (auto simp: onResponse_def incrementCounter_def Let_def)
qed

lemma applied_counter [simp]:
  "countOutcome r k mutationsApplied = (case r of APPLIED _ _ \<Rightarrow> Suc (k mutationsApplied) | _ \<Rightarrow> k mutationsApplied)"
  by (simp add: countOutcome_def incrementCounter_def Let_def split: mutation_response.split)

lemma conflictOutcome_status:
  "conflictOutcome_at p h l d input hash reason = (res, d') \<Longrightarrow>
     (case res of Inr out \<Rightarrow> reply_ok (MutationReply (out_httpStatus out) (out_body out)) \<and> (\<forall>s v. out_body out \<noteq> APPLIED s v)
               | Inl e \<Rightarrow> reply_ok (error_reply m e))"
  by (auto simp: conflictOutcome_at_def outcomeFor_def toAppliedOutcome_def reply_ok_def error_reply_def
      split: option.splits if_splits)

lemma catchSignal_status:
  assumes "catchSignal d input hash sig = (res, d')"
    and "\<And>status code. sig = ApiErrorSignal status code \<Longrightarrow> (status, code) \<in> {(400, PRODUCT_NOT_FOUND), (404, ORDER_NOT_FOUND)}"
  shows "case res of Inr out \<Rightarrow> reply_ok (MutationReply (out_httpStatus out) (out_body out)) \<and> (\<forall>s v. out_body out \<noteq> APPLIED s v)
               | Inl e \<Rightarrow> reply_ok (error_reply m e)"
  using assms
  by (cases sig)
    (auto simp: catchSignal_def alreadyAppliedOutcome_def settle_already_applied_def racedOutcome_def outcomeFor_def
       toAppliedOutcome_def reply_ok_def error_reply_def dest!: conflictOutcome_status [where m = m]
       split: option.splits if_splits sum.splits decision.splits prod.splits)

definition known_errors :: "(nat \<times> api_error_code) set" where
  "known_errors = {(400, PRODUCT_NOT_FOUND), (404, ORDER_NOT_FOUND)}"

lemma read_errors:
  "runMutation_read h l p input hash = Inl (ApiErrorSignal status code) \<Longrightarrow> (status, code) \<in> known_errors"
  by (auto simp: runMutation_read_def Let_def known_errors_def
      split: option.splits if_splits sum.splits decision.splits)

lemma write_errors:
  "runMutation_write env d input hash snapshot st = Inl (ApiErrorSignal status code) \<Longrightarrow> (status, code) \<in> known_errors"
  by (cases "in_command input")
    (auto simp: runMutation_write_def and_then_def applyEffect_def applyChange_def guardedVersionBump_def
       write_lines_def recalculateTotal_def load_own_def insert_payment_def insert_processed_def insert_event_def
       known_errors_def Let_def split: option.splits if_splits sum.splits prod.splits)

lemma run_errors:
  assumes "runMutation env d input hash = Inl (ApiErrorSignal status code)"
  shows "(status, code) \<in> known_errors"
proof -
  from assms consider "runMutation_read d d d input hash = Inl (ApiErrorSignal status code)"
    | plan where "(case plan of Inl outcome \<Rightarrow> Inr (d, outcome)
        | Inr (snapshot, st) \<Rightarrow> runMutation_write env d input hash snapshot st) = Inl (ApiErrorSignal status code)"
    unfolding runMutation_def and_then_Inl_iff by blast
  then show ?thesis
  proof cases
    case (2 plan)
    then show ?thesis by (cases plan) (auto intro: write_errors)
  qed (rule read_errors)
qed

lemma stored_reply_ok: "reply_ok (MutationReply (out_httpStatus (toAppliedOutcome p)) (out_body (toAppliedOutcome p)))"
  by (simp add: reply_ok_def toAppliedOutcome_def)

lemma booked_outcome:
  assumes "reply_ok (MutationReply status body)"
    and "length (db_outbox d') = length (db_outbox d) + (case body of APPLIED _ _ \<Rightarrow> 1 | _ \<Rightarrow> 0)"
  shows "booked (d, k) (MutationReply status body) (d', countOutcome body k)"
  unfolding booked_def fst_conv snd_conv
proof (intro conjI allI)
  fix c
  show "countOutcome body k c = k c + (if due c (MutationReply status body) \<and> c \<noteq> apiRequests \<and> c \<noteq> apiErrors then 1 else 0)"
    by (rule countOutcome_due)
qed (use assms in \<open>auto split: mutation_response.splits\<close>)

lemma booked_idle:
  assumes "reply_ok reply" and "\<not> mutation_reply reply" and "db_outbox d' = db_outbox d"
  shows "booked (d, k) reply (d', k)"
proof -
  have "\<not> due c reply" if "c \<noteq> apiRequests" and "c \<noteq> apiErrors" for c
    using that assms(2) by (cases c) (auto simp: judged_as_def mutation_reply_def split: http_reply.splits)
  then show ?thesis using assms unfolding booked_def by auto
qed

lemma executeMutation_booked:
  assumes "executeMutation sha256 env input (d, k) = (reply, d', k')"
  shows "booked (d, k) reply (d', k')"
proof -
  obtain res d1 where run: "applyMutation sha256 env d input = (res, d1)" by fastforce
  from run have d': "d' = d1" using assms by (auto simp: executeMutation_def split: sum.splits)
  from run show ?thesis
  proof (cases rule: applyMutation_cases)
    case (applied snapshot st)
    then show ?thesis
      using assms run
      by (auto simp: executeMutation_def reply_ok_def applied_outcome_def committed_def intro!: booked_outcome)
  next
    case (replayed outcome)
    have o': "outcome = toAppliedOutcome p" if "db_processed d (in_mutationId input) = Some p" for p
      using replayed(1) that by (auto simp: runMutation_read_def Let_def split: if_splits)
    obtain p where "outcome = toAppliedOutcome p" using replayed(1) o' read_processed_None by fastforce
    then show ?thesis
      using assms run replayed stored_reply_ok
      by (auto simp: executeMutation_def toAppliedOutcome_def intro!: booked_outcome)
  next
    case (refused sig)
    have same: "db_outbox d1 = db_outbox d"
      using catchSignal_frame [OF refused(2)] by (simp add: same_business_def)
    have "\<And>status code. sig = ApiErrorSignal status code \<Longrightarrow> (status, code) \<in> {(400, PRODUCT_NOT_FOUND), (404, ORDER_NOT_FOUND)}"
      using run_errors refused(1) by (simp add: known_errors_def)
    from catchSignal_status [OF refused(2) this] show ?thesis
      using assms run same
      by (auto simp: executeMutation_def mutation_reply_def error_reply_def intro!: booked_outcome booked_idle
          split: sum.splits failure.splits mutation_response.splits)
  qed
qed

lemma idle_replies [simp]:
  "reply_ok (validationFailed m)" "\<not> mutation_reply (validationFailed m)"
  "reply_ok (OrderReply s)" "\<not> mutation_reply (OrderReply s)" "reply_ok (ResolvedReply n)" "\<not> mutation_reply (ResolvedReply n)"
  "reply_ok (ErrorReply 404 ORDER_NOT_FOUND m)" "\<not> mutation_reply (ErrorReply st code m)"
  by (simp_all add: reply_ok_def mutation_reply_def validationFailed_def)

lemma executeMutation_ok:
  assumes "executeMutation sha256 env input (d, k) = (reply, d', k')"
    and "db_ok d" and "command_valid (in_command input)"
  shows "db_ok d'"
  using assms by (auto simp: executeMutation_def intro: applyMutation_db_ok split: prod.splits sum.splits)

lemma conflictRoute_same:
  "conflictRoute is_uuid i t resolution ms d = (reply, d') \<Longrightarrow>
     same_business d d' \<and> db_processed d' = db_processed d \<and> reply_ok reply \<and> \<not> mutation_reply reply"
  by (auto simp: conflictRoute_def recordConflictResolution_def same_business_def Let_def split: if_splits)

lemma answer_call_booked:
  assumes ok: "db_ok d" and run: "answer_call is_uuid sha256 call (d, k) = (reply, d', k')"
  shows "db_ok d' \<and> booked (d, k) reply (d', k')"
  using run
proof (cases call)
  case (MutationCall env traceId i r)
  then show ?thesis
    using run ok valid_payload_command [of "mr_command r"]
    by (auto simp: mutationRoute_def mutationSchema_def route_input_def intro: booked_idle executeMutation_booked
        executeMutation_ok split: if_splits)
next
  case (KitchenCall env traceId segment i b)
  then show ?thesis
    using run ok
    by (cases segment) (auto simp: kitchenCommandRoute_def kitchen_command_def intro: booked_idle executeMutation_booked
        executeMutation_ok split: if_splits)
next
  case (ResolutionCall i t resolution ms)
  then show ?thesis
    using run ok by (auto simp: same_business_def intro: booked_idle db_ok_same [THEN iffD2]
        dest!: conflictRoute_same split: prod.splits)
next
  case (ReadCall i)
  then show ?thesis using run ok by (auto simp: orderReadRoute_def intro!: booked_idle split: option.splits if_splits)
qed

section \<open>The books of a service\<close>

lemma serve_all_booked:
  "db_ok d \<Longrightarrow> fold (serve is_uuid sha256) calls ((d, k), replies) = ((d', k'), replies') \<Longrightarrow>
     db_ok d'
     \<and> (\<exists>answers. replies' = replies @ answers \<and> length answers = length calls \<and> (\<forall>reply \<in> set answers. reply_ok reply)
          \<and> (\<forall>c. k' c = k c + length (filter (due c) answers)))
     \<and> int (k' mutationsApplied) - int (k mutationsApplied) = int (length (db_outbox d')) - int (length (db_outbox d))"
proof (induction calls arbitrary: d k replies)
  case (Cons call calls)
  obtain reply d1 k1 where a: "answer_call is_uuid sha256 call (d, k) = (reply, d1, k1)"
    using prod_cases3 by blast
  from answer_call_booked [OF Cons.prems(1) a] have b: "db_ok d1" "booked (d, k) reply (d1, k1)" by simp_all
  have served: "serve is_uuid sha256 call ((d, k), replies) = ((d1, onResponse reply k1), replies @ [reply])"
    by (simp add: serve_def a)
  have "fold (serve is_uuid sha256) calls ((d1, onResponse reply k1), replies @ [reply]) = ((d', k'), replies')"
    using Cons.prems(2) served by simp
  from Cons.IH [OF b(1) this] obtain answers where ih: "db_ok d'" "replies' = (replies @ [reply]) @ answers"
      "length answers = length calls" "\<forall>reply \<in> set answers. reply_ok reply"
      "\<And>c. k' c = onResponse reply k1 c + length (filter (due c) answers)"
      "int (k' mutationsApplied) - int (onResponse reply k1 mutationsApplied)
         = int (length (db_outbox d')) - int (length (db_outbox d1))"
    by blast
  have ok: "reply_ok reply" using b(2) by (simp add: booked_def)
  have one: "onResponse reply k1 c = k c + (if due c reply then 1 else 0)" for c
    using b(2) by (simp add: onResponse_due [OF ok] booked_def)
  have "onResponse reply k1 mutationsApplied = k1 mutationsApplied" by (simp add: onResponse_due [OF ok])
  moreover have "int (k1 mutationsApplied) - int (k mutationsApplied) = int (length (db_outbox d1)) - int (length (db_outbox d))"
    using b(2) unfolding booked_def fst_conv snd_conv by blast
  ultimately have "int (k' mutationsApplied) - int (k mutationsApplied) = int (length (db_outbox d')) - int (length (db_outbox d))"
    using ih(6) by linarith
  moreover have "k' c = k c + length (filter (due c) (reply # answers))" for c by (simp add: ih(5) one)
  moreover have "replies' = replies @ (reply # answers)" "length (reply # answers) = length (call # calls)"
      "\<forall>reply \<in> set (reply # answers). reply_ok reply"
    using ih(2,3,4) ok by simp_all
  ultimately show ?case using ih(1) by blast
qed auto

text \<open>
  C27. Whatever is sent to the API, its database stays well-formed and its books balance. For any sequence of
  calls to its routes with any bodies: every call gets one answer, with the status its outcome stands for
  (200, 403 or 409 for a mutation that was judged; 400, 404 or 500 with their codes otherwise), \<open>apiRequests\<close> counts the
  calls, \<open>mutationsReceived\<close> the mutations that were judged, and \<open>mutationsApplied\<close> exactly the events the
  outbox has gained. Every counter of the process gains exactly the answers it is there to count: \<open>apiErrors\<close> the refused calls,
  \<open>mutationsApplied\<close>, \<open>duplicateMutationsPrevented\<close>, \<open>mutationIdReuseRejected\<close> and \<open>crossTenantRejections\<close> the
  mutations so answered, and \<open>realtimeEventsBroadcast\<close> none.
\<close>

theorem api_books_balance:
  assumes "db_ok d" and "fold (serve is_uuid sha256) calls ((d, k), []) = ((d', k'), replies)"
  shows "db_ok d' \<and> length replies = length calls \<and> (\<forall>reply \<in> set replies. reply_ok reply)
    \<and> k' apiRequests = k apiRequests + length calls
    \<and> k' mutationsReceived = k mutationsReceived + length (filter mutation_reply replies)
    \<and> int (k' mutationsApplied) - int (k mutationsApplied) = int (length (db_outbox d')) - int (length (db_outbox d))
    \<and> (\<forall>c. k' c = k c + length (filter (due c) replies))"
proof -
  from serve_all_booked [OF assms] have all: "\<And>c. k' c = k c + length (filter (due c) replies)"
    and rest: "db_ok d'" "length replies = length calls" "\<forall>reply \<in> set replies. reply_ok reply"
      "int (k' mutationsApplied) - int (k mutationsApplied) = int (length (db_outbox d')) - int (length (db_outbox d))"
    by auto
  have "k' apiRequests = k apiRequests + length calls" using all [of apiRequests] rest(2) by simp
  moreover have "due mutationsReceived = mutation_reply" by (rule ext) simp
  then have "k' mutationsReceived = k mutationsReceived + length (filter mutation_reply replies)"
    using all [of mutationsReceived] by simp
  ultimately show ?thesis using all rest by blast
qed

text \<open>A creation, its repetition, another body under the same id, a body that is not valid, and a read.\<close>

definition booked_calls :: "api_call list" where
  "booked_calls =
     (let create = \<lambda>table. MutationCall (demo_env 5 ''e1'') None ''o1'' \<lparr>mr_mutationId = ''m1'', mr_terminalId = ''pos-1'',
            mr_restaurantId = ''demo-restaurant'', mr_baseVersion = 0, mr_command = CreateOrder table\<rparr>
      in [create ''7'', create ''7'', create ''8'', create [], ReadCall ''o1''])"

definition booked_service :: "service \<times> http_reply list" where
  "booked_service = fold (serve (\<lambda>_. True) id) booked_calls ((empty_db demo_restaurants demo_menu, \<lambda>_. 0), [])"

lemma booked_answers:
  "length booked_calls = 5"
  "map (\<lambda>c. length (filter (due c) (snd booked_service)))
     [apiErrors, mutationsReceived, mutationsApplied, duplicateMutationsPrevented, mutationIdReuseRejected, crossTenantRejections]
   = [2, 3, 1, 1, 1, 0]"
  by code_simp+

theorem api_books_balance_witness:
  "map (snd (fst booked_service)) [apiRequests, apiErrors, mutationsReceived, mutationsApplied, duplicateMutationsPrevented,
      mutationIdReuseRejected, crossTenantRejections] = [5, 2, 3, 1, 1, 1, 0]"
proof -
  obtain d' k' replies where r: "booked_service = ((d', k'), replies)" using prod.exhaust by metis
  from api_books_balance [OF db_ok_empty r [unfolded booked_service_def]] booked_answers show ?thesis unfolding r by simp
qed

section \<open>The gate of the boundary\<close>



end
