(* ===== verification/Printer_Device.thy ===== *)
theory Printer_Device
  imports Kitchen_Projection Request_Hash
begin

text \<open>
  The paper end of the kitchen: the identity of a ticket (\<open>worker printing/ticket-hash.ts\<close>) and the device
  that deduplicates on it (\<open>api printer/application/fake-printer.ts\<close> behind \<open>printer/api/printer-routes.ts\<close>).
  SHA-256 is the parameter \<open>sha256\<close>; \<open>String.localeCompare\<close> compares collation keys, which are the
  parameter \<open>collate\<close>; the ids a device draws for its receipts are arguments.
\<close>

section \<open>The identity of a ticket\<close>

definition line_json :: "order_item \<Rightarrow> json" where
  "line_json i = JArr [JStr (item_productId i), JNum (item_quantity i), JNum (item_unitPriceCents i)]"

definition ticket_text :: "(string \<Rightarrow> 'k::linorder) \<Rightarrow> printable_ticket \<Rightarrow> string" where
  "ticket_text collate ticket =
     stringify (JObj
       [(''orderId'', JStr (pt_orderId ticket)),
        (''tableNumber'', JStr (pt_tableNumber ticket)),
        (''items'', JArr (map line_json (sort_key (\<lambda>i. collate (item_productId i)) (pt_items ticket))))])"

definition ticketHash :: "(string \<Rightarrow> string) \<Rightarrow> (string \<Rightarrow> 'k::linorder) \<Rightarrow> printable_ticket \<Rightarrow> string" where
  "ticketHash sha256 collate ticket = sha256 (ticket_text collate ticket)"

section \<open>The device\<close>

definition LEDGER_SIZE :: nat where
  "LEDGER_SIZE = 500"

text \<open>The ledger is a \<open>Map\<close>, in insertion order.\<close>

record fake_printer =
  pr_ledger :: "(string \<times> string) list"
  pr_prints :: nat

record print_response =
  rs_receiptId :: string
  rs_printed :: bool
  rs_duplicate :: bool

definition createFakePrinter :: fake_printer where
  "createFakePrinter = \<lparr>pr_ledger = [], pr_prints = 0\<rparr>"

definition accept :: "string \<Rightarrow> string \<Rightarrow> fake_printer \<Rightarrow> print_response \<times> fake_printer" where
  "accept idempotencyKey receiptId p =
     (case map_of (pr_ledger p) idempotencyKey of
        Some seen \<Rightarrow> (\<lparr>rs_receiptId = seen, rs_printed = False, rs_duplicate = True\<rparr>, p)
      | None \<Rightarrow>
          (let ledger = pr_ledger p @ [(idempotencyKey, receiptId)] in
           (\<lparr>rs_receiptId = receiptId, rs_printed = True, rs_duplicate = False\<rparr>,
            \<lparr>pr_ledger = (if length ledger > LEDGER_SIZE then tl ledger else ledger),
             pr_prints = pr_prints p + 1\<rparr>)))"

definition remembers :: "fake_printer \<Rightarrow> string \<Rightarrow> bool" where
  "remembers p key \<longleftrightarrow> key \<in> fst ` set (pr_ledger p)"

definition ledger_ok :: "fake_printer \<Rightarrow> bool" where
  "ledger_ok p \<longleftrightarrow> distinct (map fst (pr_ledger p)) \<and> length (pr_ledger p) \<le> LEDGER_SIZE"

lemma accept_known:
  "remembers p key \<Longrightarrow> \<exists>r. map_of (pr_ledger p) key = Some r
     \<and> accept key receipt p = (\<lparr>rs_receiptId = r, rs_printed = False, rs_duplicate = True\<rparr>, p)"
  by (auto simp: remembers_def accept_def map_of_eq_None_iff split: option.splits)

lemma accept_new:
  "\<not> remembers p key \<Longrightarrow>
     accept key receipt p = (\<lparr>rs_receiptId = receipt, rs_printed = True, rs_duplicate = False\<rparr>,
       \<lparr>pr_ledger = (if length (pr_ledger p) \<ge> LEDGER_SIZE then tl (pr_ledger p @ [(key, receipt)])
                    else pr_ledger p @ [(key, receipt)]),
        pr_prints = pr_prints p + 1\<rparr>)"
  by (simp add: remembers_def accept_def map_of_eq_None_iff [THEN iffD2] Let_def not_le less_Suc_eq_le)

lemma LEDGER_SIZE_pos [simp]: "0 < LEDGER_SIZE"
  by (simp add: LEDGER_SIZE_def)

lemma accept_ok:
  assumes "ledger_ok p" shows "ledger_ok (snd (accept key receipt p))"
proof (cases "remembers p key")
  case True
  then show ?thesis using accept_known [OF True, of receipt] assms by auto
next
  case False
  then have d: "distinct (map fst (pr_ledger p @ [(key, receipt)]))"
    using assms by (auto simp: remembers_def ledger_ok_def)
  then have "distinct (map fst (tl (pr_ledger p @ [(key, receipt)])))"
    by (metis distinct_tl map_tl)
  then show ?thesis using assms d by (auto simp: accept_new [OF False] ledger_ok_def)
qed

lemma accept_remembers:
  assumes "ledger_ok p" shows "remembers (snd (accept key receipt p)) key"
proof (cases "remembers p key")
  case True
  then show ?thesis using accept_known [OF True, of receipt] True by auto
next
  case False
  then show ?thesis
    by (cases "pr_ledger p") (auto simp: accept_new [OF False] remembers_def LEDGER_SIZE_def)
qed

section \<open>The route\<close>

definition ticket_schema :: "(string \<Rightarrow> bool) \<Rightarrow> printable_ticket \<Rightarrow> bool" where
  "ticket_schema is_uuid ticket \<longleftrightarrow>
     is_uuid (pt_orderId ticket) \<and> pt_restaurantId ticket \<noteq> [] \<and> pt_tableNumber ticket \<noteq> []
     \<and> 1 \<le> length (pt_items ticket)
     \<and> (\<forall>i \<in> set (pt_items ticket). item_productId i \<noteq> [] \<and> item_name i \<noteq> []
          \<and> safe_int (item_quantity i) \<and> 0 < item_quantity i
          \<and> safe_int (item_unitPriceCents i) \<and> 0 \<le> item_unitPriceCents i)"

datatype print_reply = Receipt print_response | PrintError nat api_error_code

definition printRoute ::
  "(string \<Rightarrow> bool) \<Rightarrow> string option \<Rightarrow> printable_ticket \<Rightarrow> bool \<Rightarrow> string \<Rightarrow> fake_printer
     \<Rightarrow> print_reply \<times> fake_printer" where
  "printRoute is_uuid idempotencyKey ticket failing receiptId p =
     (case idempotencyKey of
        None \<Rightarrow> (PrintError 400 VALIDATION_FAILED, p)
      | Some [] \<Rightarrow> (PrintError 400 VALIDATION_FAILED, p)
      | Some key \<Rightarrow>
          if \<not> ticket_schema is_uuid ticket then (PrintError 400 VALIDATION_FAILED, p)
          else if failing then (PrintError 503 PRINTER_OFFLINE, p)
          else (let (receipt, p') = accept key receiptId p in (Receipt receipt, p')))"

section \<open>Properties of the device\<close>

text \<open>Keys pushed behind \<open>key\<close> leave it in the ledger until they fill the memory.\<close>

definition behind :: "string \<Rightarrow> string \<Rightarrow> (string \<times> string) list \<Rightarrow> fake_printer \<Rightarrow> bool" where
  "behind key receipt post p \<longleftrightarrow> (\<exists>pre. pr_ledger p = pre @ (key, receipt) # post)"

lemma accept_behind:
  assumes ok: "ledger_ok p" and b: "behind key receipt post p" and room: "length post + 1 < LEDGER_SIZE"
  shows "\<exists>post'. behind key receipt post' (snd (accept k r p)) \<and> length post' \<le> length post + 1
    \<and> (post' = post \<or> post' = post @ [(k, r)] \<and> k \<notin> fst ` set post)"
proof (cases "remembers p k")
  case True
  then show ?thesis using accept_known [OF True, of r] b by auto
next
  case False
  from b obtain pre where l: "pr_ledger p = pre @ (key, receipt) # post" by (auto simp: behind_def)
  have "pre \<noteq> []" if "LEDGER_SIZE \<le> length (pr_ledger p)" using that room l by auto
  then have "behind key receipt (post @ [(k, r)]) (snd (accept k r p))"
    using l by (auto simp: accept_new [OF False] behind_def)
  then show ?thesis using False l by (intro exI [of _ "post @ [(k, r)]"]) (auto simp: remembers_def)
qed

text \<open>The device after a run of requests, with their keys and the receipts it would draw.\<close>

definition accepts :: "(string \<times> string) list \<Rightarrow> fake_printer \<Rightarrow> fake_printer" where
  "accepts requests p = fold (\<lambda>(key, receipt) q. snd (accept key receipt q)) requests p"

lemma accepts_snoc: "accepts (rs @ [(k, r)]) p = snd (accept k r (accepts rs p))"
  by (simp add: accepts_def)

lemma accepts_ok: "ledger_ok p \<Longrightarrow> ledger_ok (accepts rs p)"
  by (induction rs rule: rev_induct) (auto simp: accepts_snoc accept_ok, simp add: accepts_def)

lemma behind_remembers: "behind key receipt post p \<Longrightarrow> remembers p key"
  by (auto simp: behind_def remembers_def)

lemma behind_lookup: "behind key receipt post p \<Longrightarrow> ledger_ok p \<Longrightarrow> map_of (pr_ledger p) key = Some receipt"
  by (auto simp: behind_def ledger_ok_def map_add_def split: option.splits dest!: map_of_SomeD)

lemma accepts_behind:
  assumes ok: "ledger_ok p" and b: "behind key receipt [] p" and few: "card (fst ` set others - {key}) < LEDGER_SIZE"
  shows "\<exists>post. behind key receipt post (accepts others p) \<and> distinct (map fst post)
    \<and> fst ` set post \<subseteq> fst ` set others - {key}"
  using few
proof (induction others rule: rev_induct)
  case Nil
  then show ?case using b by (auto simp: accepts_def intro!: exI [of _ "[]"])
next
  case (snoc x xs)
  obtain k r where x: "x = (k, r)" by fastforce
  let ?new = "fst ` set (xs @ [x]) - {key}"
  have "card (fst ` set xs - {key}) \<le> card ?new" by (intro card_mono) auto
  then obtain post where p: "behind key receipt post (accepts xs p)" "distinct (map fst post)"
      "fst ` set post \<subseteq> fst ` set xs - {key}" using snoc by fastforce
  let ?q = "accepts xs p"
  show ?case
  proof (cases "remembers ?q k")
    case True
    then show ?thesis using p accept_known [OF True, of r] by (auto simp: x accepts_snoc intro!: exI [of _ post])
  next
    case False
    then have k: "k \<noteq> key" "k \<notin> fst ` set post"
      using p(1) behind_remembers by (auto simp: behind_def remembers_def)
    have "card (insert k (fst ` set post)) \<le> card ?new" using p(3) k by (intro card_mono) (auto simp: x)
    moreover have "card (fst ` set post) = length post" using p(2) by (metis distinct_card length_map set_map)
    ultimately have room: "length post + 1 < LEDGER_SIZE" using k snoc.prems by simp
    from accept_behind [OF accepts_ok [OF ok] p(1) room, of k r] False accept_new [OF False, of r] p(1)
    obtain post' where "behind key receipt post' (snd (accept k r ?q))" "post' = post \<or> post' = post @ [(k, r)]"
      by auto
    moreover have "fst ` set post \<subseteq> ?new" using p(3) by auto
    then have "fst ` set post' \<subseteq> ?new" "distinct (map fst post')"
      using \<open>post' = post \<or> post' = post @ [(k, r)]\<close> p(2) k by (elim disjE; simp add: x)+
    ultimately show ?thesis by (intro exI [of _ post']) (simp add: x accepts_snoc)
  qed
qed

text \<open>
  The device emits a ticket once while it remembers it. After it printed the ticket of a key, and while fewer
  than 500 other keys have come by, a retry of that key is answered with the original receipt and nothing
  is emitted; its memory never exceeds 500 keys.
\<close>

lemma printer_recognises_a_recent_key:
  assumes "ledger_ok p" and "accept key receipt p = (response, p1)" and "rs_printed response"
    and "card (fst ` set others - {key}) < LEDGER_SIZE"
  shows "accept key receipt' (accepts others p1)
      = (\<lparr>rs_receiptId = receipt, rs_printed = False, rs_duplicate = True\<rparr>, accepts others p1)
    \<and> length (pr_ledger (accepts others p1)) \<le> 500"
proof -
  have new: "\<not> remembers p key" using assms(2,3) accept_known [of p key receipt] by auto
  then have b: "behind key receipt [] p1"
    using assms(2) LEDGER_SIZE_pos by (cases "pr_ledger p") (auto simp: accept_new [OF new] behind_def)
  have ok: "ledger_ok p1" using accept_ok [OF assms(1), of key receipt] assms(2) by simp
  obtain post where post: "behind key receipt post (accepts others p1)" using accepts_behind [OF ok b assms(4)] by blast
  have ok': "ledger_ok (accepts others p1)" using ok by (rule accepts_ok)
  from accept_known [OF behind_remembers [OF post], of receipt'] behind_lookup [OF post ok'] ok'
  show ?thesis by (auto simp: ledger_ok_def LEDGER_SIZE_def)
qed

lemma printer_recognises_a_recent_key_example:
  "accept ''k1'' ''r9'' (accepts [(''k2'', ''r2''), (''k3'', ''r3'')] (snd (accept ''k1'' ''r1'' createFakePrinter)))
     = (\<lparr>rs_receiptId = ''r1'', rs_printed = False, rs_duplicate = True\<rparr>,
        accepts [(''k2'', ''r2''), (''k3'', ''r3'')] (snd (accept ''k1'' ''r1'' createFakePrinter)))"
  using printer_recognises_a_recent_key [of createFakePrinter "''k1''" "''r1''" _ _ "[(''k2'', ''r2''), (''k3'', ''r3'')]" "''r9''",
      OF _ surjective_pairing]
  by (simp add: ledger_ok_def createFakePrinter_def accept_def Let_def LEDGER_SIZE_def)

definition line_key :: "order_item \<Rightarrow> string \<times> int \<times> int" where
  "line_key i = (item_productId i, item_quantity i, item_unitPriceCents i)"

lemma map_sort_key_through:
  assumes "\<And>x. k (f x) = h x" shows "map f (sort_key h xs) = sort_key k (map f xs)"
proof -
  have "map f (insort_key h x ys) = insort_key k (f x) (map f ys)" for x ys
    by (induction ys) (simp_all add: assms)
  then show ?thesis by (induction xs) simp_all
qed

lemma sort_key_same_mset:
  assumes "mset xs = mset ys" and "distinct (map k xs)"
  shows "sort_key k xs = sort_key k ys"
  using assms by (intro sort_key_inj_key_eq) (simp_all add: distinct_map)

text \<open>
  Two tickets that list the same lines have the same identity, whatever the order of the lines, the names
  printed on them and the restaurant. So the consumer, which hashes the payload of the event, and the
  sweep, which hashes the row it reads back, agree.
\<close>

lemma ticketHash_ignores_line_order:
  fixes collate :: "string \<Rightarrow> 'k::linorder"
  assumes "mset (map line_key (pt_items a))
      = mset (map line_key (pt_items b))"
    and "distinct (map (\<lambda>i. collate (item_productId i)) (pt_items a))"
    and "pt_orderId a = pt_orderId b" and "pt_tableNumber a = pt_tableNumber b"
  shows "ticketHash sha256 collate a = ticketHash sha256 collate b"
proof -
  let ?json = "\<lambda>(p, q, c). JArr [JStr p, JNum q, JNum c]" and ?k = "\<lambda>(p, q, c). collate p"
  have json: "line_json = ?json \<circ> line_key" by (simp add: fun_eq_iff line_key_def line_json_def)
  have "map line_key (sort_key (\<lambda>i. collate (item_productId i)) items) = sort_key ?k (map line_key items)" for items
    by (rule map_sort_key_through) (simp add: line_key_def)
  then have lines: "map line_json (sort_key (\<lambda>i. collate (item_productId i)) items)
      = map ?json (sort_key ?k (map line_key items))" for items
    unfolding json map_map [symmetric] by (rule arg_cong)
  have keys: "map ?k (map line_key items) = map (\<lambda>i. collate (item_productId i)) items" for items
    by (simp add: line_key_def)
  have "sort_key ?k (map line_key (pt_items a)) = sort_key ?k (map line_key (pt_items b))"
    using assms(1) assms(2) by (intro sort_key_same_mset) (simp_all only: keys)
  then show ?thesis using assms(3,4) by (simp only: ticketHash_def ticket_text_def lines)
qed

definition demo_ticket :: "order_item list \<Rightarrow> printable_ticket" where
  "demo_ticket items = \<lparr>pt_orderId = ''o1'', pt_restaurantId = ''demo-restaurant'', pt_tableNumber = ''7'', pt_items = items\<rparr>"

definition demo_line :: "string \<Rightarrow> int \<Rightarrow> order_item" where
  "demo_line p q = \<lparr>item_productId = p, item_name = p, item_quantity = q, item_unitPriceCents = 300\<rparr>"

lemma ticketHash_ignores_line_order_example:
  "ticketHash id id (demo_ticket [demo_line ''cola'' 1, demo_line ''burger'' 2])
     = ticketHash id id (demo_ticket [(demo_line ''burger'' 2)\<lparr>item_name := ''Burger''\<rparr>, demo_line ''cola'' 1])"
  by (rule ticketHash_ignores_line_order) (simp_all add: demo_ticket_def demo_line_def line_key_def)

end
