(* ===== verification/Print_Jobs.thy ===== *)
theory Print_Jobs
  imports Printer_Device
begin

text \<open>
  The worker's side of printing: the record of a ticket and one attempt at printing it
  (\<open>printing/print-processor.ts\<close>), the reconciliation sweep and the manual retry (\<open>printing/reconcile.ts\<close>), the
  bounded enqueue (\<open>printing/print-queue.ts\<close>, \<open>shared/timeout.ts\<close>), the client of the device
  (\<open>printing/printer-client.ts\<close>) and its switch (\<open>packages/db/src/printer-controls.ts\<close>).

  BullMQ is a parameter: an operation that enqueues is given how each \<open>add\<close> ends, and a queue is the list of
  the jobs it holds, at most one per id. The device a processor calls is the argument \<open>print\<close>.
\<close>

section \<open>The record\<close>

datatype print_job_state = JOB_PENDING | JOB_PRINTED | JOB_FAILED | JOB_DEAD_LETTER

record print_job =
  pj_orderId :: uuid
  pj_restaurantId :: tenant
  pj_ticketHash :: string
  pj_state :: print_job_state
  pj_attemptCount :: nat
  pj_lastError :: "string option"
  pj_printedAt :: "millis option"
  pj_updatedAt :: millis

definition readJob :: "string \<Rightarrow> print_job list \<Rightarrow> print_job option" where
  "readJob hash jobs = find (\<lambda>j. pj_ticketHash j = hash) jobs"

text \<open>\<open>insert ... on conflict (ticket_hash) do nothing\<close>\<close>

definition new_job :: "millis \<Rightarrow> printable_ticket \<Rightarrow> string \<Rightarrow> print_job" where
  "new_job now ticket hash =
     \<lparr>pj_orderId = pt_orderId ticket, pj_restaurantId = pt_restaurantId ticket, pj_ticketHash = hash,
      pj_state = JOB_PENDING, pj_attemptCount = 0, pj_lastError = None, pj_printedAt = None, pj_updatedAt = now\<rparr>"

definition insert_job :: "millis \<Rightarrow> printable_ticket \<Rightarrow> string \<Rightarrow> print_job list \<Rightarrow> print_job list" where
  "insert_job now ticket hash jobs =
     (if hash \<in> pj_ticketHash ` set jobs then jobs else jobs @ [new_job now ticket hash])"

definition update_job :: "string \<Rightarrow> (print_job \<Rightarrow> print_job) \<Rightarrow> print_job list \<Rightarrow> print_job list" where
  "update_job hash f jobs = update_where (\<lambda>j. pj_ticketHash j = hash) f jobs"

definition recordFailure ::
  "millis \<Rightarrow> nat \<Rightarrow> string \<Rightarrow> nat \<Rightarrow> string \<Rightarrow> print_job list \<Rightarrow> print_job list" where
  "recordFailure now maxAttempts hash attempt message =
     update_job hash (\<lambda>j. j\<lparr>pj_state := (if attempt \<ge> maxAttempts then JOB_DEAD_LETTER else JOB_FAILED),
                            pj_attemptCount := attempt, pj_lastError := Some message, pj_updatedAt := now\<rparr>)"

definition recordPrinted :: "millis \<Rightarrow> string \<Rightarrow> nat \<Rightarrow> print_job list \<Rightarrow> print_job list" where
  "recordPrinted now hash attempt =
     update_job hash (\<lambda>j. j\<lparr>pj_state := JOB_PRINTED, pj_attemptCount := attempt, pj_lastError := None,
                            pj_printedAt := Some now, pj_updatedAt := now\<rparr>)"

datatype print_outcome = Printed | DeviceDuplicate | AlreadyPrinted | DeadLettered

text \<open>The statements before the call of the device: an outcome that ends the attempt, or its number.\<close>

definition begin_attempt ::
  "millis \<Rightarrow> printable_ticket \<Rightarrow> string \<Rightarrow> print_job list \<Rightarrow> (string + print_outcome + nat) \<times> print_job list" where
  "begin_attempt now ticket hash jobs =
     (let jobs' = insert_job now ticket hash jobs in
      (case readJob hash jobs' of
         None \<Rightarrow> Inl (''print job vanished for ticket '' @ hash)
       | Some row \<Rightarrow>
           Inr (case pj_state row of
                  JOB_PRINTED \<Rightarrow> Inl AlreadyPrinted
                | JOB_DEAD_LETTER \<Rightarrow> Inl DeadLettered
                | _ \<Rightarrow> Inr (pj_attemptCount row + 1)), jobs'))"

text \<open>An attempt rejects (\<open>Inl\<close>) when the device did; BullMQ reads that as a retry.\<close>

definition processPrintJob ::
  "(printable_ticket \<Rightarrow> string \<Rightarrow> 'p \<Rightarrow> (string + print_response) \<times> 'p) \<Rightarrow> nat \<Rightarrow> millis \<Rightarrow> millis
     \<Rightarrow> string \<Rightarrow> printable_ticket \<Rightarrow> print_job list \<times> 'p \<Rightarrow> (string + print_outcome) \<times> print_job list \<times> 'p" where
  "processPrintJob print maxAttempts started finished hash ticket s =
     (case s of (jobs, p) \<Rightarrow>
        (case begin_attempt started ticket hash jobs of
           (Inl message, jobs') \<Rightarrow> (Inl message, jobs', p)
         | (Inr (Inl outcome), jobs') \<Rightarrow> (Inr outcome, jobs', p)
         | (Inr (Inr attempt), jobs') \<Rightarrow>
             (case print ticket hash p of
                (Inl message, p') \<Rightarrow>
                  (Inl message, recordFailure finished maxAttempts hash attempt message jobs', p')
              | (Inr response, p') \<Rightarrow>
                  (Inr (if rs_printed response then Printed else DeviceDuplicate),
                   recordPrinted finished hash attempt jobs', p'))))"

definition dead_letter_of :: "uuid \<Rightarrow> print_job \<Rightarrow> bool" where
  "dead_letter_of orderId j \<longleftrightarrow> pj_orderId j = orderId \<and> pj_state j = JOB_DEAD_LETTER"

definition resetDeadLetteredJob :: "millis \<Rightarrow> uuid \<Rightarrow> print_job list \<Rightarrow> string option \<times> print_job list" where
  "resetDeadLetteredJob now orderId jobs =
     (map_option pj_ticketHash (find (dead_letter_of orderId) jobs),
      update_where (dead_letter_of orderId)
        (\<lambda>j. j\<lparr>pj_state := JOB_PENDING, pj_attemptCount := 0, pj_lastError := None, pj_updatedAt := now\<rparr>) jobs)"

section \<open>The client of the device\<close>

datatype wire = Reply print_reply | NoAnswer string

definition reply_text :: "(nat \<Rightarrow> api_error_code \<Rightarrow> string) \<Rightarrow> wire \<Rightarrow> string + print_response" where
  "reply_text envelope w =
     (case w of
        NoAnswer message \<Rightarrow> Inl message
      | Reply (Receipt response) \<Rightarrow> Inr response
      | Reply (PrintError status code) \<Rightarrow>
          Inl (''printer answered '' @ show_nat status @ '': '' @ take 200 (envelope status code)))"

text \<open>The switch: one row, the default when it is missing.\<close>

definition readPrinterControls :: "bool option \<Rightarrow> bool" where
  "readPrinterControls row = (case row of None \<Rightarrow> False | Some failing \<Rightarrow> failing)"

definition setPrinterControls :: "bool \<Rightarrow> bool option \<Rightarrow> bool option" where
  "setPrinterControls failing row = Some failing"

lemma printer_switch: "readPrinterControls (setPrinterControls b row) = b"
  by (simp add: readPrinterControls_def setPrinterControls_def)

section \<open>The queue\<close>

datatype 'a settled = Resolved 'a | Rejected string | Overran

text \<open>\<open>jobId\<close> is the ticket hash: an id the queue holds absorbs the \<open>add\<close>.\<close>

definition queue_add :: "(printable_ticket \<Rightarrow> string) \<Rightarrow> printable_ticket \<Rightarrow> printable_ticket list \<Rightarrow> printable_ticket list" where
  "queue_add hash ticket q = (if hash ticket \<in> hash ` set q then q else q @ [ticket])"

text \<open>\<open>None\<close> when the ticket was accepted, else the error that is thrown.\<close>

definition enqueueWithin :: "string \<Rightarrow> unit settled \<Rightarrow> nat \<Rightarrow> printable_ticket \<Rightarrow> string option" where
  "enqueueWithin status added timeoutMs ticket =
     (if status \<noteq> ''ready''
      then Some (''the print queue is not connected to Redis ('' @ status @ ''): the ticket for order ''
                 @ pt_orderId ticket @ '' was not enqueued'')
      else case added of
        Overran \<Rightarrow> Some (''the print queue did not accept the ticket for order '' @ pt_orderId ticket
                    @ '' within '' @ show_nat timeoutMs @ ''ms'')
      | Rejected message \<Rightarrow> Some message
      | Resolved _ \<Rightarrow> None)"

section \<open>Reconciliation\<close>

record reconcile_options =
  ro_staleAfterMs :: nat
  ro_limit :: nat

text \<open>The rows of \<open>kitchen_tickets left join print_jobs using (order_id)\<close> that the sweep selects.\<close>

definition joined_jobs :: "print_job list \<Rightarrow> uuid \<Rightarrow> print_job option list" where
  "joined_jobs jobs orderId =
     (case filter (\<lambda>j. pj_orderId j = orderId) jobs of [] \<Rightarrow> [None] | js \<Rightarrow> map Some js)"

definition swept :: "millis \<Rightarrow> nat \<Rightarrow> kitchen_ticket \<Rightarrow> print_job option \<Rightarrow> bool" where
  "swept now staleAfterMs ticket job \<longleftrightarrow>
     kt_state ticket \<noteq> CANCELLED'
     \<and> (case job of
          None \<Rightarrow> True
        | Some j \<Rightarrow> pj_state j \<in> {JOB_PENDING, JOB_FAILED} \<and> pj_updatedAt j + staleAfterMs < now)"

definition printable :: "uuid \<times> kitchen_ticket \<Rightarrow> printable_ticket" where
  "printable row =
     (case row of (orderId, t) \<Rightarrow>
        \<lparr>pt_orderId = orderId, pt_restaurantId = kt_restaurantId t, pt_tableNumber = kt_tableNumber t,
         pt_items = kt_items t\<rparr>)"

definition orphans ::
  "millis \<Rightarrow> reconcile_options \<Rightarrow> (uuid \<times> kitchen_ticket) list \<Rightarrow> print_job list \<Rightarrow> printable_ticket list" where
  "orphans now opts tickets jobs =
     map printable (take (ro_limit opts) (concat (map
       (\<lambda>row. map (\<lambda>_. row) (filter (swept now (ro_staleAfterMs opts) (snd row)) (joined_jobs jobs (fst row))))
       (sort_key (\<lambda>row. kt_createdAt (snd row)) tickets))))"

text \<open>The loop stops at the first ticket the queue does not take.\<close>

fun enqueue_rows :: "(printable_ticket \<Rightarrow> 'q \<Rightarrow> bool \<times> 'q) \<Rightarrow> printable_ticket list \<Rightarrow> 'q \<Rightarrow> nat \<times> 'q" where
  "enqueue_rows enqueue [] q = (0, q)"
| "enqueue_rows enqueue (t # ts) q =
     (case enqueue t q of
        (False, q') \<Rightarrow> (0, q')
      | (True, q') \<Rightarrow> (let (n, q'') = enqueue_rows enqueue ts q' in (n + 1, q'')))"

record reconcile_result =
  rr_found :: nat
  rr_enqueued :: nat

definition reconcilePrintJobs ::
  "(printable_ticket \<Rightarrow> 'q \<Rightarrow> bool \<times> 'q) \<Rightarrow> millis \<Rightarrow> reconcile_options \<Rightarrow> (uuid \<times> kitchen_ticket) list
     \<Rightarrow> print_job list \<Rightarrow> 'q \<Rightarrow> reconcile_result \<times> 'q" where
  "reconcilePrintJobs enqueue now opts tickets jobs q =
     (let rows = orphans now opts tickets jobs; (n, q') = enqueue_rows enqueue rows q
      in (\<lparr>rr_found = length rows, rr_enqueued = n\<rparr>, q'))"

datatype manual_retry_result = Requeued | NotDeadLettered | NoTicket

text \<open>The enqueue of a retry may throw (\<open>Inl\<close>); the row has been reset by then.\<close>

definition retryDeadLetteredTicket ::
  "(printable_ticket \<Rightarrow> 'q \<Rightarrow> bool \<times> 'q) \<Rightarrow> millis \<Rightarrow> uuid \<Rightarrow> (uuid \<times> kitchen_ticket) list
     \<Rightarrow> print_job list \<times> 'q \<Rightarrow> (unit + manual_retry_result) \<times> print_job list \<times> 'q" where
  "retryDeadLetteredTicket enqueue now orderId tickets s =
     (case s of (jobs, q) \<Rightarrow>
        (case resetDeadLetteredJob now orderId jobs of
           (None, jobs') \<Rightarrow> (Inr NotDeadLettered, jobs', q)
         | (Some _, jobs') \<Rightarrow>
             (case find (\<lambda>row. fst row = orderId) tickets of
                None \<Rightarrow> (Inr NoTicket, jobs', q)
              | Some row \<Rightarrow>
                  (case enqueue (printable row) q of
                     (False, q') \<Rightarrow> (Inl (), jobs', q')
                   | (True, q') \<Rightarrow> (Inr Requeued, jobs', q')))))"

end
