(* ===== verification/Printing_Pipeline.thy ===== *)
theory Printing_Pipeline
  imports Print_Jobs "HOL-Library.Multiset"
begin

text \<open>
  The printing pipeline as a whole: tickets, their records, the queue and the device, under enqueues and
  sweeps that Redis may refuse, jobs that are lost, calls whose request or answer is lost, workers that
  die between the paper and the record, manual retries and restarts of the device. What is guaranteed is
  that a record of a print means paper, that paper comes once while the device remembers, and that the
  sweep repairs every lost enqueue.
\<close>

section \<open>The pipeline\<close>

text \<open>\<open>pl_paper\<close> lists the keys of the tickets that physically came out, for the statement of properties.\<close>

record pipeline =
  pl_tickets :: "(uuid \<times> kitchen_ticket) list"
  pl_jobs :: "print_job list"
  pl_queue :: "printable_ticket list"
  pl_printer :: fake_printer
  pl_paper :: "string list"

datatype call_fate = CallAnswered | RequestLost | AnswerLost

definition device_call ::
  "(string \<Rightarrow> bool) \<Rightarrow> (nat \<Rightarrow> api_error_code \<Rightarrow> string) \<Rightarrow> bool \<Rightarrow> call_fate \<Rightarrow> string \<Rightarrow> printable_ticket \<Rightarrow> string
     \<Rightarrow> fake_printer \<times> string list \<Rightarrow> (string + print_response) \<times> fake_printer \<times> string list" where
  "device_call is_uuid envelope failing fate receiptId ticket key s =
     (case s of (p, paper) \<Rightarrow>
        (if fate = RequestLost then (reply_text envelope (NoAnswer ''fetch failed''), p, paper)
         else (let (reply, p') = printRoute is_uuid (Some key) ticket failing receiptId p;
                   paper' = (case reply of Receipt r \<Rightarrow> if rs_printed r then paper @ [key] else paper
                                         | PrintError _ _ \<Rightarrow> paper)
               in (reply_text envelope (if fate = AnswerLost then NoAnswer ''The operation was aborted due to timeout''
                                        else Reply reply), p', paper'))))"

definition offered ::
  "(printable_ticket \<Rightarrow> string) \<Rightarrow> (printable_ticket \<Rightarrow> bool) \<Rightarrow> printable_ticket \<Rightarrow> printable_ticket list
     \<Rightarrow> bool \<times> printable_ticket list" where
  "offered hash takes ticket q = (if takes ticket then (True, queue_add hash ticket q) else (False, q))"

inductive print_step ::
  "(printable_ticket \<Rightarrow> string) \<Rightarrow> (string \<Rightarrow> bool) \<Rightarrow> (nat \<Rightarrow> api_error_code \<Rightarrow> string) \<Rightarrow> nat
     \<Rightarrow> pipeline \<Rightarrow> pipeline \<Rightarrow> bool"
  for hash :: "printable_ticket \<Rightarrow> string" and is_uuid :: "string \<Rightarrow> bool"
    and envelope :: "nat \<Rightarrow> api_error_code \<Rightarrow> string" and maxAttempts :: nat
where
  projected: "print_step hash is_uuid envelope maxAttempts s (s\<lparr>pl_tickets := ts\<rparr>)"
| enqueued:
    "offered hash takes ticket (pl_queue s) = (took, q) \<Longrightarrow>
       print_step hash is_uuid envelope maxAttempts s (s\<lparr>pl_queue := q\<rparr>)"
| swept:
    "reconcilePrintJobs (offered hash takes) now opts (pl_tickets s) (pl_jobs s) (pl_queue s) = (result, q) \<Longrightarrow>
       print_step hash is_uuid envelope maxAttempts s (s\<lparr>pl_queue := q\<rparr>)"
| attempted:
    "ticket \<in> set (pl_queue s) \<Longrightarrow>
     processPrintJob (device_call is_uuid envelope failing fate receipt) maxAttempts started finished
       (hash ticket) ticket (pl_jobs s, pl_printer s, pl_paper s) = (outcome, jobs, p, paper) \<Longrightarrow>
       print_step hash is_uuid envelope maxAttempts s (s\<lparr>pl_jobs := jobs, pl_printer := p, pl_paper := paper\<rparr>)"
| died:
    "ticket \<in> set (pl_queue s) \<Longrightarrow>
     begin_attempt started ticket (hash ticket) (pl_jobs s) = (Inr (Inr attempt), jobs) \<Longrightarrow>
     device_call is_uuid envelope failing fate receipt ticket (hash ticket) (pl_printer s, pl_paper s) = (response, p, paper) \<Longrightarrow>
       print_step hash is_uuid envelope maxAttempts s (s\<lparr>pl_jobs := jobs, pl_printer := p, pl_paper := paper\<rparr>)"
| removed: "print_step hash is_uuid envelope maxAttempts s (s\<lparr>pl_queue := filter keep (pl_queue s)\<rparr>)"
| retried:
    "retryDeadLetteredTicket (offered hash takes) now orderId (pl_tickets s) (pl_jobs s, pl_queue s) = (result, jobs, q) \<Longrightarrow>
       print_step hash is_uuid envelope maxAttempts s (s\<lparr>pl_jobs := jobs, pl_queue := q\<rparr>)"

text \<open>A restart of the API empties the memory of the device.\<close>

definition restarted :: "pipeline \<Rightarrow> pipeline" where
  "restarted s = s\<lparr>pl_printer := createFakePrinter\<rparr>"

definition idle_pipeline :: pipeline where
  "idle_pipeline = \<lparr>pl_tickets = [], pl_jobs = [], pl_queue = [], pl_printer = createFakePrinter, pl_paper = []\<rparr>"

inductive pipeline_reachable ::
  "(printable_ticket \<Rightarrow> string) \<Rightarrow> (string \<Rightarrow> bool) \<Rightarrow> (nat \<Rightarrow> api_error_code \<Rightarrow> string) \<Rightarrow> nat \<Rightarrow> bool
     \<Rightarrow> pipeline \<Rightarrow> bool"
  for hash is_uuid envelope maxAttempts
where
  start: "pipeline_reachable hash is_uuid envelope maxAttempts False idle_pipeline"
| step: "pipeline_reachable hash is_uuid envelope maxAttempts lost s \<Longrightarrow>
    print_step hash is_uuid envelope maxAttempts s s' \<Longrightarrow> pipeline_reachable hash is_uuid envelope maxAttempts lost s'"
| restart: "pipeline_reachable hash is_uuid envelope maxAttempts lost s \<Longrightarrow>
    pipeline_reachable hash is_uuid envelope maxAttempts True (restarted s)"

section \<open>The records\<close>

definition job_ok :: "(printable_ticket \<Rightarrow> string) \<Rightarrow> nat \<Rightarrow> string list \<Rightarrow> print_job \<Rightarrow> bool" where
  "job_ok hash maxAttempts paper j \<longleftrightarrow>
     (\<exists>t. hash t = pj_ticketHash j \<and> pt_orderId t = pj_orderId j) \<and>
     (case pj_state j of
        JOB_PRINTED \<Rightarrow> pj_ticketHash j \<in> set paper \<and> pj_printedAt j \<noteq> None \<and> pj_attemptCount j \<le> maxAttempts
      | JOB_DEAD_LETTER \<Rightarrow> pj_attemptCount j = maxAttempts
      | _ \<Rightarrow> pj_attemptCount j < maxAttempts)"

definition jobs_ok :: "(printable_ticket \<Rightarrow> string) \<Rightarrow> nat \<Rightarrow> string list \<Rightarrow> print_job list \<Rightarrow> bool" where
  "jobs_ok hash maxAttempts paper jobs \<longleftrightarrow>
     distinct (map pj_ticketHash jobs) \<and> (\<forall>j \<in> set jobs. job_ok hash maxAttempts paper j)"

lemma job_ok_mono: "job_ok hash n paper j \<Longrightarrow> set paper \<subseteq> set paper' \<Longrightarrow> job_ok hash n paper' j"
  by (auto simp: job_ok_def split: print_job_state.splits)

lemma jobs_ok_mono: "jobs_ok hash n paper jobs \<Longrightarrow> set paper \<subseteq> set paper' \<Longrightarrow> jobs_ok hash n paper' jobs"
  by (auto simp: jobs_ok_def intro: job_ok_mono)

lemma jobs_ok_insert:
  "jobs_ok hash n paper jobs \<Longrightarrow> 0 < n \<Longrightarrow> jobs_ok hash n paper (insert_job now t (hash t) jobs)"
  by (auto simp: jobs_ok_def insert_job_def job_ok_def new_job_def)

lemma jobs_ok_update:
  assumes "jobs_ok hash n paper jobs"
    and "\<And>j. j \<in> set jobs \<Longrightarrow> P j \<Longrightarrow> pj_ticketHash (f j) = pj_ticketHash j"
    and "\<And>j. j \<in> set jobs \<Longrightarrow> P j \<Longrightarrow> job_ok hash n paper (f j)"
  shows "jobs_ok hash n paper (update_where P f jobs)"
  using assms by (auto simp: jobs_ok_def map_update_where in_set_update_where)

lemma readJob_Some: "readJob h jobs = Some j \<Longrightarrow> j \<in> set jobs \<and> pj_ticketHash j = h"
  by (auto simp: readJob_def dest: find_Some_in)

lemma begin_attempt_ok:
  assumes ok: "jobs_ok hash n paper jobs" and n: "0 < n"
    and run: "begin_attempt now t (hash t) jobs = (r, jobs')"
  shows "jobs' = insert_job now t (hash t) jobs \<and> jobs_ok hash n paper jobs'
    \<and> (\<forall>attempt. r = Inr (Inr attempt) \<longrightarrow> attempt \<le> n
         \<and> (\<forall>j \<in> set jobs'. pj_ticketHash j = hash t \<longrightarrow> pj_state j \<in> {JOB_PENDING, JOB_FAILED} \<and> pj_attemptCount j + 1 = attempt))"
proof -
  have j': "jobs' = insert_job now t (hash t) jobs" using run by (simp add: begin_attempt_def Let_def)
  with jobs_ok_insert [OF ok n] have ok': "jobs_ok hash n paper jobs'" by simp
  have "attempt \<le> n \<and> (\<forall>j \<in> set jobs'. pj_ticketHash j = hash t \<longrightarrow> pj_state j \<in> {JOB_PENDING, JOB_FAILED} \<and> pj_attemptCount j + 1 = attempt)"
    if r: "r = Inr (Inr attempt)" for attempt
  proof -
    from run r obtain row where row: "readJob (hash t) jobs' = Some row" "pj_state row \<in> {JOB_PENDING, JOB_FAILED}"
      "attempt = pj_attemptCount row + 1"
      by (auto simp: begin_attempt_def Let_def j' split: option.splits print_job_state.splits)
    from readJob_Some [OF row(1)] have row': "row \<in> set jobs'" "pj_ticketHash row = hash t" by simp_all
    then have "j = row" if "j \<in> set jobs'" "pj_ticketHash j = hash t" for j
      using ok' that by (auto simp: jobs_ok_def dest: distinct_map_eqD)
    moreover have "pj_attemptCount row < n" using ok' row' row(2) by (auto simp: jobs_ok_def job_ok_def)
    ultimately show ?thesis using row by auto
  qed
  with j' ok' show ?thesis by blast
qed

lemma recorded_ok:
  assumes ok: "jobs_ok hash n paper jobs" and a: "attempt \<le> n"
    and j: "\<forall>j \<in> set jobs. pj_ticketHash j = h \<longrightarrow> pj_state j \<in> {JOB_PENDING, JOB_FAILED} \<and> pj_attemptCount j + 1 = attempt"
  shows "jobs_ok hash n paper (recordFailure now n h attempt message jobs)"
    and "h \<in> set paper \<Longrightarrow> jobs_ok hash n paper (recordPrinted now h attempt jobs)"
  using ok a j unfolding recordFailure_def recordPrinted_def update_job_def
  by (intro jobs_ok_update; force simp: jobs_ok_def job_ok_def)+

section \<open>The device in the pipeline\<close>

definition device_ok :: "fake_printer \<Rightarrow> string list \<Rightarrow> bool" where
  "device_ok p paper \<longleftrightarrow> ledger_ok p \<and> fst ` set (pr_ledger p) \<subseteq> set paper"

lemma device_call_ok:
  assumes ok: "device_ok p paper"
    and call: "device_call is_uuid envelope failing fate receipt ticket key (p, paper) = (response, p', paper')"
  shows "device_ok p' paper' \<and> (paper' = paper \<or> paper' = paper @ [key])
    \<and> (\<forall>r. response = Inr r \<longrightarrow> key \<in> set paper')"
proof (cases "fate = RequestLost \<or> \<not> ticket_schema is_uuid ticket \<or> failing \<or> key = []")
  case True
  then show ?thesis
    using ok call
    by (auto simp: device_call_def printRoute_def reply_text_def Let_def split: if_splits list.splits)
next
  case False
  then have reach: "printRoute is_uuid (Some key) ticket failing receipt p
      = (Receipt (fst (accept key receipt p)), snd (accept key receipt p))"
    by (auto simp: printRoute_def case_prod_unfold Let_def split: list.splits)
  have ok': "ledger_ok (snd (accept key receipt p))" using ok by (simp add: device_ok_def accept_ok)
  show ?thesis
  proof (cases "remembers p key")
    case True
    then have "key \<in> set paper" using ok by (auto simp: device_ok_def remembers_def)
    then show ?thesis
      using call False reach accept_known [OF True, of receipt] ok
      by (auto simp: device_call_def reply_text_def Let_def split: if_splits)
  next
    case fresh: False
    have "set (tl (pr_ledger p @ [(key, receipt)])) \<subseteq> insert (key, receipt) (set (pr_ledger p))"
      by (cases "pr_ledger p") auto
    then have "fst ` set (tl (pr_ledger p @ [(key, receipt)])) \<subseteq> insert key (fst ` set (pr_ledger p))"
      by (fastforce dest: subsetD)
    then have "fst ` set (pr_ledger (snd (accept key receipt p))) \<subseteq> insert key (set paper)"
      using ok by (auto simp: accept_new [OF fresh] device_ok_def)
    then have "device_ok (snd (accept key receipt p)) (paper @ [key])" using ok' by (simp add: device_ok_def)
    moreover have "rs_printed (fst (accept key receipt p))" by (simp add: accept_new [OF fresh])
    ultimately show ?thesis
      using call False reach by (auto simp: device_call_def reply_text_def split: if_splits)
  qed
qed

lemma processPrintJob_ok:
  assumes jobs: "jobs_ok hash n paper jobs" and dev: "device_ok p paper" and n: "0 < n"
    and run: "processPrintJob (device_call is_uuid envelope failing fate receipt) n started finished (hash t) t
      (jobs, p, paper) = (outcome, jobs', p', paper')"
  shows "jobs_ok hash n paper' jobs' \<and> device_ok p' paper'"
proof -
  obtain r jobs1 where b: "begin_attempt started t (hash t) jobs = (r, jobs1)" by fastforce
  note ok1 = begin_attempt_ok [OF jobs n b]
  show ?thesis
  proof (cases "\<exists>attempt. r = Inr (Inr attempt)")
    case False
    then show ?thesis using run b ok1 dev by (auto simp: processPrintJob_def split: sum.splits)
  next
    case True
    then obtain attempt where a: "r = Inr (Inr attempt)" by blast
    obtain response q pap where d: "device_call is_uuid envelope failing fate receipt t (hash t) (p, paper) = (response, q, pap)"
      using prod_cases3 by blast
    note dk = device_call_ok [OF dev d]
    have ok2: "jobs_ok hash n pap jobs1" using ok1 dk by (auto intro: jobs_ok_mono)
    have "attempt \<le> n" and same: "\<forall>j \<in> set jobs1. pj_ticketHash j = hash t \<longrightarrow>
        pj_state j \<in> {JOB_PENDING, JOB_FAILED} \<and> pj_attemptCount j + 1 = attempt"
      using ok1 a by blast+
    note rec = recorded_ok [OF ok2 this]
    show ?thesis
      using run b a d dk rec by (cases response) (auto simp: processPrintJob_def)
  qed
qed

definition pipeline_ok :: "(printable_ticket \<Rightarrow> string) \<Rightarrow> nat \<Rightarrow> pipeline \<Rightarrow> bool" where
  "pipeline_ok hash n s \<longleftrightarrow>
     jobs_ok hash n (pl_paper s) (pl_jobs s) \<and> device_ok (pl_printer s) (pl_paper s)
     \<and> distinct (map hash (pl_queue s))"

lemma distinct_queue_add: "distinct (map hash q) \<Longrightarrow> distinct (map hash (queue_add hash t q))"
  by (simp add: queue_add_def)

lemma distinct_offered: "distinct (map hash q) \<Longrightarrow> distinct (map hash (snd (offered hash takes t q)))"
  by (simp add: offered_def distinct_queue_add)

lemma offered_distinct: "offered hash takes t q = (took, q') \<Longrightarrow> distinct (map hash q) \<Longrightarrow> distinct (map hash q')"
  using distinct_offered [of hash q takes t] by simp

lemma distinct_enqueue_rows: "distinct (map hash q) \<Longrightarrow> distinct (map hash (snd (enqueue_rows (offered hash takes) ts q)))"
proof (induction ts arbitrary: q)
  case (Cons t ts)
  obtain took q' where o: "offered hash takes t q = (took, q')" by fastforce
  then have "distinct (map hash q')" using distinct_offered [OF Cons.prems, of takes t] by simp
  then show ?case using o Cons.IH [of q'] by (cases took) (auto simp: case_prod_unfold Let_def)
qed simp

lemma resetDeadLetteredJob_ok:
  "jobs_ok hash n paper jobs \<Longrightarrow> 0 < n \<Longrightarrow> jobs_ok hash n paper (snd (resetDeadLetteredJob now i jobs))"
  unfolding resetDeadLetteredJob_def by (auto intro!: jobs_ok_update) (auto simp: jobs_ok_def job_ok_def)

lemma print_step_ok:
  assumes ok: "pipeline_ok hash n s" and n: "0 < n" and st: "print_step hash is_uuid envelope n s s'"
  shows "pipeline_ok hash n s'"
  using st
proof cases
  case (attempted ticket failing fate receipt started finished outcome jobs p paper)
  have "jobs_ok hash n paper jobs \<and> device_ok p paper"
    using processPrintJob_ok [where hash = hash, OF _ _ n attempted(3)] ok by (simp add: pipeline_ok_def)
  then show ?thesis using ok by (simp add: pipeline_ok_def attempted(1))
next
  case (died ticket started attempt jobs failing fate receipt response p paper)
  have b: "jobs_ok hash n (pl_paper s) jobs" using begin_attempt_ok [where hash = hash, OF _ n died(3)] ok by (simp add: pipeline_ok_def)
  have d: "device_ok p paper" "paper = pl_paper s \<or> paper = pl_paper s @ [hash ticket]"
    using device_call_ok [OF _ died(4)] ok by (simp_all add: pipeline_ok_def)
  from b d(2) have "jobs_ok hash n paper jobs" by (auto intro: jobs_ok_mono)
  then show ?thesis using ok d(1) died(1) by (simp add: pipeline_ok_def)
next
  case (retried takes now orderId result jobs q)
  obtain h jobs1 where r: "resetDeadLetteredJob now orderId (pl_jobs s) = (h, jobs1)" by fastforce
  then have "jobs_ok hash n (pl_paper s) jobs1"
    using ok n resetDeadLetteredJob_ok [of hash n "pl_paper s" "pl_jobs s" now orderId] by (simp add: pipeline_ok_def)
  moreover have "distinct (map hash (pl_queue s))" using ok by (simp add: pipeline_ok_def)
  ultimately show ?thesis
    using retried r ok
    by (auto simp: retryDeadLetteredTicket_def pipeline_ok_def intro: offered_distinct
        split: option.splits prod.splits bool.splits)
next
  case (swept takes now opts result q)
  then show ?thesis
    using ok distinct_enqueue_rows [of hash "pl_queue s" takes "orphans now opts (pl_tickets s) (pl_jobs s)"]
    by (auto simp: reconcilePrintJobs_def pipeline_ok_def Let_def split: prod.splits)
next
  case (enqueued takes ticket took q)
  then show ?thesis using ok distinct_offered [of hash "pl_queue s" takes ticket] by (simp add: pipeline_ok_def)
next
  case (projected ts)
  then show ?thesis using ok by (simp add: pipeline_ok_def)
next
  case (removed keep)
  then show ?thesis using ok by (simp add: pipeline_ok_def distinct_map_filter)
qed

lemma reachable_pipeline_ok:
  "pipeline_reachable hash is_uuid envelope n lost s \<Longrightarrow> 0 < n \<Longrightarrow> pipeline_ok hash n s"
proof (induction rule: pipeline_reachable.induct)
  case start
  then show ?case
    by (simp add: pipeline_ok_def idle_pipeline_def jobs_ok_def device_ok_def ledger_ok_def createFakePrinter_def)
next
  case (step lost s s')
  then show ?case using print_step_ok by blast
next
  case (restart lost s)
  then show ?case
    by (simp add: pipeline_ok_def restarted_def device_ok_def ledger_ok_def createFakePrinter_def)
qed

text \<open>
  C29. A record of a print means paper. Whatever is enqueued, swept, lost, retried or restarted, and wherever a call or a
  worker dies: a \<open>PRINTED\<close> row is about a ticket that physically came out; a ticket has one row; no row exceeds
  \<open>maxAttempts\<close>, a dead letter is a row that reached it, and a pending or failed row has attempts left.
\<close>

theorem printed_means_paper:
  assumes "pipeline_reachable hash is_uuid envelope maxAttempts lost s" and "0 < maxAttempts"
  shows "distinct (map pj_ticketHash (pl_jobs s))
    \<and> (\<forall>j \<in> set (pl_jobs s). case pj_state j of
         JOB_PRINTED \<Rightarrow> pj_ticketHash j \<in> set (pl_paper s) \<and> pj_printedAt j \<noteq> None \<and> pj_attemptCount j \<le> maxAttempts
       | JOB_DEAD_LETTER \<Rightarrow> pj_attemptCount j = maxAttempts
       | _ \<Rightarrow> pj_attemptCount j < maxAttempts)"
  using reachable_pipeline_ok [OF assms] by (auto simp: pipeline_ok_def jobs_ok_def job_ok_def)

section \<open>One sheet per ticket\<close>

definition in_memory :: "pipeline \<Rightarrow> bool" where
  "in_memory s \<longleftrightarrow>
     (length (pl_paper s) \<le> LEDGER_SIZE \<longrightarrow>
        map fst (pr_ledger (pl_printer s)) = pl_paper s \<and> distinct (pl_paper s))"

lemma device_call_memory:
  assumes ok: "device_ok p paper"
    and mem: "length paper \<le> LEDGER_SIZE \<longrightarrow> map fst (pr_ledger p) = paper \<and> distinct paper"
    and call: "device_call is_uuid envelope failing fate receipt ticket key (p, paper) = (response, p', paper')"
  shows "length paper' \<le> LEDGER_SIZE \<longrightarrow> map fst (pr_ledger p') = paper' \<and> distinct paper'"
proof (cases "fate = RequestLost \<or> \<not> ticket_schema is_uuid ticket \<or> failing \<or> key = []")
  case True
  then show ?thesis
    using mem call by (auto simp: device_call_def printRoute_def Let_def split: if_splits list.splits)
next
  case False
  then have reach: "printRoute is_uuid (Some key) ticket failing receipt p
      = (Receipt (fst (accept key receipt p)), snd (accept key receipt p))"
    by (auto simp: printRoute_def case_prod_unfold Let_def split: list.splits)
  show ?thesis
  proof (cases "remembers p key")
    case True
    then show ?thesis
      using call False reach accept_known [OF True, of receipt] mem by (auto simp: device_call_def split: if_splits)
  next
    case fresh: False
    then have "paper' = paper @ [key]" "p' = snd (accept key receipt p)"
      using call False reach by (auto simp: device_call_def accept_new [OF fresh] split: if_splits)
    then show ?thesis
      using mem fresh by (auto simp: accept_new [OF fresh] remembers_def simp flip: set_map)
  qed
qed

lemma print_step_memory:
  assumes ok: "pipeline_ok hash n s" and mem: "in_memory s" and st: "print_step hash is_uuid envelope n s s'"
  shows "in_memory s'"
  using st
proof cases
  case (attempted ticket failing fate receipt started finished outcome jobs p paper)
  then consider "(p, paper) = (pl_printer s, pl_paper s)"
    | response where "device_call is_uuid envelope failing fate receipt ticket (hash ticket) (pl_printer s, pl_paper s) = (response, p, paper)"
    by (auto simp: processPrintJob_def split: sum.splits prod.splits)
  then show ?thesis
  proof cases
    case 1
    then show ?thesis using mem by (simp add: in_memory_def attempted(1))
  next
    case 2
    then show ?thesis
      using mem ok device_call_memory [OF _ _ 2] by (simp add: in_memory_def attempted(1) pipeline_ok_def)
  qed
next
  case (died ticket started attempt jobs failing fate receipt response p paper)
  then show ?thesis using mem ok device_call_memory [OF _ _ died(4)] by (simp add: in_memory_def pipeline_ok_def)
qed (use mem in \<open>simp_all add: in_memory_def\<close>)

text \<open>
  C30. Paper comes once while the device remembers. Until the device is restarted or has printed more than
  500 tickets, no ticket comes out twice, whatever is retried, redelivered, swept again or left unanswered.
\<close>

theorem ticket_comes_out_once:
  assumes "pipeline_reachable hash is_uuid envelope maxAttempts False s" and "0 < maxAttempts"
    and "length (pl_paper s) \<le> 500"
  shows "distinct (pl_paper s)"
proof -
  have "lost = False \<Longrightarrow> 0 < maxAttempts \<Longrightarrow> in_memory s"
    if "pipeline_reachable hash is_uuid envelope maxAttempts lost s" for lost s
    using that
  proof (induction rule: pipeline_reachable.induct)
    case (step lost s s')
    then show ?case using print_step_memory reachable_pipeline_ok by blast
  qed (simp_all add: in_memory_def idle_pipeline_def createFakePrinter_def)
  from this [OF assms(1)] assms(2,3) show ?thesis by (simp add: in_memory_def LEDGER_SIZE_def)
qed

definition demo_print_ticket :: printable_ticket where
  "demo_print_ticket = demo_ticket [demo_line ''burger'' 2]"

definition demo_printed :: pipeline where
  "demo_printed =
     (case processPrintJob (device_call (\<lambda>_. True) (\<lambda>_ _. []) False AnswerLost ''r1'') 3 1 2 (pt_orderId demo_print_ticket)
        demo_print_ticket (pl_jobs idle_pipeline, pl_printer idle_pipeline, pl_paper idle_pipeline) of
      (outcome, jobs, p, paper) \<Rightarrow>
        idle_pipeline\<lparr>pl_queue := [demo_print_ticket], pl_jobs := jobs, pl_printer := p, pl_paper := paper\<rparr>)"

lemma demo_printed_reachable:
  "pipeline_reachable pt_orderId (\<lambda>_. True) (\<lambda>_ _. []) 3 False demo_printed"
proof -
  let ?s = "idle_pipeline\<lparr>pl_queue := [demo_print_ticket]\<rparr>"
  have "offered pt_orderId (\<lambda>_. True) demo_print_ticket (pl_queue idle_pipeline) = (True, [demo_print_ticket])"
    by (simp add: offered_def queue_add_def idle_pipeline_def)
  from pipeline_reachable.step [OF pipeline_reachable.start print_step.enqueued [OF this]]
  have r: "pipeline_reachable pt_orderId (\<lambda>_. True) (\<lambda>_ _. []) 3 False ?s" .
  obtain outcome jobs p paper where run: "processPrintJob (device_call (\<lambda>_. True) (\<lambda>_ _. []) False AnswerLost ''r1'') 3 1 2
      (pt_orderId demo_print_ticket) demo_print_ticket (pl_jobs idle_pipeline, pl_printer idle_pipeline, pl_paper idle_pipeline)
      = (outcome, jobs, p, paper)" using prod_cases4 by blast
  then have "demo_printed = ?s\<lparr>pl_jobs := jobs, pl_printer := p, pl_paper := paper\<rparr>" by (simp add: demo_printed_def)
  moreover have "print_step pt_orderId (\<lambda>_. True) (\<lambda>_ _. []) 3 ?s (?s\<lparr>pl_jobs := jobs, pl_printer := p, pl_paper := paper\<rparr>)"
    by (rule print_step.attempted [where ticket = demo_print_ticket]) (use run in simp_all)
  ultimately show ?thesis using pipeline_reachable.step [OF r] by simp
qed

lemma demo_printed_paper:
  "pl_paper demo_printed = [''o1'']" "map pj_state (pl_jobs demo_printed) = [JOB_FAILED]"
  by code_simp+

theorem printed_means_paper_witness:
  "distinct (map pj_ticketHash (pl_jobs demo_printed)) \<and> map pj_state (pl_jobs demo_printed) = [JOB_FAILED]"
  using printed_means_paper [OF demo_printed_reachable] demo_printed_paper(2) by simp

theorem ticket_comes_out_once_witness: "pl_paper demo_printed = [''o1''] \<and> distinct (pl_paper demo_printed)"
  using ticket_comes_out_once [OF demo_printed_reachable] demo_printed_paper(1) by simp

end
