(* ===== verification/Print_Recovery.thy ===== *)
theory Print_Recovery
  imports Printing_Pipeline
begin

text \<open>
  How printing recovers: one sweep over a queue that lost everything, followed by one attempt per job on a
  device that answers, prints every ticket that is not cancelled and not dead-lettered; and what a manual
  retry leaves to the sweep when its enqueue is lost.
\<close>

section \<open>A healthy device\<close>

definition healthy ::
  "(string \<Rightarrow> bool) \<Rightarrow> (nat \<Rightarrow> api_error_code \<Rightarrow> string) \<Rightarrow> (string \<Rightarrow> string) \<Rightarrow> printable_ticket \<Rightarrow> string
     \<Rightarrow> fake_printer \<times> string list \<Rightarrow> (string + print_response) \<times> fake_printer \<times> string list" where
  "healthy is_uuid envelope receipt ticket key s =
     device_call is_uuid envelope (readPrinterControls (Some False)) CallAnswered (receipt key) ticket key s"

text \<open>Every job once.\<close>

fun work ::
  "(printable_ticket \<Rightarrow> string \<Rightarrow> 'p \<Rightarrow> (string + print_response) \<times> 'p) \<Rightarrow> nat \<Rightarrow> millis
     \<Rightarrow> (printable_ticket \<Rightarrow> string) \<Rightarrow> printable_ticket list \<Rightarrow> print_job list \<times> 'p \<Rightarrow> print_job list \<times> 'p" where
  "work print n now hash [] s = s"
| "work print n now hash (t # ts) s = work print n now hash ts (snd (processPrintJob print n now now (hash t) t s))"

definition final :: "print_job \<Rightarrow> bool" where
  "final j \<longleftrightarrow> pj_state j = JOB_PRINTED \<or> pj_state j = JOB_DEAD_LETTER"

lemma healthy_answers:
  assumes "ticket_schema is_uuid t" and "key \<noteq> []"
  shows "\<exists>r s'. healthy is_uuid envelope receipt t key s = (Inr r, s')"
  using assms
  by (cases s; cases key)
    (auto simp: healthy_def device_call_def printRoute_def reply_text_def readPrinterControls_def Let_def split: prod.splits)

lemma final_rows_stay:
  assumes jobs: "jobs_ok hash n paper jobs" and n: "0 < n" and j: "j \<in> set jobs" "final j"
    and run: "processPrintJob print n a b (hash t) t (jobs, p) = (outcome, jobs', p')"
  shows "j \<in> set jobs'"
proof -
  obtain r jobs1 where at: "begin_attempt a t (hash t) jobs = (r, jobs1)" by fastforce
  note ok1 = begin_attempt_ok [OF jobs n at]
  have j1: "j \<in> set jobs1" using ok1 j by (simp add: insert_job_def)
  have "pj_ticketHash j \<noteq> hash t" if "r = Inr (Inr k)" for k
    using ok1 that j1 j(2) by (fastforce simp: final_def)
  then show ?thesis
    using run at j1
    by (auto simp: processPrintJob_def recordFailure_def recordPrinted_def update_job_def
        intro: update_where_keepI split: sum.splits prod.splits)
qed

lemma healthy_attempt:
  assumes jobs: "jobs_ok hash n paper jobs" and n: "0 < n"
    and t: "ticket_schema is_uuid t" "hash t \<noteq> []"
    and run: "processPrintJob (healthy is_uuid envelope receipt) n a b (hash t) t (jobs, p) = (outcome, jobs', p')"
  shows "\<exists>j \<in> set jobs'. pj_ticketHash j = hash t \<and> final j"
    and "\<forall>j \<in> set jobs'. pj_state j = JOB_DEAD_LETTER \<longrightarrow> j \<in> set jobs"
proof -
  obtain r jobs1 where at: "begin_attempt a t (hash t) jobs = (r, jobs1)" by fastforce
  note ok1 = begin_attempt_ok [OF jobs n at]
  have old: "\<forall>j \<in> set jobs1. pj_state j = JOB_DEAD_LETTER \<longrightarrow> j \<in> set jobs"
    using ok1 by (auto simp: insert_job_def new_job_def)
  have row: "\<exists>j \<in> set jobs1. pj_ticketHash j = hash t" using ok1 by (force simp: insert_job_def new_job_def)
  have "(\<exists>j \<in> set jobs'. pj_ticketHash j = hash t \<and> final j)
    \<and> (\<forall>j \<in> set jobs'. pj_state j = JOB_DEAD_LETTER \<longrightarrow> j \<in> set jobs)"
  proof (cases "\<exists>k. r = Inr (Inr k)")
    case True
    then obtain k where k: "r = Inr (Inr k)" by blast
    obtain resp q where h: "healthy is_uuid envelope receipt t (hash t) p = (Inr resp, q)"
      using healthy_answers [of is_uuid t "hash t" envelope receipt p] t by auto
    then have j': "jobs' = recordPrinted b (hash t) k jobs1" using run at k by (simp add: processPrintJob_def)
    from row obtain j0 where j0: "j0 \<in> set jobs1" "pj_ticketHash j0 = hash t" by blast
    have "\<exists>j \<in> set jobs'. pj_ticketHash j = hash t \<and> final j"
      unfolding j' recordPrinted_def update_job_def
      by (rule bexI [OF _ update_where_memI [OF j0(1)]]) (simp_all add: final_def j0(2))
    moreover have "\<forall>j \<in> set jobs'. pj_state j = JOB_DEAD_LETTER \<longrightarrow> j \<in> set jobs"
      using old by (auto simp: j' recordPrinted_def update_job_def in_set_update_where)
    ultimately show ?thesis by blast
  next
    case False
    then have j': "jobs' = jobs1" using run at by (auto simp: processPrintJob_def split: sum.splits)
    have "r \<noteq> Inl m" for m
    proof
      assume "r = Inl m"
      then have "readJob (hash t) jobs1 = None" using at by (auto simp: begin_attempt_def Let_def split: option.splits)
      then show False using row by (auto simp: readJob_def find_None_iff)
    qed
    then obtain out where "r = Inr (Inl out)" using False by (cases r) (auto split: sum.splits, metis old.sum.exhaust)
    then obtain j where "readJob (hash t) jobs1 = Some j" "final j"
      using at by (auto simp: begin_attempt_def Let_def final_def split: option.splits print_job_state.splits)
    then show ?thesis using readJob_Some [of "hash t" jobs1 j] old j' by auto
  qed
  then show "\<exists>j \<in> set jobs'. pj_ticketHash j = hash t \<and> final j"
    and "\<forall>j \<in> set jobs'. pj_state j = JOB_DEAD_LETTER \<longrightarrow> j \<in> set jobs" by blast+
qed

lemma healthy_is_device_call:
  "processPrintJob (healthy is_uuid envelope receipt) n a b h t s
     = processPrintJob (device_call is_uuid envelope False CallAnswered (receipt h)) n a b h t s"
proof -
  have "healthy is_uuid envelope receipt t h = device_call is_uuid envelope False CallAnswered (receipt h) t h"
    by (simp add: fun_eq_iff healthy_def readPrinterControls_def)
  then show ?thesis unfolding processPrintJob_def by metis
qed

lemma work_final:
  assumes "jobs_ok hash n paper jobs" and "device_ok p paper" and "0 < n"
    and "\<forall>t \<in> set ts. ticket_schema is_uuid t \<and> hash t \<noteq> []"
    and "work (healthy is_uuid envelope receipt) n now hash ts (jobs, p, paper) = (jobs', p', paper')"
  shows "jobs_ok hash n paper' jobs'
    \<and> (\<forall>t \<in> set ts. \<exists>j \<in> set jobs'. pj_ticketHash j = hash t \<and> final j)
    \<and> (\<forall>j \<in> set jobs'. pj_state j = JOB_DEAD_LETTER \<longrightarrow> j \<in> set jobs)
    \<and> (\<forall>j \<in> set jobs. final j \<longrightarrow> j \<in> set jobs')"
  using assms
proof (induction ts arbitrary: jobs p paper)
  case (Cons t ts)
  obtain outcome jobs1 p1 paper1
    where run: "processPrintJob (healthy is_uuid envelope receipt) n now now (hash t) t (jobs, p, paper) = (outcome, jobs1, p1, paper1)"
    using prod_cases4 by blast
  have ok1: "jobs_ok hash n paper1 jobs1 \<and> device_ok p1 paper1"
    using processPrintJob_ok [OF Cons.prems(1,2,3) run [unfolded healthy_is_device_call]] .
  note one = healthy_attempt [OF Cons.prems(1,3) _ _ run] final_rows_stay [OF Cons.prems(1,3) _ _ run]
  have rest: "work (healthy is_uuid envelope receipt) n now hash ts (jobs1, p1, paper1) = (jobs', p', paper')"
    using Cons.prems(5) run by simp
  have "\<forall>t \<in> set ts. ticket_schema is_uuid t \<and> hash t \<noteq> []" using Cons.prems(4) by simp
  from Cons.IH [OF _ _ Cons.prems(3) this rest] ok1
  have ih: "jobs_ok hash n paper' jobs'" "\<forall>t \<in> set ts. \<exists>j \<in> set jobs'. pj_ticketHash j = hash t \<and> final j"
    "\<forall>j \<in> set jobs'. pj_state j = JOB_DEAD_LETTER \<longrightarrow> j \<in> set jobs1" "\<forall>j \<in> set jobs1. final j \<longrightarrow> j \<in> set jobs'"
    by blast+
  have t: "ticket_schema is_uuid t" "hash t \<noteq> []" using Cons.prems(4) by simp_all
  from one(1) [OF t] ih(4) have "\<exists>j \<in> set jobs'. pj_ticketHash j = hash t \<and> final j" by blast
  moreover have "\<forall>j \<in> set jobs'. pj_state j = JOB_DEAD_LETTER \<longrightarrow> j \<in> set jobs" using ih(3) one(2) [OF t] by blast
  moreover have "\<forall>j \<in> set jobs. final j \<longrightarrow> j \<in> set jobs'" using one(3) ih(4) by blast
  ultimately show ?case using ih(1,2) by simp
qed auto

lemma enqueue_all:
  "enqueue_rows (offered hash (\<lambda>_. True)) ts q = (k, q') \<Longrightarrow>
     hash ` set q' = hash ` (set q \<union> set ts) \<and> set q' \<subseteq> set q \<union> set ts \<and> k = length ts"
proof (induction ts arbitrary: q k)
  case (Cons t ts)
  obtain k1 where r: "enqueue_rows (offered hash (\<lambda>_. True)) ts (queue_add hash t q) = (k1, q')" "k = k1 + 1"
  proof -
    have "offered hash (\<lambda>_. True) t q = (True, queue_add hash t q)" by (simp add: offered_def)
    then show thesis using Cons.prems that
      by (cases "enqueue_rows (offered hash (\<lambda>_. True)) ts (queue_add hash t q)") auto
  qed
  from Cons.IH [OF r(1)] r(2) show ?case by (auto simp: queue_add_def split: if_splits)
qed simp

section \<open>The sweep\<close>

text \<open>What the sweep is about: a ticket that is not cancelled, and was never tried or not for a while.\<close>

definition unprinted :: "millis \<Rightarrow> reconcile_options \<Rightarrow> print_job list \<Rightarrow> uuid \<times> kitchen_ticket \<Rightarrow> bool" where
  "unprinted now opts jobs row \<longleftrightarrow>
     (\<exists>job \<in> set (joined_jobs jobs (fst row)). Print_Jobs.swept now (ro_staleAfterMs opts) (snd row) job)"

lemma orphans_unprinted:
  assumes "length (orphans now opts tickets jobs) < ro_limit opts"
  shows "set (orphans now opts tickets jobs) = printable ` {row \<in> set tickets. unprinted now opts jobs row}"
proof -
  let ?rows = "concat (map (\<lambda>row. map (\<lambda>_. row)
      (filter (Print_Jobs.swept now (ro_staleAfterMs opts) (snd row)) (joined_jobs jobs (fst row))))
      (sort_key (\<lambda>row. kt_createdAt (snd row)) tickets))"
  have "take (ro_limit opts) ?rows = ?rows" using assms by (simp add: orphans_def)
  then have "set (orphans now opts tickets jobs) = printable ` set ?rows" by (simp add: orphans_def)
  also have "set ?rows = {row \<in> set tickets. unprinted now opts jobs row}" by (auto simp: unprinted_def)
  finally show ?thesis .
qed


definition lost_pipeline :: pipeline where
  "lost_pipeline = idle_pipeline\<lparr>pl_tickets :=
     [(''o1'', \<lparr>kt_restaurantId = ''demo-restaurant'', kt_tableNumber = ''7'', kt_items = [demo_line ''burger'' 2],
        kt_state = PREPARING', kt_sourceEventVersion = 2, kt_createdAt = 5, kt_updatedAt = 6\<rparr>)]\<rparr>"

definition demo_sweep :: reconcile_options where
  "demo_sweep = \<lparr>ro_staleAfterMs = 60, ro_limit = 10\<rparr>"

lemma lost_pipeline_swept:
  "reconcilePrintJobs (offered pt_orderId (\<lambda>_. True)) 9 demo_sweep (pl_tickets lost_pipeline) (pl_jobs lost_pipeline)
     (pl_queue lost_pipeline) = (\<lparr>rr_found = 1, rr_enqueued = 1\<rparr>, map printable (pl_tickets lost_pipeline))"
  by (simp add: reconcilePrintJobs_def orphans_def lost_pipeline_def idle_pipeline_def demo_sweep_def joined_jobs_def
      Print_Jobs.swept_def printable_def offered_def queue_add_def)


section \<open>A manual retry whose enqueue is lost\<close>

lemma find_none_after_reset:
  "pj_orderId j = i \<Longrightarrow> pj_state j = JOB_DEAD_LETTER \<Longrightarrow> filter (\<lambda>j. pj_orderId j = i) jobs = [j] \<Longrightarrow>
     filter (\<lambda>j. pj_orderId j = i) (snd (resetDeadLetteredJob now i jobs))
       = [j\<lparr>pj_state := JOB_PENDING, pj_attemptCount := 0, pj_lastError := None, pj_updatedAt := now\<rparr>]"
  by (simp add: resetDeadLetteredJob_def filter_update_where dead_letter_of_def)

text \<open>
  A retry that is lost waits for the full staleness bound. When the row of a dead-lettered ticket is reset
  and the enqueue that should follow does not happen, no sweep picks the ticket up until \<open>staleAfterMs\<close> have passed: the reset
  stamps \<open>updated_at\<close>, so the row is fresh, and not \<open>immediately stale\<close>.
\<close>

lemma lost_retry_waits_until_stale:
  assumes "resetDeadLetteredJob now i jobs = (Some h, jobs')"
    and "filter (\<lambda>j. pj_orderId j = i) jobs = [j]" and "pj_state j = JOB_DEAD_LETTER"
    and "later \<le> now + ro_staleAfterMs opts"
  shows "i \<notin> pt_orderId ` set (orphans later opts tickets jobs')"
proof -
  have "pj_orderId j = i" using assms(2) by (metis (mono_tags, lifting) filter_eq_ConsD)
  from find_none_after_reset [OF this assms(3,2), of now]
  have j': "filter (\<lambda>j. pj_orderId j = i) jobs'
      = [j\<lparr>pj_state := JOB_PENDING, pj_attemptCount := 0, pj_lastError := None, pj_updatedAt := now\<rparr>]"
    using assms(1) by simp
  have "\<not> Print_Jobs.swept later (ro_staleAfterMs opts) t job" if "job \<in> set (joined_jobs jobs' i)" for t job
    using that assms(4) by (auto simp: joined_jobs_def j' Print_Jobs.swept_def)
  then show ?thesis by (fastforce simp: orphans_def printable_def dest: in_set_takeD)
qed

definition dead_job :: print_job where
  "dead_job = (new_job 5 (demo_ticket []) ''h1'')\<lparr>pj_state := JOB_DEAD_LETTER, pj_attemptCount := 3\<rparr>"

lemma lost_retry_waits_until_stale_witness:
  "''o1'' \<notin> pt_orderId ` set (orphans 100 demo_sweep (pl_tickets lost_pipeline) (snd (resetDeadLetteredJob 50 ''o1'' [dead_job])))"
  by (rule lost_retry_waits_until_stale [of 50 "''o1''" "[dead_job]" "''h1''" _ dead_job])
    (simp_all add: dead_job_def new_job_def demo_ticket_def resetDeadLetteredJob_def dead_letter_of_def demo_sweep_def)

end
