(* ===== verification/Feature_Flags.thy ===== *)
theory Feature_Flags
  imports Contracts Prelude
begin

text \<open>
  Feature flags and their rollout: the table (\<open>api config/application/flag-store.ts\<close>), the rule applied to a
  restaurant (\<open>resolve-flags.ts\<close>, with \<open>flagBucket\<close> of the contracts), and the two routes
  (\<open>api/config-routes.ts\<close>, \<open>api/flag-routes.ts\<close>) as functions of the rows they were given and the patch they
  accept. The cache in front of the table is \<open>Flag_Cache\<close>.
\<close>

section \<open>The table\<close>

definition FEATURE_FLAG_KEYS :: "string list" where
  "FEATURE_FLAG_KEYS = [''realtime.websocket_push'']"

definition RESTAURANTS :: "tenant list" where
  "RESTAURANTS = [''demo-restaurant'', ''second-restaurant'']"

record flag_row =
  fl_key :: string
  fl_enabled :: bool
  fl_rolloutPercent :: int
  fl_updatedAt :: millis

record flag_patch =
  fp_enabled :: "bool option"
  fp_rolloutPercent :: "int option"

text \<open>Rows with a key this build does not know are dropped.\<close>

definition readFlagRows :: "flag_row list \<Rightarrow> flag_row list" where
  "readFlagRows table = filter (\<lambda>r. fl_key r \<in> set FEATURE_FLAG_KEYS) (sort_key fl_key table)"

definition writeFlag :: "millis \<Rightarrow> string \<Rightarrow> flag_patch \<Rightarrow> flag_row list \<Rightarrow> flag_row list" where
  "writeFlag now key patch table =
     (if key \<in> fl_key ` set table
      then update_where (\<lambda>r. fl_key r = key)
             (\<lambda>r. r\<lparr>fl_enabled := (case fp_enabled patch of None \<Rightarrow> fl_enabled r | Some b \<Rightarrow> b),
                    fl_rolloutPercent := (case fp_rolloutPercent patch of None \<Rightarrow> fl_rolloutPercent r | Some p \<Rightarrow> p),
                    fl_updatedAt := now\<rparr>) table
      else table @ [\<lparr>fl_key = key, fl_enabled = (case fp_enabled patch of None \<Rightarrow> False | Some b \<Rightarrow> b),
                     fl_rolloutPercent = (case fp_rolloutPercent patch of None \<Rightarrow> 0 | Some p \<Rightarrow> p),
                     fl_updatedAt = now\<rparr>])"

section \<open>The rule\<close>

text \<open>A JavaScript \<open>Map\<close> keeps the last row of a key.\<close>

definition by_key :: "flag_row list \<Rightarrow> string \<Rightarrow> flag_row option" where
  "by_key rows = map_of (rev (map (\<lambda>r. (fl_key r, r)) rows))"

definition resolveFor :: "flag_row list \<Rightarrow> tenant \<Rightarrow> (string \<times> bool) list" where
  "resolveFor rows restaurantId =
     map (\<lambda>key. (key, case by_key rows key of
                         None \<Rightarrow> False
                       | Some r \<Rightarrow> flagAppliesTo key restaurantId (fl_enabled r) (fl_rolloutPercent r)))
       FEATURE_FLAG_KEYS"

record flag_resolution =
  fr_restaurantId :: tenant
  fr_enabled :: bool
  fr_bucket :: nat

definition describeFlags :: "flag_row list \<Rightarrow> (flag_row \<times> flag_resolution list) list" where
  "describeFlags rows =
     map (\<lambda>key.
       (let r = (case by_key rows key of
                   None \<Rightarrow> \<lparr>fl_key = key, fl_enabled = False, fl_rolloutPercent = 0, fl_updatedAt = 0\<rparr>
                 | Some r \<Rightarrow> r)
        in (r, map (\<lambda>restaurant.
             \<lparr>fr_restaurantId = restaurant, fr_enabled = flagAppliesTo key restaurant (fl_enabled r) (fl_rolloutPercent r),
              fr_bucket = flagBucket key restaurant\<rparr>) RESTAURANTS)))
       FEATURE_FLAG_KEYS"

section \<open>The routes\<close>

definition patchBody :: "flag_patch \<Rightarrow> bool" where
  "patchBody patch \<longleftrightarrow>
     (case fp_rolloutPercent patch of None \<Rightarrow> True | Some p \<Rightarrow> 0 \<le> p \<and> p \<le> 100)
     \<and> (fp_enabled patch \<noteq> None \<or> fp_rolloutPercent patch \<noteq> None)"

text \<open>The row a \<open>POST\<close> writes, \<open>None\<close> when the request is refused with 400.\<close>

definition flagRoute :: "millis \<Rightarrow> string \<Rightarrow> flag_patch \<Rightarrow> flag_row list \<Rightarrow> flag_row list option" where
  "flagRoute now key patch table =
     (if key \<notin> set FEATURE_FLAG_KEYS \<or> \<not> patchBody patch then None else Some (writeFlag now key patch table))"

definition configRoute :: "tenant \<Rightarrow> flag_row list \<Rightarrow> (tenant \<times> (string \<times> bool) list) option" where
  "configRoute restaurantId rows = (if restaurantId = [] then None else Some (restaurantId, resolveFor rows restaurantId))"

section \<open>Rollouts\<close>

definition pushed_to :: "flag_row list \<Rightarrow> tenant \<Rightarrow> bool" where
  "pushed_to rows restaurantId = (map_of (resolveFor rows restaurantId) ''realtime.websocket_push'' = Some True)"

definition flag_table_ok :: "flag_row list \<Rightarrow> bool" where
  "flag_table_ok table \<longleftrightarrow>
     distinct (map fl_key table) \<and> (\<forall>r \<in> set table. 0 \<le> fl_rolloutPercent r \<and> fl_rolloutPercent r \<le> 100)"

lemma by_key_distinct:
  "distinct (map fl_key table) \<Longrightarrow> r \<in> set table \<Longrightarrow> by_key table (fl_key r) = Some r"
  by (simp add: by_key_def map_of_is_SomeI rev_map [symmetric] o_def)

lemma writeFlag_ok: "flag_table_ok table \<Longrightarrow> patchBody patch \<Longrightarrow> flag_table_ok (writeFlag now key patch table)"
  by (auto simp: flag_table_ok_def writeFlag_def patchBody_def map_update_where in_set_update_where split: option.splits)

lemma pushed_to_row:
  assumes "distinct (map fl_key table)" and "r \<in> set table" and "fl_key r = ''realtime.websocket_push''"
  shows "pushed_to (readFlagRows table) restaurantId \<longleftrightarrow>
    flagAppliesTo ''realtime.websocket_push'' restaurantId (fl_enabled r) (fl_rolloutPercent r)"
proof -
  have "distinct (map fl_key (readFlagRows table))"
    using assms(1) by (auto simp: readFlagRows_def distinct_map_filter distinct_map_sort_key)
  moreover have "r \<in> set (readFlagRows table)" using assms(2,3) by (simp add: readFlagRows_def FEATURE_FLAG_KEYS_def)
  ultimately have "by_key (readFlagRows table) (fl_key r) = Some r" by (rule by_key_distinct)
  then show ?thesis using assms(3) by (simp add: pushed_to_def resolveFor_def FEATURE_FLAG_KEYS_def)
qed


definition seeded_flags :: "flag_row list" where
  "seeded_flags = [\<lparr>fl_key = ''realtime.websocket_push'', fl_enabled = True, fl_rolloutPercent = 0, fl_updatedAt = 1\<rparr>]"

lemma seeded_buckets:
  "flagBucket ''realtime.websocket_push'' ''demo-restaurant'' = 1"
  "flagBucket ''realtime.websocket_push'' ''second-restaurant'' = 24"
  by code_simp+


end
