(* ===== verification/Flag_Cache.thy ===== *)
theory Flag_Cache
  imports Feature_Flags
begin

text \<open>
  The cache in front of the flag table (\<open>api config/infrastructure/redis-flag-cache.ts\<close>) and the read and the
  write around it (\<open>loadFlags\<close>, \<open>invalidateFlags\<close> of \<open>resolve-flags.ts\<close>, the \<open>POST\<close> of \<open>flag-routes.ts\<close>), with every
  statement a step of its own: requests of any number of processes interleave between the lookup, the
  read of the table and the fill, and between the write of a toggle and its invalidation.

  A version is the counter as a number; a missing counter reads as \<open>0\<close>, and the decimal text of a counter
  determines it. A cached payload that does not parse is a miss, as an absent one is.
\<close>

section \<open>The cache\<close>

record redis_flags =
  rd_value :: "(nat \<times> flag_row list) option"
  rd_counter :: "nat option"

datatype flag_cache_read = Hit "flag_row list" | Miss nat

definition NO_VERSION :: nat where
  "NO_VERSION = 0"

definition counter_version :: "redis_flags \<Rightarrow> nat" where
  "counter_version rd = (case rd_counter rd of None \<Rightarrow> NO_VERSION | Some n \<Rightarrow> n)"

definition cache_read :: "redis_flags \<Rightarrow> flag_cache_read" where
  "cache_read rd =
     (case rd_value rd of
        Some (version, rows) \<Rightarrow> if version = counter_version rd then Hit rows else Miss (counter_version rd)
      | None \<Rightarrow> Miss (counter_version rd))"

definition cache_write :: "flag_row list \<Rightarrow> nat \<Rightarrow> redis_flags \<Rightarrow> redis_flags" where
  "cache_write rows version rd = rd\<lparr>rd_value := Some (version, rows)\<rparr>"

definition cache_invalidate :: "redis_flags \<Rightarrow> redis_flags" where
  "cache_invalidate rd = rd\<lparr>rd_counter := Some (counter_version rd + 1)\<rparr>"

section \<open>Requests in flight\<close>

text \<open>
  \<open>fs_past\<close> keeps every state the table has had, the current one first; \<open>fs_known\<close> is the number of writes the
  last successful invalidation covers. A request that missed is at \<open>Missed\<close>, then has its rows and fills.
  \<open>fs_answers\<close> records, per answered read, what was known when it began and the rows it got.
\<close>

datatype flag_request = Missed nat nat | Loaded nat nat "flag_row list"

record flag_service =
  fs_table :: "flag_row list"
  fs_past :: "flag_row list list"
  fs_redis :: redis_flags
  fs_flight :: "flag_request list"
  fs_known :: nat
  fs_answers :: "(nat \<times> flag_row list) list"

definition rows_of :: "flag_service \<Rightarrow> flag_row list" where
  "rows_of s = readFlagRows (fs_table s)"

text \<open>
  \<open>loadFlags\<close>: a hit answers at once; a miss goes to the table; a lookup that threw goes to the table too and
  fills nothing. The fill is part of the request that loaded, and its failure is swallowed.
\<close>

inductive flag_step :: "flag_service \<Rightarrow> flag_service \<Rightarrow> bool" where
  hit: "cache_read (fs_redis s) = Hit rows \<Longrightarrow>
     flag_step s (s\<lparr>fs_answers := (fs_known s, rows) # fs_answers s\<rparr>)"
| missed: "cache_read (fs_redis s) = Miss version \<Longrightarrow>
     flag_step s (s\<lparr>fs_flight := Missed (fs_known s) version # fs_flight s\<rparr>)"
| lookup_failed: "flag_step s (s\<lparr>fs_answers := (fs_known s, rows_of s) # fs_answers s\<rparr>)"
| loaded: "Missed known version \<in> set (fs_flight s) \<Longrightarrow>
     flag_step s (s\<lparr>fs_flight := Loaded known version (rows_of s) # fs_flight s\<rparr>)"
| filled: "Loaded known version rows \<in> set (fs_flight s) \<Longrightarrow>
     flag_step s (s\<lparr>fs_redis := cache_write rows version (fs_redis s), fs_answers := (known, rows) # fs_answers s\<rparr>)"
| fill_failed: "Loaded known version rows \<in> set (fs_flight s) \<Longrightarrow>
     flag_step s (s\<lparr>fs_answers := (known, rows) # fs_answers s\<rparr>)"
| written: "flagRoute now key patch (fs_table s) = Some table \<Longrightarrow>
     flag_step s (s\<lparr>fs_table := table, fs_past := rows_of s # fs_past s\<rparr>)"
| invalidated: "flag_step s (s\<lparr>fs_redis := cache_invalidate (fs_redis s), fs_known := length (fs_past s)\<rparr>)"
| expired: "flag_step s (s\<lparr>fs_redis := (fs_redis s)\<lparr>rd_value := None\<rparr>\<rparr>)"

definition cold_service :: "flag_row list \<Rightarrow> flag_service" where
  "cold_service table =
     \<lparr>fs_table = table, fs_past = [], fs_redis = \<lparr>rd_value = None, rd_counter = None\<rparr>, fs_flight = [],
      fs_known = 0, fs_answers = []\<rparr>"

inductive flags_reachable :: "flag_row list \<Rightarrow> flag_service \<Rightarrow> bool" for table where
  cold: "flags_reachable table (cold_service table)"
| step: "flags_reachable table s \<Longrightarrow> flag_step s s' \<Longrightarrow> flags_reachable table s'"

section \<open>What a reader can see\<close>

text \<open>The rows the table held after at least \<open>n\<close> writes.\<close>

definition since :: "nat \<Rightarrow> flag_service \<Rightarrow> flag_row list set" where
  "since n s = set (take (length (fs_past s) + 1 - n) (rows_of s # fs_past s))"

lemma since_now: "n \<le> length (fs_past s) \<Longrightarrow> rows_of s \<in> since n s"
  by (cases "length (fs_past s) + 1 - n") (auto simp: since_def)

lemma since_antimono: "m \<le> n \<Longrightarrow> since n s \<subseteq> since m s"
  unfolding since_def by (rule set_take_subset_set_take) simp

definition fill_ok :: "flag_service \<Rightarrow> nat \<Rightarrow> flag_row list \<Rightarrow> bool" where
  "fill_ok s version rows \<longleftrightarrow>
     version \<le> counter_version (fs_redis s)
     \<and> (version = counter_version (fs_redis s) \<longrightarrow> rows \<in> since (fs_known s) s)"

fun request_ok :: "flag_service \<Rightarrow> flag_request \<Rightarrow> bool" where
  "request_ok s (Missed known version) \<longleftrightarrow> known \<le> fs_known s \<and> version \<le> counter_version (fs_redis s)"
| "request_ok s (Loaded known version rows) \<longleftrightarrow> known \<le> fs_known s \<and> rows \<in> since known s \<and> fill_ok s version rows"

definition flags_ok :: "flag_service \<Rightarrow> bool" where
  "flags_ok s \<longleftrightarrow>
     fs_known s \<le> length (fs_past s)
     \<and> (\<forall>(version, rows) \<in> set_option (rd_value (fs_redis s)). fill_ok s version rows)
     \<and> (\<forall>r \<in> set (fs_flight s). request_ok s r)
     \<and> (\<forall>(known, rows) \<in> set (fs_answers s). rows \<in> since known s)"

text \<open>What the steps share: nothing that was true of a payload or a request becomes false.\<close>

definition later_than :: "flag_service \<Rightarrow> flag_service \<Rightarrow> bool" where
  "later_than s s' \<longleftrightarrow>
     (\<forall>n. since n s \<subseteq> since n s') \<and> fs_known s \<le> fs_known s'
     \<and> (counter_version (fs_redis s') = counter_version (fs_redis s) \<and> fs_known s' = fs_known s
        \<or> counter_version (fs_redis s) < counter_version (fs_redis s'))"

lemma fill_ok_later: "later_than s s' \<Longrightarrow> fill_ok s version rows \<Longrightarrow> fill_ok s' version rows"
  unfolding later_than_def fill_ok_def by (metis leD le_less_trans less_imp_le order_trans subsetD)

lemma request_ok_later: "later_than s s' \<Longrightarrow> request_ok s r \<Longrightarrow> request_ok s' r"
  by (cases r) (auto simp: fill_ok_later, auto simp: later_than_def dest: spec)

lemma since_same: "fs_past s' = fs_past s \<Longrightarrow> fs_table s' = fs_table s \<Longrightarrow> since n s' = since n s"
  by (simp add: since_def rows_of_def)

lemma since_written: "fs_past s' = rows_of s # fs_past s \<Longrightarrow> since n s \<subseteq> since n s'"
proof
  fix x assume past: "fs_past s' = rows_of s # fs_past s" and x: "x \<in> since n s"
  then have "n \<le> length (fs_past s)" by (cases "n \<le> length (fs_past s)") (simp_all add: since_def)
  then have "length (fs_past s') + 1 - n = Suc (length (fs_past s) + 1 - n)" using past by simp
  then show "x \<in> since n s'" using x past by (simp add: since_def)
qed

lemma flags_ok_later:
  assumes ok: "flags_ok s" and l: "later_than s s'" and k: "fs_known s' \<le> length (fs_past s')"
    and v: "\<And>version rows. rd_value (fs_redis s') = Some (version, rows) \<Longrightarrow> rd_value (fs_redis s) = Some (version, rows) \<or> fill_ok s version rows"
    and f: "\<And>r. r \<in> set (fs_flight s') \<Longrightarrow> r \<in> set (fs_flight s) \<or> request_ok s r"
    and a: "\<And>known rows. (known, rows) \<in> set (fs_answers s') \<Longrightarrow> (known, rows) \<in> set (fs_answers s) \<or> rows \<in> since known s"
  shows "flags_ok s'"
proof -
  have "fill_ok s' version rows" if "rd_value (fs_redis s') = Some (version, rows)" for version rows
    using v [OF that] ok fill_ok_later [OF l] by (auto simp: flags_ok_def)
  moreover have "request_ok s' r" if "r \<in> set (fs_flight s')" for r
    using f [OF that] ok request_ok_later [OF l] by (auto simp: flags_ok_def)
  moreover have "rows \<in> since known s'" if "(known, rows) \<in> set (fs_answers s')" for known rows
  proof -
    have "since known s \<subseteq> since known s'" using l unfolding later_than_def by simp
    moreover have "rows \<in> since known s" using a [OF that] ok by (auto simp: flags_ok_def)
    ultimately show ?thesis by (rule subsetD)
  qed
  ultimately show ?thesis using k by (auto simp: flags_ok_def)
qed

lemma flags_later_same:
  "fs_past s' = fs_past s \<Longrightarrow> fs_table s' = fs_table s \<Longrightarrow> fs_known s' = fs_known s \<Longrightarrow>
     rd_counter (fs_redis s') = rd_counter (fs_redis s) \<Longrightarrow> later_than s s'"
  unfolding later_than_def using since_same [of s' s] by (simp add: counter_version_def)

lemma flag_step_ok: "flag_step s s' \<Longrightarrow> flags_ok s \<Longrightarrow> flags_ok s'"
proof (induction rule: flag_step.induct)
  case (hit s rows)
  have k: "fs_known s \<le> length (fs_past s)" using hit.prems by (simp add: flags_ok_def)
  have "rows \<in> since (fs_known s) s" using hit
    by (auto simp: flags_ok_def fill_ok_def cache_read_def split: option.splits if_splits)
  with k show ?case by (intro flags_ok_later [OF hit.prems]) (auto simp: flags_later_same)
next
  case (missed s version)
  then have k: "fs_known s \<le> length (fs_past s)" by (simp add: flags_ok_def)
  have "version \<le> counter_version (fs_redis s)" using missed.hyps by (auto simp: cache_read_def split: option.splits if_splits)
  with k show ?case by (intro flags_ok_later [OF missed.prems]) (auto simp: flags_later_same)
next
  case (lookup_failed s)
  then have "fs_known s \<le> length (fs_past s)" by (simp add: flags_ok_def)
  then show ?case by (intro flags_ok_later [OF lookup_failed]) (auto simp: flags_later_same since_now)
next
  case (loaded known version s)
  then have k: "fs_known s \<le> length (fs_past s)" and r: "request_ok s (Missed known version)"
    by (auto simp: flags_ok_def simp del: request_ok.simps)
  then have "request_ok s (Loaded known version (rows_of s))" by (simp add: fill_ok_def since_now)
  then show ?case using k by (intro flags_ok_later [OF loaded.prems]) (auto simp: flags_later_same)
next
  case (filled known version rows s)
  then have "request_ok s (Loaded known version rows)" and k: "fs_known s \<le> length (fs_past s)"
    by (auto simp: flags_ok_def simp del: request_ok.simps)
  then show ?case using k by (intro flags_ok_later [OF filled.prems]) (auto simp: flags_later_same cache_write_def)
next
  case (fill_failed known version rows s)
  then have "request_ok s (Loaded known version rows)" and k: "fs_known s \<le> length (fs_past s)"
    by (auto simp: flags_ok_def simp del: request_ok.simps)
  then show ?case using k by (intro flags_ok_later [OF fill_failed.prems]) (auto simp: flags_later_same)
next
  case (written now key patch s table)
  then have "fs_known s \<le> length (fs_past s)" by (simp add: flags_ok_def)
  then show ?case
    by (intro flags_ok_later [OF written.prems]) (auto simp: later_than_def since_written intro: subsetD [OF since_written])
next
  case (invalidated s)
  then have "fs_known s \<le> length (fs_past s)" by (simp add: flags_ok_def)
  then show ?case
    by (intro flags_ok_later [OF invalidated]) (auto simp: later_than_def since_def rows_of_def cache_invalidate_def counter_version_def)
next
  case (expired s)
  then have "fs_known s \<le> length (fs_past s)" by (simp add: flags_ok_def)
  then show ?case by (intro flags_ok_later [OF expired]) (auto simp: flags_later_same)
qed

lemma reachable_flags_ok: "flags_reachable table s \<Longrightarrow> flags_ok s"
proof (induction rule: flags_reachable.induct)
  case cold
  show ?case by (simp add: cold_service_def flags_ok_def)
next
  case (step s s')
  from step.hyps(2) step.IH show ?case by (rule flag_step_ok)
qed

text \<open>
  C36. A toggle is immediate for the whole fleet. However lookups, reads of the table, late fills, writes, invalidations and
  expiries of any number of processes interleave, a read that begins after a successful invalidation
  gets the rows of the table as it was after every write that invalidation covers, or later; a
  fill that was overtaken is never read.
\<close>

theorem flag_toggle_is_immediate:
  assumes "flags_reachable table s" and "(known, rows) \<in> set (fs_answers s)"
  shows "rows \<in> set (take (length (fs_past s) + 1 - known) (readFlagRows (fs_table s) # fs_past s))"
  using reachable_flags_ok [OF assms(1)] assms(2) by (auto simp: flags_ok_def since_def rows_of_def)

definition ten_percent :: flag_row where
  "ten_percent = \<lparr>fl_key = ''realtime.websocket_push'', fl_enabled = True, fl_rolloutPercent = 10, fl_updatedAt = 9\<rparr>"

text \<open>A lookup misses, a toggle lands and invalidates, the overtaken fill arrives last: the next lookup misses.\<close>

definition overtaken_fill :: flag_service where
  "overtaken_fill =
     \<lparr>fs_table = [ten_percent], fs_past = [seeded_flags],
      fs_redis = \<lparr>rd_value = Some (0, seeded_flags), rd_counter = Some 1\<rparr>,
      fs_flight = [Loaded 0 0 seeded_flags, Missed 0 0], fs_known = 1, fs_answers = [(0, seeded_flags)]\<rparr>"

lemma read_seeded: "readFlagRows seeded_flags = seeded_flags" "readFlagRows [ten_percent] = [ten_percent]"
  by (simp_all add: readFlagRows_def seeded_flags_def ten_percent_def FEATURE_FLAG_KEYS_def)

lemma overtaken_fill_reached: "flags_reachable seeded_flags overtaken_fill"
proof -
  note defs = cache_read_def cache_write_def cache_invalidate_def counter_version_def NO_VERSION_def rows_of_def read_seeded
  let ?s1 = "(cold_service seeded_flags)\<lparr>fs_flight := [Missed 0 0]\<rparr>"
  let ?s2 = "?s1\<lparr>fs_flight := [Loaded 0 0 seeded_flags, Missed 0 0]\<rparr>"
  let ?s3 = "?s2\<lparr>fs_table := [ten_percent], fs_past := [seeded_flags]\<rparr>"
  let ?s4 = "?s3\<lparr>fs_redis := \<lparr>rd_value = None, rd_counter = Some 1\<rparr>, fs_known := 1\<rparr>"
  have "flag_step (cold_service seeded_flags) ?s1"
    using flag_step.missed [of "cold_service seeded_flags" 0] by (simp add: cold_service_def defs)
  then have r1: "flags_reachable seeded_flags ?s1" using flags_reachable.cold by (rule flags_reachable.step [rotated])
  have "flag_step ?s1 ?s2" using flag_step.loaded [of 0 0 ?s1] by (simp add: cold_service_def defs)
  with r1 have r2: "flags_reachable seeded_flags ?s2" by (rule flags_reachable.step)
  have "flagRoute 9 ''realtime.websocket_push'' \<lparr>fp_enabled = None, fp_rolloutPercent = Some 10\<rparr> seeded_flags = Some [ten_percent]"
    by (simp add: flagRoute_def FEATURE_FLAG_KEYS_def patchBody_def writeFlag_def update_where_def seeded_flags_def ten_percent_def)
  then have "flag_step ?s2 ?s3"
    using flag_step.written [of 9 "''realtime.websocket_push''" "\<lparr>fp_enabled = None, fp_rolloutPercent = Some 10\<rparr>" ?s2]
    by (simp add: cold_service_def defs)
  with r2 have r3: "flags_reachable seeded_flags ?s3" by (rule flags_reachable.step)
  have "flag_step ?s3 ?s4" using flag_step.invalidated [of ?s3] by (simp add: cold_service_def defs)
  with r3 have r4: "flags_reachable seeded_flags ?s4" by (rule flags_reachable.step)
  have "flag_step ?s4 overtaken_fill"
    using flag_step.filled [of 0 0 seeded_flags ?s4] by (simp add: cold_service_def overtaken_fill_def defs)
  with r4 show ?thesis by (rule flags_reachable.step)
qed

theorem flag_toggle_is_immediate_witness:
  "cache_read (fs_redis overtaken_fill) = Miss 1
   \<and> [ten_percent] \<in> set (take 1 (readFlagRows (fs_table overtaken_fill) # fs_past overtaken_fill))"
proof -
  let ?s = "overtaken_fill\<lparr>fs_answers := (1, [ten_percent]) # fs_answers overtaken_fill\<rparr>"
  have "flag_step overtaken_fill ?s"
    using flag_step.lookup_failed [of overtaken_fill] by (simp add: rows_of_def overtaken_fill_def read_seeded)
  with overtaken_fill_reached have "flags_reachable seeded_flags ?s" by (rule flags_reachable.step)
  then have "[ten_percent] \<in> set (take (length (fs_past ?s) + 1 - 1) (readFlagRows (fs_table ?s) # fs_past ?s))"
    by (rule flag_toggle_is_immediate) simp
  then show ?thesis by (simp add: overtaken_fill_def cache_read_def counter_version_def)
qed

end
