(* ===== verification/Pos_Screen.thy ===== *)
theory Pos_Screen
  imports Client_Queue
begin

text \<open>
  What the point-of-sale screen renders of the projection, \<open>apps/web/src/domain/pos-screen.ts\<close>: the menu and
  its tiles, the actions on offer, the conflict headline and the covers.

  The rules of the domain are what these functions anticipate: an action is on offer when \<open>decide\<close> would
  apply it, and a tile shows the quantity the order already holds.
\<close>

section \<open>The menu\<close>

record menu_tile =
  mt_id :: string
  mt_name :: string
  mt_priceCents :: int
  mt_count :: int

definition menuFor :: "menu_item list \<Rightarrow> terminal_profile \<Rightarrow> menu_item list" where
  "menuFor items profile =
     (if profile \<noteq> bar then items
      else let drinks = filter (\<lambda>item. menu_id item \<in> set BAR_MENU) items in
           if drinks \<noteq> [] then drinks else items)"

text \<open>A JavaScript \<open>Map\<close> keeps the last entry of a key.\<close>

definition counts_of :: "order_snapshot option \<Rightarrow> string \<Rightarrow> int option" where
  "counts_of order =
     map_of (rev (map (\<lambda>line. (item_productId line, item_quantity line))
                    (case order of None \<Rightarrow> [] | Some s \<Rightarrow> snap_items s)))"

definition menuTiles :: "menu_item list \<Rightarrow> terminal_profile \<Rightarrow> order_snapshot option \<Rightarrow> menu_tile list" where
  "menuTiles items profile order =
     map (\<lambda>item. \<lparr>mt_id = menu_id item, mt_name = menu_name item, mt_priceCents = menu_priceCents item,
                   mt_count = (case counts_of order (menu_id item) of None \<Rightarrow> 0 | Some n \<Rightarrow> n)\<rparr>)
       (menuFor items profile)"

section \<open>The actions\<close>

record affordances_of =
  af_order :: bool
  af_pay :: bool
  af_cancel :: bool
  af_send :: bool

definition affordances :: "order_snapshot option \<Rightarrow> bool \<Rightarrow> affordances_of" where
  "affordances order is_halted =
     (case order of
        None \<Rightarrow> \<lparr>af_order = False, af_pay = False, af_cancel = False, af_send = False\<rparr>
      | Some s \<Rightarrow>
          if is_halted then \<lparr>af_order = False, af_pay = False, af_cancel = False, af_send = False\<rparr>
          else \<lparr>af_order = (snap_status s = OPEN),
                af_pay = (snap_status s = OPEN \<or> snap_status s = READY),
                af_cancel = (snap_status s \<noteq> PAID \<and> snap_status s \<noteq> CANCELLED),
                af_send = (snap_status s = OPEN \<and> 0 < length (snap_items s))\<rparr>)"

section \<open>The conflict headline and the covers\<close>

record conflict_headline =
  ch_reason :: conflict_reason
  ch_mutationType :: "mutation_type option"
  ch_clientBaseVersion :: int
  ch_serverVersion :: int
  ch_blockedCount :: nat

definition conflictHeadline ::
  "(conflict_reason \<times> int \<times> int) option \<Rightarrow> pending_row list \<Rightarrow> conflict_headline option" where
  "conflictHeadline conflict queue =
     (case conflict of
        None \<Rightarrow> None
      | Some (reason, clientBaseVersion, serverVersion) \<Rightarrow>
          Some \<lparr>ch_reason = reason,
                ch_mutationType = map_option (\<lambda>row. mutation_type_of (pn_command row))
                  (find (\<lambda>row. pn_status row = pending_status.CONFLICT) queue),
                ch_clientBaseVersion = clientBaseVersion, ch_serverVersion = serverVersion,
                ch_blockedCount = length (filter (\<lambda>row. pn_status row = BLOCKED) queue)\<rparr>)"

definition coversFor :: "terminal_profile \<Rightarrow> string list" where
  "coversFor profile =
     (if profile = bar then [''1'', ''2'', ''3'', ''4'', ''5'', ''6'']
      else [''1'', ''2'', ''3'', ''4'', ''5'', ''6'', ''11'', ''12''])"

definition coverNoun :: "terminal_profile \<Rightarrow> string" where
  "coverNoun profile = (if profile = bar then ''Tab'' else ''Table'')"

section \<open>The screen and the rules\<close>

lemma menuFor_nonempty: "menuFor items profile = [] \<longleftrightarrow> items = []"
  by (auto simp: menuFor_def Let_def)

lemma counts_of_distinct:
  "distinct (map item_productId items) \<Longrightarrow> snap_items s = items \<Longrightarrow>
     counts_of (Some s) p = map_option item_quantity (held_line items p)"
proof (induction items arbitrary: s)
  case Nil
  then show ?case by (simp add: counts_of_def held_line_def)
next
  case (Cons i items)
  have "counts_of (Some (s\<lparr>snap_items := items\<rparr>)) p = map_option item_quantity (held_line items p)"
    using Cons.prems by (intro Cons.IH) simp_all
  moreover have "held_line items (item_productId i) = None" using Cons.prems by (auto simp: held_line_None)
  ultimately show ?case using Cons.prems(2)
    by (cases "item_productId i = p") (auto simp: counts_of_def held_line_def map_add_def split: option.splits)
qed

lemma held_line_after_add:
  assumes "projected_items lookup (AddItem p q) items = Some items'"
  shows "map_option item_quantity (held_line items' x) =
    (if x = p then Some (q + (case held_line items p of None \<Rightarrow> 0 | Some i \<Rightarrow> item_quantity i))
     else map_option item_quantity (held_line items x))"
proof (cases "held_line items p")
  case None
  then have i: "items' = items @ [\<lparr>item_productId = p, item_name = (case lookup p of None \<Rightarrow> p | Some m \<Rightarrow> menu_name m),
      item_quantity = q, item_unitPriceCents = (case lookup p of None \<Rightarrow> 0 | Some m \<Rightarrow> menu_priceCents m)\<rparr>]"
    using assms by simp
  have "find P (xs @ [y]) = (case find P xs of None \<Rightarrow> if P y then Some y else None | Some z \<Rightarrow> Some z)"
    for P and xs :: "order_item list" and y by (induction xs) auto
  then show ?thesis using None by (auto simp: i held_line_def split: option.splits)
next
  case (Some l)
  then have i: "items' = map (\<lambda>i. if item_productId i = p then i\<lparr>item_quantity := item_quantity i + q\<rparr> else i) items"
    using assms by simp
  have "held_line (map (\<lambda>i. if item_productId i = p then i\<lparr>item_quantity := item_quantity i + q\<rparr> else i) xs) x =
      map_option (\<lambda>i. if item_productId i = p then i\<lparr>item_quantity := item_quantity i + q\<rparr> else i) (held_line xs x)" for xs
    by (induction xs) (auto simp: held_line_def)
  with Some held_line_Some [of items p l] held_line_Some [of items x] show ?thesis
    by (cases "held_line items x"; cases "x = p") (auto simp: i)
qed

lemma distinct_after_add:
  "distinct (map item_productId items) \<Longrightarrow> projected_items lookup (AddItem p q) items = Some items' \<Longrightarrow>
     distinct (map item_productId items')"
  by (auto simp: held_line_None o_def if_distrib cong: if_cong split: option.splits)

text \<open>
  C38. The screen offers what the rules accept. Adding, paying and cancelling are on offer exactly when \<open>decide\<close> would
  apply them to the projected order, sending exactly when it would and there is something to send, and
  nothing is on offer without an order or while it is halted. While adding is on offer, one tap on a tile raises the count
  on that tile by the quantity and changes no other tile.
\<close>

theorem screen_offers_what_the_rules_accept:
  assumes "distinct (map item_productId (snap_items s))" and "pn_command row = AddItem p q"
  shows "(af_order (affordances (Some s) h) \<longleftrightarrow> \<not> h \<and> decide (Some s) (AddItem p q) = Inr (Apply (snap_status s)))
    \<and> (af_pay (affordances (Some s) h) \<longleftrightarrow> \<not> h \<and> decide (Some s) (Pay m) = Inr (Apply PAID))
    \<and> (af_cancel (affordances (Some s) h) \<longleftrightarrow> \<not> h \<and> decide (Some s) (Cancel r) = Inr (Apply CANCELLED))
    \<and> (af_send (affordances (Some s) h) \<longleftrightarrow>
         \<not> h \<and> decide (Some s) SendToKitchen = Inr (Apply SENT_TO_KITCHEN) \<and> snap_items s \<noteq> [])
    \<and> affordances None h = \<lparr>af_order = False, af_pay = False, af_cancel = False, af_send = False\<rparr>
    \<and> (af_order (affordances (Some s) h) \<longrightarrow>
         menuTiles items profile (applyOne lookup row (Some s)) =
           map (\<lambda>t. if mt_id t = p then t\<lparr>mt_count := mt_count t + q\<rparr> else t) (menuTiles items profile (Some s)))"
proof -
  have tiles: "menuTiles items profile (applyOne lookup row (Some s)) =
      map (\<lambda>t. if mt_id t = p then t\<lparr>mt_count := mt_count t + q\<rparr> else t) (menuTiles items profile (Some s))"
    if "snap_status s = OPEN"
  proof -
    from that have "decide (Some s) (commandOf row) = Inr (Apply OPEN)"
      using assms(2) by (simp add: commandOf_def decide_apply_iff)
    moreover obtain items' where i: "projected_items lookup (AddItem p q) (snap_items s) = Some items'"
      by (cases "held_line (snap_items s) p") simp_all
    ultimately obtain s' where s': "applyOne lookup row (Some s) = Some s'" and it: "snap_items s' = items'"
      using assms(2) by (simp add: applyOne_def withItems_def Let_def del: projected_items.simps)
    have "counts_of (Some s') x =
        (if x = p then Some (q + (case held_line (snap_items s) p of None \<Rightarrow> 0 | Some i \<Rightarrow> item_quantity i))
         else counts_of (Some s) x)" for x
      using counts_of_distinct [OF distinct_after_add [OF assms(1) i] it, of x]
        counts_of_distinct [OF assms(1) refl, of x] held_line_after_add [OF i, of x] by simp
    moreover have "counts_of (Some s) p = map_option item_quantity (held_line (snap_items s) p)"
      using assms(1) by (intro counts_of_distinct) simp_all
    ultimately show ?thesis by (auto simp: s' menuTiles_def split: option.splits)
  qed
  then show ?thesis by (auto simp: affordances_def decide_apply_iff)
qed

definition table_of_one :: order_snapshot where
  "table_of_one =
     \<lparr>snap_id = ''o1'', snap_restaurantId = ''demo-restaurant'', snap_tableNumber = ''5'', snap_status = OPEN,
      snap_version = 2, snap_totalCents = 300,
      snap_items = [\<lparr>item_productId = ''cola'', item_name = ''Cola'', item_quantity = 1, item_unitPriceCents = 300\<rparr>],
      snap_createdAt = 0, snap_updatedAt = 0\<rparr>"

definition cola_tap :: pending_row where
  "cola_tap =
     \<lparr>pn_mutationId = ''m1'', pn_restaurantId = ''demo-restaurant'', pn_terminalId = ''bar-1'', pn_orderId = ''o1'',
      pn_baseVersion = 2, pn_command = AddItem ''cola'' 2, pn_createdAt = 1, pn_status = PENDING\<rparr>"

theorem screen_offers_what_the_rules_accept_witness:
  "af_order (affordances (Some table_of_one) False)
   \<and> map mt_count (menuTiles [\<lparr>menu_id = ''cola'', menu_name = ''Cola'', menu_priceCents = 300\<rparr>] bar
       (applyOne (menuLookup []) cola_tap (Some table_of_one))) = [3]"
proof -
  let ?menu = "[\<lparr>menu_id = ''cola'', menu_name = ''Cola'', menu_priceCents = 300\<rparr>]"
  have "af_order (affordances (Some table_of_one) False)" by (simp add: affordances_def table_of_one_def)
  moreover have "distinct (map item_productId (snap_items table_of_one))" "pn_command cola_tap = AddItem ''cola'' 2"
    by (simp_all add: table_of_one_def cola_tap_def)
  note screen_offers_what_the_rules_accept [OF this, of False undefined undefined ?menu bar "menuLookup []"]
  ultimately have "menuTiles ?menu bar (applyOne (menuLookup []) cola_tap (Some table_of_one)) =
      map (\<lambda>t. if mt_id t = ''cola'' then t\<lparr>mt_count := mt_count t + 2\<rparr> else t) (menuTiles ?menu bar (Some table_of_one))"
    and "af_order (affordances (Some table_of_one) False)" by blast+
  then show ?thesis by (simp add: menuTiles_def menuFor_def BAR_MENU_def counts_of_def) (simp add: table_of_one_def)
qed

end
