(* ===== verification/Realtime_Client.thy ===== *)
theory Realtime_Client
  imports Contracts "HOL-Library.Multiset"
begin

text \<open>
  The browser's side of realtime delivery, \<open>apps/web/src/realtime\<close>: the gate that judges an event
  (\<open>event-gate.ts\<close>), the bounded wait for a projection that lags (\<open>refetch-until.ts\<close>) and the loader that folds
  concurrent demands into rounds of reads (\<open>coalescing-loader.ts\<close>).

  The loader is asynchronous: its operations are the pieces of it between two \<open>await\<close>s, and a step relation interleaves
  them with calls of \<open>run\<close>. The last piece is the callback of \<open>finally\<close>, which runs after the loop has ended.
\<close>

section \<open>The event gate\<close>

datatype gate_verdict = Accepted | Duplicate | Stale

record event_gate =
  eg_seen :: "uuid set"
  eg_order :: "uuid list"

definition historyLimit :: nat where
  "historyLimit = 500"

definition createEventGate :: event_gate where
  "createEventGate = \<lparr>eg_seen = {}, eg_order = []\<rparr>"

function evict :: "nat \<Rightarrow> event_gate \<Rightarrow> event_gate" where
  "evict limit g =
     (if limit < length (eg_order g)
      then evict limit (g\<lparr>eg_order := tl (eg_order g), eg_seen := eg_seen g - {hd (eg_order g)}\<rparr>)
      else g)"
  by auto
termination by (relation "measure (\<lambda>(limit, g). length (eg_order g))") auto

declare evict.simps [simp del]

definition gate_accept :: "nat \<Rightarrow> domain_event \<Rightarrow> int \<Rightarrow> event_gate \<Rightarrow> gate_verdict \<times> event_gate" where
  "gate_accept limit e heldVersion g =
     (if ev_eventId e \<in> eg_seen g then (Duplicate, g)
      else (if heldVersion < ev_version e then Accepted else Stale,
            evict limit (g\<lparr>eg_seen := insert (ev_eventId e) (eg_seen g), eg_order := eg_order g @ [ev_eventId e]\<rparr>)))"

definition gate_ok :: "nat \<Rightarrow> event_gate \<Rightarrow> bool" where
  "gate_ok limit g \<longleftrightarrow> distinct (eg_order g) \<and> eg_seen g = set (eg_order g) \<and> length (eg_order g) \<le> limit"

lemma evict_drop:
  "distinct (eg_order g) \<Longrightarrow> eg_seen g = set (eg_order g) \<Longrightarrow>
     evict limit g =
       \<lparr>eg_seen = set (drop (length (eg_order g) - limit) (eg_order g)),
        eg_order = drop (length (eg_order g) - limit) (eg_order g)\<rparr>"
proof (induction limit g rule: evict.induct)
  case (1 limit g)
  show ?case
  proof (cases "limit < length (eg_order g)")
    case False
    then show ?thesis using 1 by (simp add: evict.simps [of limit g])
  next
    case True
    then obtain i ids where o: "eg_order g = i # ids" by (cases "eg_order g") auto
    have "set ids - {i} = set ids" using 1 o by simp
    with True o 1 show ?thesis
      by (simp add: evict.simps [of limit g] Suc_diff_le insert_Diff_if)
  qed
qed

lemma gate_accept_ok: "gate_ok limit g \<Longrightarrow> gate_ok limit (snd (gate_accept limit e v g))"
  by (auto simp: gate_ok_def gate_accept_def evict_drop distinct_drop simp del: drop_append)

text \<open>An id is remembered until \<open>limit\<close> other ids have been seen since.\<close>

lemma gate_remembers:
  assumes "gate_ok limit g" and "0 < limit"
  shows "eg_order (snd (gate_accept limit e v g)) =
      (if ev_eventId e \<in> set (eg_order g) then eg_order g
       else drop (length (eg_order g) + 1 - limit) (eg_order g) @ [ev_eventId e])"
    and "fst (gate_accept limit e w (snd (gate_accept limit e v g))) = Duplicate"
proof -
  show o: "eg_order (snd (gate_accept limit e v g)) =
      (if ev_eventId e \<in> set (eg_order g) then eg_order g
       else drop (length (eg_order g) + 1 - limit) (eg_order g) @ [ev_eventId e])"
    using assms by (auto simp: gate_accept_def gate_ok_def evict_drop)
  have "gate_ok limit (snd (gate_accept limit e v g))" using assms(1) by (rule gate_accept_ok)
  then have "ev_eventId e \<in> eg_seen (snd (gate_accept limit e v g))" using o by (auto simp: gate_ok_def split: if_splits)
  then show "fst (gate_accept limit e w (snd (gate_accept limit e v g))) = Duplicate"
    by (simp add: gate_accept_def [of limit e w])
qed

section \<open>Reading until a value accounts for what was told\<close>

record ('t, 'x) refetch_state =
  rf_attempt :: nat
  rf_value :: "'t option"
  rf_lastError :: "'x option"

datatype ('t, 'x) refetch_result = Outcome 't bool nat | Threw "'x option"

datatype ('t, 'x) refetch_next = ReadAgain "('t, 'x) refetch_state" | Stop "('t, 'x) refetch_result"

definition refetch_attempts :: "nat option \<Rightarrow> nat" where
  "refetch_attempts n = max 1 (case n of None \<Rightarrow> 5 | Some k \<Rightarrow> k)"

definition refetch_delay :: "nat option \<Rightarrow> nat \<Rightarrow> nat" where
  "refetch_delay delayMs attempt = (case delayMs of None \<Rightarrow> 150 | Some d \<Rightarrow> d) * attempt"

definition refetch_start :: "('t, 'x) refetch_state" where
  "refetch_start = \<lparr>rf_attempt = 0, rf_value = None, rf_lastError = None\<rparr>"

definition refetch_exhausted :: "nat \<Rightarrow> ('t \<Rightarrow> bool) \<Rightarrow> ('t, 'x) refetch_state \<Rightarrow> ('t, 'x) refetch_result" where
  "refetch_exhausted attempts ok r =
     (case rf_value r of
        None \<Rightarrow> Threw (rf_lastError r)
      | Some v \<Rightarrow> Outcome v (rf_lastError r = None \<and> ok v) attempts)"

definition refetch_again :: "nat \<Rightarrow> ('t \<Rightarrow> bool) \<Rightarrow> ('t, 'x) refetch_state \<Rightarrow> ('t, 'x) refetch_next" where
  "refetch_again attempts ok r =
     (if rf_attempt r + 1 < attempts then ReadAgain (r\<lparr>rf_attempt := rf_attempt r + 1\<rparr>)
      else Stop (refetch_exhausted attempts ok r))"

text \<open>The body of the loop, once the read of this attempt has settled.\<close>

definition refetch_settle :: "nat \<Rightarrow> ('t \<Rightarrow> bool) \<Rightarrow> 'x + 't \<Rightarrow> ('t, 'x) refetch_state \<Rightarrow> ('t, 'x) refetch_next" where
  "refetch_settle attempts ok res r =
     (case res of
        Inr v \<Rightarrow>
          if ok v then Stop (Outcome v True (rf_attempt r + 1))
          else refetch_again attempts ok (r\<lparr>rf_value := Some v, rf_lastError := None\<rparr>)
      | Inl x \<Rightarrow> refetch_again attempts ok (r\<lparr>rf_lastError := Some x\<rparr>))"

function refetch_loop :: "nat \<Rightarrow> ('t \<Rightarrow> bool) \<Rightarrow> (nat \<Rightarrow> 'x + 't) \<Rightarrow> ('t, 'x) refetch_state \<Rightarrow> ('t, 'x) refetch_result" where
  "refetch_loop attempts ok reads r =
     (case refetch_settle attempts ok (reads (rf_attempt r)) r of
        Stop out \<Rightarrow> out
      | ReadAgain r' \<Rightarrow> refetch_loop attempts ok reads r')"
  by auto
termination
  by (relation "measure (\<lambda>(attempts, ok, reads, r). attempts - rf_attempt r)")
    (auto simp: refetch_settle_def refetch_again_def split: sum.splits if_splits)

declare refetch_loop.simps [simp del]

definition refetchUntil :: "nat \<Rightarrow> ('t \<Rightarrow> bool) \<Rightarrow> (nat \<Rightarrow> 'x + 't) \<Rightarrow> ('t, 'x) refetch_result" where
  "refetchUntil attempts ok reads = refetch_loop attempts ok reads refetch_start"

text \<open>The first read that satisfies wins; without one, the freshest value that was read, reported as lagging.\<close>

definition good_read :: "('t \<Rightarrow> bool) \<Rightarrow> 'x + 't \<Rightarrow> bool" where
  "good_read ok res \<longleftrightarrow> (case res of Inl _ \<Rightarrow> False | Inr v \<Rightarrow> ok v)"

definition freshest :: "('x + 't) list \<Rightarrow> 't option" where
  "freshest rs = (case filter (\<lambda>r. \<not> isl r) (rev rs) of [] \<Rightarrow> None | r # _ \<Rightarrow> Some (projr r))"

lemma freshest_snoc:
  "freshest [] = None" "freshest (rs @ [Inl x]) = freshest rs" "freshest (rs @ [Inr v]) = Some v"
  by (simp_all add: freshest_def)

lemma freshest_cases: "case freshest rs of None \<Rightarrow> \<forall>r \<in> set rs. isl r | Some v \<Rightarrow> Inr v \<in> set rs"
proof (induction rs rule: rev_induct)
  case Nil
  show ?case by (simp add: freshest_snoc)
next
  case (snoc r rs)
  then show ?case by (cases r) (auto simp: freshest_snoc split: option.splits)
qed

definition refetch_correct ::
  "nat \<Rightarrow> ('t \<Rightarrow> bool) \<Rightarrow> (nat \<Rightarrow> 'x + 't) \<Rightarrow> ('t, 'x) refetch_result \<Rightarrow> bool" where
  "refetch_correct attempts ok reads out \<longleftrightarrow>
     (case out of
        Outcome v converged n \<Rightarrow>
          if converged
          then 0 < n \<and> n \<le> attempts \<and> reads (n - 1) = Inr v \<and> ok v \<and> (\<forall>k < n - 1. \<not> good_read ok (reads k))
          else n = attempts \<and> freshest (map reads [0..<attempts]) = Some v \<and> (\<forall>k < attempts. \<not> good_read ok (reads k))
      | Threw _ \<Rightarrow> \<forall>k < attempts. isl (reads k))"

lemma refetch_exhausted_correct:
  assumes "rf_value r = freshest (map reads [0..<attempts])" and bad: "\<forall>k < attempts. \<not> good_read ok (reads k)"
  shows "refetch_correct attempts ok reads (refetch_exhausted attempts ok r)"
proof (cases "rf_value r")
  case None
  then show ?thesis using freshest_cases [of "map reads [0..<attempts]"] assms(1)
    by (simp add: refetch_exhausted_def refetch_correct_def)
next
  case (Some v)
  then have "Inr v \<in> set (map reads [0..<attempts])"
    using freshest_cases [of "map reads [0..<attempts]"] assms(1) by simp
  with bad have "\<not> ok v" by (auto simp: good_read_def split: sum.splits)
  with Some assms show ?thesis by (simp add: refetch_exhausted_def refetch_correct_def)
qed

lemma refetch_loop_correct:
  assumes "rf_attempt r < attempts" and "rf_value r = freshest (map reads [0..<rf_attempt r])"
    and "\<forall>k < rf_attempt r. \<not> good_read ok (reads k)"
  shows "refetch_correct attempts ok reads (refetch_loop attempts ok reads r)"
  using assms
proof (induction attempts ok reads r rule: refetch_loop.induct)
  case (1 attempts ok reads r)
  show ?case
  proof (cases "good_read ok (reads (rf_attempt r))")
    case True
    then obtain v where "reads (rf_attempt r) = Inr v" "ok v" by (auto simp: good_read_def split: sum.splits)
    then show ?thesis using 1 by (simp add: refetch_loop.simps [of attempts ok reads r] refetch_settle_def refetch_correct_def)
  next
    case False
    define r0 where "r0 = (case reads (rf_attempt r) of Inl x \<Rightarrow> r\<lparr>rf_lastError := Some x\<rparr>
      | Inr v \<Rightarrow> r\<lparr>rf_value := Some v, rf_lastError := None\<rparr>)"
    have settle: "refetch_settle attempts ok (reads (rf_attempt r)) r = refetch_again attempts ok r0"
      using False by (auto simp: refetch_settle_def r0_def good_read_def split: sum.splits)
    have r0: "rf_attempt r0 = rf_attempt r" "rf_value r0 = freshest (map reads [0..<Suc (rf_attempt r)])"
      using 1(3) by (auto simp: r0_def freshest_snoc split: sum.splits)
    have bad: "\<forall>k < Suc (rf_attempt r). \<not> good_read ok (reads k)" using 1(4) False less_Suc_eq by auto
    show ?thesis
    proof (cases "Suc (rf_attempt r) < attempts")
      case True
      then have again: "refetch_settle attempts ok (reads (rf_attempt r)) r = ReadAgain (r0\<lparr>rf_attempt := Suc (rf_attempt r)\<rparr>)"
        by (simp add: settle refetch_again_def r0)
      have "refetch_correct attempts ok reads (refetch_loop attempts ok reads (r0\<lparr>rf_attempt := Suc (rf_attempt r)\<rparr>))"
        using again True r0 bad by (intro 1(1)) simp_all
      then show ?thesis by (simp add: refetch_loop.simps [of attempts ok reads r] again)
    next
      case end_reached: False
      then have a: "Suc (rf_attempt r) = attempts" using 1(2) by simp
      have "refetch_loop attempts ok reads r = refetch_exhausted attempts ok r0"
        using end_reached by (simp add: refetch_loop.simps [of attempts ok reads r] settle refetch_again_def r0)
      then show ?thesis using refetch_exhausted_correct [of r0 reads attempts ok] r0(2) bad by (simp add: a)
    qed
  qed
qed

lemma refetchUntil_correct: "0 < attempts \<Longrightarrow> refetch_correct attempts ok reads (refetchUntil attempts ok reads)"
  unfolding refetchUntil_def by (rule refetch_loop_correct) (simp_all add: refetch_start_def freshest_snoc)

section \<open>The coalescing loader\<close>

datatype ('e, 't, 'x) loader_phase =
    Idle
  | Reading "'e list" "('t, 'x) refetch_state"
  | Sleeping "'e list" "('t, 'x) refetch_state"
  | Returned "'e list" "('t, 'x) refetch_result"
  | Finishing

record ('e, 't, 'x) loader =
  ld_queued :: "'e list"
  ld_again :: bool
  ld_phase :: "('e, 't, 'x) loader_phase"

definition createCoalescingLoader :: "('e, 't, 'x) loader" where
  "createCoalescingLoader = \<lparr>ld_queued = [], ld_again = False, ld_phase = Idle\<rparr>"

text \<open>The head of the loop: the batch is taken and the first read of the round is issued.\<close>

definition load_begin :: "('e, 't, 'x) loader \<Rightarrow> ('e, 't, 'x) loader" where
  "load_begin l = l\<lparr>ld_again := False, ld_queued := [], ld_phase := Reading (ld_queued l) refetch_start\<rparr>"

definition load_run :: "'e option \<Rightarrow> ('e, 't, 'x) loader \<Rightarrow> ('e, 't, 'x) loader" where
  "load_run expectation l =
     (let l' = (case expectation of None \<Rightarrow> l | Some e \<Rightarrow> l\<lparr>ld_queued := ld_queued l @ [e]\<rparr>) in
      case ld_phase l' of
        Idle \<Rightarrow> load_begin l'
      | _ \<Rightarrow> l'\<lparr>ld_again := True\<rparr>)"

text \<open>A read settles; a wait ends and the next read is issued.\<close>

definition load_settle ::
  "nat \<Rightarrow> ('t \<Rightarrow> 'e list \<Rightarrow> bool) \<Rightarrow> 'x + 't \<Rightarrow> ('e, 't, 'x) loader \<Rightarrow> ('e, 't, 'x) loader" where
  "load_settle attempts ok res l =
     (case ld_phase l of
        Reading batch r \<Rightarrow>
          (case refetch_settle attempts (\<lambda>v. ok v batch) res r of
             ReadAgain r' \<Rightarrow> l\<lparr>ld_phase := Sleeping batch r'\<rparr>
           | Stop out \<Rightarrow> l\<lparr>ld_phase := Returned batch out\<rparr>)
      | _ \<Rightarrow> l)"

definition load_wake :: "('e, 't, 'x) loader \<Rightarrow> ('e, 't, 'x) loader" where
  "load_wake l = (case ld_phase l of Sleeping batch r \<Rightarrow> l\<lparr>ld_phase := Reading batch r\<rparr> | _ \<Rightarrow> l)"

text \<open>The round is over: its result is applied or reported, and the loop goes on or ends.\<close>

definition load_resume :: "('e, 't, 'x) loader \<Rightarrow> ('e, 't, 'x) loader" where
  "load_resume l =
     (case ld_phase l of
        Returned batch out \<Rightarrow>
          if ld_again l \<or> 0 < length (ld_queued l) then load_begin l else l\<lparr>ld_phase := Finishing\<rparr>
      | _ \<Rightarrow> l)"

definition load_finally :: "('e, 't, 'x) loader \<Rightarrow> ('e, 't, 'x) loader" where
  "load_finally l = (case ld_phase l of Finishing \<Rightarrow> l\<lparr>ld_phase := Idle\<rparr> | _ \<Rightarrow> l)"

section \<open>The loader at work\<close>

text \<open>
  Reads are numbered from 1 as they are issued; an expectation carries the number of reads issued before it was raised, and a value
  the number of the read it came from. No operation looks at these numbers. \<open>lt_rounds\<close> lists the rounds that ended,
  the latest first, each with its batch and what was applied or reported.
\<close>

record ('e, 't, 'x) loader_trace =
  lt_loader :: "('e \<times> nat, nat \<times> 't, 'x) loader"
  lt_reads :: nat
  lt_raised :: "('e \<times> nat) list"
  lt_rounds :: "(('e \<times> nat) list \<times> (nat \<times> 't, 'x) refetch_result) list"

fun is_reading :: "('e, 't, 'x) loader_phase \<Rightarrow> bool" where
  "is_reading (Reading _ _) = True"
| "is_reading _ = False"

fun batch_of :: "('e, 't, 'x) loader_phase \<Rightarrow> 'e list" where
  "batch_of (Reading batch _) = batch"
| "batch_of (Sleeping batch _) = batch"
| "batch_of (Returned batch _) = batch"
| "batch_of _ = []"

text \<open>The trace after its loader moved: a read was issued if the loader is now reading and was not.\<close>

definition moved :: "('e \<times> nat, nat \<times> 't, 'x) loader \<Rightarrow> ('e, 't, 'x) loader_trace \<Rightarrow> ('e, 't, 'x) loader_trace" where
  "moved l t =
     t\<lparr>lt_loader := l,
       lt_reads := lt_reads t + (if is_reading (ld_phase l) \<and> \<not> is_reading (ld_phase (lt_loader t)) then 1 else 0)\<rparr>"

definition judged_by :: "('t \<Rightarrow> 'e list \<Rightarrow> bool) \<Rightarrow> nat \<times> 't \<Rightarrow> ('e \<times> nat) list \<Rightarrow> bool" where
  "judged_by ok v batch = ok (snd v) (map fst batch)"

inductive loader_step ::
  "nat \<Rightarrow> ('t \<Rightarrow> 'e list \<Rightarrow> bool) \<Rightarrow> ('e, 't, 'x) loader_trace \<Rightarrow> ('e, 't, 'x) loader_trace \<Rightarrow> bool"
  for attempts ok where
  raised: "loader_step attempts ok t
     (moved (load_run (Some (e, lt_reads t)) (lt_loader t)) (t\<lparr>lt_raised := lt_raised t @ [(e, lt_reads t)]\<rparr>))"
| refreshed: "loader_step attempts ok t (moved (load_run None (lt_loader t)) t)"
| answered: "loader_step attempts ok t (moved (load_settle attempts (judged_by ok) (Inr (lt_reads t, v)) (lt_loader t)) t)"
| failed: "loader_step attempts ok t (moved (load_settle attempts (judged_by ok) (Inl x) (lt_loader t)) t)"
| woken: "loader_step attempts ok t (moved (load_wake (lt_loader t)) t)"
| resumed: "ld_phase (lt_loader t) = Returned batch out \<Longrightarrow>
     loader_step attempts ok t (moved (load_resume (lt_loader t)) (t\<lparr>lt_rounds := (batch, out) # lt_rounds t\<rparr>))"
| finalised: "loader_step attempts ok t (moved (load_finally (lt_loader t)) t)"

definition fresh_loader :: "('e, 't, 'x) loader_trace" where
  "fresh_loader = \<lparr>lt_loader = createCoalescingLoader, lt_reads = 0, lt_raised = [], lt_rounds = []\<rparr>"

section \<open>What the loader promises\<close>

fun read_numbers :: "('b \<times> (nat \<times> 't, 'x) refetch_result) list \<Rightarrow> nat list" where
  "read_numbers [] = []"
| "read_numbers ((_, Outcome (k, _) _ _) # rounds) = k # read_numbers rounds"
| "read_numbers ((_, Threw _) # rounds) = read_numbers rounds"

definition later_read :: "('e, 't, 'x) loader_trace \<Rightarrow> ('e \<times> nat) list \<Rightarrow> nat \<Rightarrow> bool" where
  "later_read t batch k \<longleftrightarrow> k \<le> lt_reads t \<and> (\<forall>j \<in> set (read_numbers (lt_rounds t)). j < k) \<and> (\<forall>e \<in> set batch. snd e < k)"

definition value_later :: "('e, 't, 'x) loader_trace \<Rightarrow> ('e \<times> nat) list \<Rightarrow> (nat \<times> 't, 'x) refetch_state \<Rightarrow> bool" where
  "value_later t batch r \<longleftrightarrow> (\<forall>v \<in> set_option (rf_value r). later_read t batch (fst v))"

definition round_ok ::
  "nat \<Rightarrow> ('t \<Rightarrow> 'e list \<Rightarrow> bool) \<Rightarrow> ('e \<times> nat) list \<Rightarrow> (nat \<times> 't, 'x) refetch_result \<Rightarrow> bool" where
  "round_ok attempts ok batch out \<longleftrightarrow>
     (case out of
        Outcome v converged n \<Rightarrow>
          n \<le> attempts \<and> (\<forall>e \<in> set batch. snd e < fst v) \<and> (converged \<longrightarrow> ok (snd v) (map fst batch))
      | Threw _ \<Rightarrow> True)"

definition result_later :: "('e, 't, 'x) loader_trace \<Rightarrow> ('e \<times> nat) list \<Rightarrow> (nat \<times> 't, 'x) refetch_result \<Rightarrow> bool" where
  "result_later t batch out \<longleftrightarrow> (case out of Outcome v _ _ \<Rightarrow> later_read t batch (fst v) | Threw _ \<Rightarrow> True)"

fun phase_ok ::
  "nat \<Rightarrow> ('t \<Rightarrow> 'e list \<Rightarrow> bool) \<Rightarrow> ('e, 't, 'x) loader_trace \<Rightarrow> ('e \<times> nat, nat \<times> 't, 'x) loader_phase \<Rightarrow> bool" where
  "phase_ok attempts ok t (Reading batch r) \<longleftrightarrow>
     rf_attempt r < attempts \<and> later_read t batch (lt_reads t) \<and> value_later t batch r"
| "phase_ok attempts ok t (Sleeping batch r) \<longleftrightarrow>
     rf_attempt r < attempts \<and> later_read t batch (lt_reads t) \<and> value_later t batch r"
| "phase_ok attempts ok t (Returned batch out) \<longleftrightarrow> result_later t batch out \<and> round_ok attempts ok batch out"
| "phase_ok attempts ok t _ \<longleftrightarrow> ld_again (lt_loader t) \<or> ld_queued (lt_loader t) = []"

definition loader_ok :: "nat \<Rightarrow> ('t \<Rightarrow> 'e list \<Rightarrow> bool) \<Rightarrow> ('e, 't, 'x) loader_trace \<Rightarrow> bool" where
  "loader_ok attempts ok t \<longleftrightarrow>
     mset (lt_raised t) = mset (concat (map fst (lt_rounds t))) + mset (batch_of (ld_phase (lt_loader t)))
                            + mset (ld_queued (lt_loader t))
     \<and> (\<forall>(batch, out) \<in> set (lt_rounds t). round_ok attempts ok batch out)
     \<and> sorted_wrt (>) (read_numbers (lt_rounds t))
     \<and> (\<forall>k \<in> set (read_numbers (lt_rounds t)). k \<le> lt_reads t)
     \<and> (\<forall>e \<in> set (ld_queued (lt_loader t)). snd e \<le> lt_reads t)
     \<and> phase_ok attempts ok t (ld_phase (lt_loader t))"

lemma moved_simps [simp]:
  "lt_loader (moved l t) = l" "lt_raised (moved l t) = lt_raised t" "lt_rounds (moved l t) = lt_rounds t"
  "lt_reads (moved l t) = lt_reads t + (if is_reading (ld_phase l) \<and> \<not> is_reading (ld_phase (lt_loader t)) then 1 else 0)"
  by (simp_all add: moved_def)

lemmas loader_defs = loader_ok_def later_read_def value_later_def result_later_def

lemma begin_ok:
  assumes "0 < attempts"
    and "mset (lt_raised t) = mset (concat (map fst (lt_rounds t))) + mset (ld_queued l)"
    and "\<forall>(batch, out) \<in> set (lt_rounds t). round_ok attempts ok batch out"
    and "sorted_wrt (>) (read_numbers (lt_rounds t))"
    and "\<forall>k \<in> set (read_numbers (lt_rounds t)). k \<le> lt_reads t"
    and "\<forall>e \<in> set (ld_queued l). snd e \<le> lt_reads t"
    and "\<not> is_reading (ld_phase (lt_loader t))"
  shows "loader_ok attempts ok (moved (load_begin l) t)"
  using assms by (auto simp: loader_defs load_begin_def refetch_start_def less_Suc_eq_le)

lemma later_read_moved: "later_read t batch k \<Longrightarrow> later_read (moved l t) batch k"
  by (auto simp: later_read_def)

lemma run_ok:
  assumes "loader_ok attempts ok t" and "0 < attempts"
    and q: "(case e of None \<Rightarrow> q = [] \<and> r = lt_raised t | Some x \<Rightarrow> q = [(x, lt_reads t)] \<and> r = lt_raised t @ q)"
  shows "loader_ok attempts ok (moved (load_run (map_option (\<lambda>x. (x, lt_reads t)) e) (lt_loader t)) (t\<lparr>lt_raised := r\<rparr>))"
proof (cases "ld_phase (lt_loader t)")
  case Idle
  then have "loader_ok attempts ok (moved (load_begin ((lt_loader t)\<lparr>ld_queued := ld_queued (lt_loader t) @ q\<rparr>)) (t\<lparr>lt_raised := r\<rparr>))"
    using assms by (intro begin_ok) (auto simp: loader_ok_def split: option.splits)
  with Idle q show ?thesis by (auto simp: load_run_def split: option.splits)
qed (use assms in \<open>auto simp: load_run_def loader_ok_def later_read_def value_later_def result_later_def split: option.splits refetch_result.splits\<close>)

definition values_of :: "'x + 't \<Rightarrow> ('t, 'x) refetch_state \<Rightarrow> 't set" where
  "values_of res r = set_option (rf_value r) \<union> (case res of Inl _ \<Rightarrow> {} | Inr v \<Rightarrow> {v})"

lemma settle_again:
  "refetch_settle attempts ok res r = ReadAgain r' \<Longrightarrow> rf_attempt r' < attempts \<and> set_option (rf_value r') \<subseteq> values_of res r"
  by (auto simp: refetch_settle_def refetch_again_def values_of_def split: sum.splits if_splits)

lemma settle_stop:
  assumes "refetch_settle attempts ok res r = Stop (Outcome v c n)" and "rf_attempt r < attempts"
  shows "n \<le> attempts \<and> (c \<longrightarrow> ok v) \<and> v \<in> values_of res r"
  using assms
  by (auto simp: refetch_settle_def refetch_again_def refetch_exhausted_def values_of_def split: sum.splits if_splits option.splits)

lemma settle_ok:
  assumes ok: "loader_ok attempts ok t" and res: "case res of Inl _ \<Rightarrow> True | Inr v \<Rightarrow> fst v = lt_reads t"
  shows "loader_ok attempts ok (moved (load_settle attempts (judged_by ok) res (lt_loader t)) t)"
proof (cases "ld_phase (lt_loader t)")
  case (Reading batch r)
  have r: "rf_attempt r < attempts" and later: "later_read t batch (fst v)" if "v \<in> values_of res r" for v
    using ok Reading res that by (auto simp: loader_ok_def value_later_def values_of_def split: sum.splits)
  have a: "rf_attempt r < attempts" using ok Reading by (simp add: loader_ok_def)
  show ?thesis
  proof (cases "refetch_settle attempts (\<lambda>v. judged_by ok v batch) res r")
    case (ReadAgain r')
    then have "rf_attempt r' < attempts" "\<forall>v \<in> set_option (rf_value r'). later_read t batch (fst v)"
      using settle_again [OF ReadAgain] later by blast+
    with ReadAgain Reading ok show ?thesis by (auto simp: loader_defs load_settle_def)
  next
    case (Stop out)
    have "round_ok attempts ok batch out \<and> result_later t batch out"
    proof (cases out)
      case (Outcome v c n)
      with settle_stop [of attempts "\<lambda>v. judged_by ok v batch" res r v c n] Stop a later [of v] show ?thesis
        by (auto simp: round_ok_def result_later_def judged_by_def later_read_def)
    qed (simp add: round_ok_def result_later_def)
    with Stop Reading ok show ?thesis by (auto simp: loader_defs load_settle_def split: refetch_result.splits)
  qed
qed (use ok in \<open>auto simp: loader_defs load_settle_def split: refetch_result.splits\<close>)

lemma wake_ok: "loader_ok attempts ok t \<Longrightarrow> loader_ok attempts ok (moved (load_wake (lt_loader t)) t)"
  by (cases "ld_phase (lt_loader t)") (auto simp: loader_defs load_wake_def split: refetch_result.splits)

lemma finally_ok: "loader_ok attempts ok t \<Longrightarrow> loader_ok attempts ok (moved (load_finally (lt_loader t)) t)"
  by (cases "ld_phase (lt_loader t)") (auto simp: loader_defs load_finally_def split: refetch_result.splits)

lemma resume_ok:
  assumes ok: "loader_ok attempts ok t" and "0 < attempts" and p: "ld_phase (lt_loader t) = Returned batch out"
  shows "loader_ok attempts ok (moved (load_resume (lt_loader t)) (t\<lparr>lt_rounds := (batch, out) # lt_rounds t\<rparr>))"
proof -
  let ?t = "t\<lparr>lt_rounds := (batch, out) # lt_rounds t\<rparr>"
  have nums: "sorted_wrt (>) (read_numbers (lt_rounds ?t))" "\<forall>k \<in> set (read_numbers (lt_rounds ?t)). k \<le> lt_reads t"
    using ok p by (cases out; auto simp: loader_defs)+
  show ?thesis
  proof (cases "ld_again (lt_loader t) \<or> 0 < length (ld_queued (lt_loader t))")
    case True
    have "loader_ok attempts ok (moved (load_begin (lt_loader t)) ?t)"
      using ok p assms(2) nums by (intro begin_ok) (auto simp: loader_ok_def)
    with True p show ?thesis by (simp add: load_resume_def)
  next
    case False
    with ok p nums show ?thesis by (auto simp: loader_ok_def load_resume_def)
  qed
qed

lemma loader_step_ok: "loader_step attempts ok t t' \<Longrightarrow> 0 < attempts \<Longrightarrow> loader_ok attempts ok t \<Longrightarrow> loader_ok attempts ok t'"
proof (induction rule: loader_step.induct)
  case (raised t e)
  then show ?case using run_ok [where e = "Some e" and q = "[(e, lt_reads t)]" and t = t] by simp
next
  case (refreshed t)
  then show ?case using run_ok [where e = None and q = "[]" and r = "lt_raised t" and t = t] by simp
qed (simp_all add: settle_ok wake_ok finally_ok resume_ok)

lemma fresh_loader_ok: "loader_ok attempts ok fresh_loader"
  by (simp add: loader_ok_def fresh_loader_def createCoalescingLoader_def)

lemma loader_reachable_ok:
  assumes "(loader_step attempts ok)\<^sup>*\<^sup>* fresh_loader t" and "0 < attempts"
  shows "loader_ok attempts ok t"
  using assms(1) by (induction rule: rtranclp_induct) (simp_all add: fresh_loader_ok loader_step_ok assms(2))

text \<open>
  C33. Every demand is judged by a later read. However calls of \<open>run\<close> fall between the reads, their failures and the waits: each expectation
  raised belongs to exactly one round, to the round that is reading, or to the queue; the value of its
  round comes from a read issued after it was raised, is reported as converged only when it accounts for the whole
  batch, and took at most \<open>attempts\<close> reads; values are applied in the order their reads were issued, so an
  older answer never replaces a newer one; and the loader rests with an empty queue unless \<open>run\<close> was
  called between the end of its loop and the callback that marks it idle.
\<close>

theorem expectations_are_judged_by_later_reads:
  assumes "(loader_step attempts ok)\<^sup>*\<^sup>* fresh_loader t" and "0 < attempts"
  shows "mset (lt_raised t) = mset (concat (map fst (lt_rounds t))) + mset (batch_of (ld_phase (lt_loader t)))
           + mset (ld_queued (lt_loader t))
    \<and> (\<forall>batch k v converged n. (batch, Outcome (k, v) converged n) \<in> set (lt_rounds t) \<longrightarrow>
         (\<forall>(e, raised_at) \<in> set batch. raised_at < k) \<and> n \<le> attempts \<and> (converged \<longrightarrow> ok v (map fst batch)))
    \<and> sorted_wrt (>) (read_numbers (lt_rounds t))
    \<and> (ld_phase (lt_loader t) = Idle \<longrightarrow> ld_queued (lt_loader t) = [] \<or> ld_again (lt_loader t))"
proof -
  have inv: "loader_ok attempts ok t" using assms by (rule loader_reachable_ok)
  then have "round_ok attempts ok batch out" if "(batch, out) \<in> set (lt_rounds t)" for batch out
    using that by (auto simp: loader_ok_def)
  then have "\<forall>batch k v converged n. (batch, Outcome (k, v) converged n) \<in> set (lt_rounds t) \<longrightarrow>
      (\<forall>(e, raised_at) \<in> set batch. raised_at < k) \<and> n \<le> attempts \<and> (converged \<longrightarrow> ok v (map fst batch))"
    by (fastforce simp: round_ok_def)
  with inv show ?thesis by (auto simp: loader_ok_def)
qed

text \<open>
  A call of \<open>run\<close> that lands between the end of the loop and the callback of \<open>finally\<close> is told that a round is under way; no round
  follows, and its expectation waits for the next call.
\<close>

definition after_the_loop :: "(uuid, nat, string) loader_trace" where
  "after_the_loop =
     \<lparr>lt_loader = \<lparr>ld_queued = [(''o2'', 1)], ld_again = True, ld_phase = Idle\<rparr>, lt_reads = 1,
      lt_raised = [(''o1'', 0), (''o2'', 1)], lt_rounds = [([(''o1'', 0)], Outcome (1, 7) True 1)]\<rparr>"

lemma after_the_loop_reached: "(loader_step 5 (\<lambda>v batch. True))\<^sup>*\<^sup>* fresh_loader after_the_loop"
proof -
  let ?step = "loader_step 5 (\<lambda>v batch. True) :: (uuid, nat, string) loader_trace \<Rightarrow> _"
  let ?reading = "\<lparr>lt_loader = \<lparr>ld_queued = [], ld_again = False, ld_phase = Reading [(''o1'', 0)] refetch_start\<rparr>,
    lt_reads = 1, lt_raised = [(''o1'', 0)], lt_rounds = []\<rparr>"
  let ?out = "Outcome (1, 7) True 1"
  let ?answered = "?reading\<lparr>lt_loader := (lt_loader ?reading)\<lparr>ld_phase := Returned [(''o1'', 0)] ?out\<rparr>\<rparr>"
  let ?ended = "?answered\<lparr>lt_loader := (lt_loader ?reading)\<lparr>ld_phase := Finishing\<rparr>, lt_rounds := [([(''o1'', 0)], ?out)]\<rparr>"
  let ?late = "?ended\<lparr>lt_loader := \<lparr>ld_queued = [(''o2'', 1)], ld_again = True, ld_phase = Finishing\<rparr>,
    lt_raised := [(''o1'', 0), (''o2'', 1)]\<rparr>"
  have "?step fresh_loader ?reading"
    using loader_step.raised [of 5 "\<lambda>v batch. True" fresh_loader "''o1''"]
    by (simp add: fresh_loader_def createCoalescingLoader_def moved_def load_run_def load_begin_def)
  moreover have "?step ?reading ?answered"
    using loader_step.answered [of 5 "\<lambda>v batch. True" ?reading 7]
    by (simp add: moved_def load_settle_def refetch_settle_def judged_by_def refetch_start_def)
  moreover have "?step ?answered ?ended"
    using loader_step.resumed [of ?answered "[(''o1'', 0)]" ?out 5 "\<lambda>v batch. True"]
    by (simp add: moved_def load_resume_def)
  moreover have "?step ?ended ?late"
    using loader_step.raised [of 5 "\<lambda>v batch. True" ?ended "''o2''"] by (simp add: moved_def load_run_def)
  moreover have "?step ?late after_the_loop"
    using loader_step.finalised [of 5 "\<lambda>v batch. True" ?late] by (simp add: moved_def load_finally_def after_the_loop_def)
  ultimately show ?thesis by (meson rtranclp.rtrancl_into_rtrancl rtranclp.rtrancl_refl)
qed

lemma late_run_waits_for_the_next:
  "(loader_step 5 (\<lambda>v batch. True))\<^sup>*\<^sup>* fresh_loader after_the_loop"
  "ld_phase (lt_loader after_the_loop) = Idle \<and> fst (hd (ld_queued (lt_loader after_the_loop))) = ''o2''"
  "load_settle attempts ok res (lt_loader after_the_loop) = lt_loader after_the_loop"
  "load_wake (lt_loader after_the_loop) = lt_loader after_the_loop"
  "load_resume (lt_loader after_the_loop) = lt_loader after_the_loop"
  "load_finally (lt_loader after_the_loop) = lt_loader after_the_loop"
  using after_the_loop_reached
  by (simp_all add: after_the_loop_def load_settle_def load_wake_def load_resume_def load_finally_def)

theorem expectations_are_judged_by_later_reads_witness:
  "ld_queued (lt_loader after_the_loop) \<noteq> [] \<and> ld_again (lt_loader after_the_loop)
   \<and> mset (lt_raised after_the_loop) = {#(''o1'', 0), (''o2'', 1)#}"
  using expectations_are_judged_by_later_reads [OF after_the_loop_reached]
  by (simp add: after_the_loop_def)

end
