(* ===== verification/Kitchen_Rail.thy ===== *)
theory Kitchen_Rail
  imports Client_Api Local_Store_Properties Kitchen_Projection Realtime_Client
begin

text \<open>
  The kitchen screen's store, \<open>apps/web/src/stores/kitchen.ts\<close>: the rail of tickets it reads from the projection, the commands whose
  answer never came back, kept in memory and in the browser's database, and what an event entitles the screen to wait for.

  Every function runs to its end; what interleaves with a load that is reading is the subject of \<open>Realtime_Client\<close>. The server is
  the wire of \<open>Client_Api\<close> for the two commands and \<open>ra_tickets\<close> for the read of the projection.
\<close>

section \<open>Tickets and expectations\<close>

record rail_ticket =
  rt_orderId :: uuid
  rt_ticket :: kitchen_ticket

abbreviation rt_version :: "rail_ticket \<Rightarrow> int" where
  "rt_version t \<equiv> kt_sourceEventVersion (rt_ticket t)"

datatype kitchenCommand = preparing | ready

record expected_ticket =
  et_orderId :: uuid
  et_version :: int

definition expectationFor :: "domain_event \<Rightarrow> rail_ticket list \<Rightarrow> expected_ticket option" where
  "expectationFor event held =
     (let expected = \<lparr>et_orderId = ev_aggregateId event, et_version = ev_version event\<rparr> in
      if ev_eventType event \<noteq> ''OrderCancelled'' then Some expected
      else if \<exists>t \<in> set held. rt_orderId t = ev_aggregateId event then Some expected else None)"

definition ticketsSatisfy :: "rail_ticket list \<Rightarrow> expected_ticket list \<Rightarrow> bool" where
  "ticketsSatisfy rows expectations \<longleftrightarrow>
     (\<forall>e \<in> set expectations. \<exists>t \<in> set rows. rt_orderId t = et_orderId e \<and> et_version e \<le> rt_version t)"

definition nextCommand :: "kitchen_ticket_state \<Rightarrow> kitchenCommand option" where
  "nextCommand state =
     (if state = SENT_TO_KITCHEN' then Some preparing else if state = PREPARING' then Some ready else None)"

definition mutationTypeFor :: "kitchenCommand \<Rightarrow> mutation_type" where
  "mutationTypeFor c = (case c of preparing \<Rightarrow> START_PREPARING | ready \<Rightarrow> MARK_READY)"

definition commandFor :: "mutation_type \<Rightarrow> kitchenCommand option" where
  "commandFor type = (if type = START_PREPARING then Some preparing else if type = MARK_READY then Some ready else None)"

text \<open>A row stores the type and the empty payload; the model keeps their union.\<close>

definition mutation_for :: "kitchenCommand \<Rightarrow> mutation_command" where
  "mutation_for c = (case c of preparing \<Rightarrow> StartPreparing | ready \<Rightarrow> MarkReady)"

section \<open>The store\<close>

record command_identity =
  ki_orderId :: uuid
  ki_restaurantId :: tenant
  ki_command :: kitchenCommand
  ki_mutationId :: uuid
  ki_baseVersion :: int

record rail =
  rl_tickets :: "rail_ticket list"
  rl_loaded :: bool
  rl_lagging :: bool
  rl_loadError :: "string option"
  rl_pending :: "uuid \<Rightarrow> command_identity option"
  rl_conflicts :: "uuid \<Rightarrow> conflict_reason option"
  rl_error :: "string option"
  rl_restaurantId :: tenant

definition fresh_rail :: rail where
  "fresh_rail =
     \<lparr>rl_tickets = [], rl_loaded = False, rl_lagging = False, rl_loadError = None, rl_pending = Map.empty,
      rl_conflicts = Map.empty, rl_error = None, rl_restaurantId = []\<rparr>"

record 'n rail_api =
  ra_post :: "'n wire"
  ra_tickets :: "tenant \<Rightarrow> 'n \<Rightarrow> (string + rail_ticket list) \<times> 'n"

text \<open>The tab of the kitchen screen; \<open>kn_sent\<close> lists the requests handed to the wire, the latest first.\<close>

record 'n kitchen =
  kn_rail :: rail
  kn_store :: local_store
  kn_tab :: tab
  kn_net :: 'n
  kn_now :: millis
  kn_uuid :: "nat \<Rightarrow> uuid"
  kn_drawn :: nat
  kn_sent :: "mutation_request list"

definition on_rail :: "(rail \<Rightarrow> rail) \<Rightarrow> 'n kitchen \<Rightarrow> 'n kitchen" where
  "on_rail f k = k\<lparr>kn_rail := f (kn_rail k)\<rparr>"

definition on_disk :: "(local_store \<Rightarrow> local_store) \<Rightarrow> 'n kitchen \<Rightarrow> 'n kitchen" where
  "on_disk f k = k\<lparr>kn_store := f (kn_store k)\<rparr>"

section \<open>Loading\<close>

text \<open>One round of the loader: reads of the projection, each against the network the read before left.\<close>

definition net_after :: "'n rail_api \<Rightarrow> tenant \<Rightarrow> 'n \<Rightarrow> nat \<Rightarrow> 'n" where
  "net_after api restaurantId net n = ((\<lambda>m. snd (ra_tickets api restaurantId m)) ^^ n) net"

definition ticket_reads :: "'n rail_api \<Rightarrow> tenant \<Rightarrow> 'n \<Rightarrow> nat \<Rightarrow> string + rail_ticket list" where
  "ticket_reads api restaurantId net n = fst (ra_tickets api restaurantId (net_after api restaurantId net n))"

definition load :: "'n rail_api \<Rightarrow> tenant \<Rightarrow> expected_ticket option \<Rightarrow> 'n kitchen \<Rightarrow> 'n kitchen" where
  "load api forRestaurantId expected k =
     (let batch = (case expected of None \<Rightarrow> [] | Some e \<Rightarrow> [e]);
          attempts = refetch_attempts None;
          net = kn_net k;
          k' = on_rail (\<lambda>r. r\<lparr>rl_restaurantId := forRestaurantId\<rparr>) k in
      case refetchUntil attempts (\<lambda>rows. ticketsSatisfy rows batch) (ticket_reads api forRestaurantId net) of
        Outcome rows converged n \<Rightarrow>
          (on_rail (\<lambda>r. r\<lparr>rl_tickets := rows, rl_loaded := True, rl_lagging := \<not> converged, rl_loadError := None\<rparr>) k')
            \<lparr>kn_net := net_after api forRestaurantId net n\<rparr>
      | Threw error \<Rightarrow>
          (on_rail (\<lambda>r. r\<lparr>rl_loadError := Some (or_else error ''The kitchen tickets could not be read.'')\<rparr>) k')
            \<lparr>kn_net := net_after api forRestaurantId net attempts\<rparr>)"

section \<open>Commands\<close>

definition row_of :: "command_identity \<Rightarrow> pending_row" where
  "row_of identity =
     \<lparr>pn_mutationId = ki_mutationId identity, pn_restaurantId = ki_restaurantId identity, pn_terminalId = KITCHEN_TERMINAL_ID,
      pn_orderId = ki_orderId identity, pn_baseVersion = ki_baseVersion identity,
      pn_command = mutation_for (ki_command identity), pn_createdAt = 0, pn_status = SYNCING\<rparr>"

text \<open>The message of what a call threw.\<close>

definition thrown :: "post_result \<Rightarrow> string" where
  "thrown result =
     (case result of
        OfflineError terminalId \<Rightarrow> terminalId @ '' is simulating an offline terminal.''
      | ApiRequestError _ message _ \<Rightarrow> message
      | OtherError message \<Rightarrow> or_else message ''The command failed.''
      | Answered _ \<Rightarrow> [])"

text \<open>What follows an answer, once the command is no longer pending.\<close>

definition settle_command :: "'n rail_api \<Rightarrow> command_identity \<Rightarrow> mutation_response \<Rightarrow> 'n kitchen \<Rightarrow> 'n kitchen" where
  "settle_command api identity response k =
     (let orderId = ki_orderId identity;
          applied = (\<lambda>serverVersion.
            let k' = on_rail (\<lambda>r. r\<lparr>rl_conflicts := (rl_conflicts r)(orderId := None)\<rparr>) k in
            load api (rl_restaurantId (kn_rail k')) (Some \<lparr>et_orderId = orderId, et_version = serverVersion\<rparr>) k') in
      case response of
        APPLIED _ serverVersion \<Rightarrow> applied serverVersion
      | ALREADY_APPLIED _ serverVersion \<Rightarrow> applied serverVersion
      | CONFLICT_RESPONSE reason _ _ _ \<Rightarrow>
          (let k' = on_rail (\<lambda>r. r\<lparr>rl_conflicts := (rl_conflicts r)(orderId \<mapsto> reason)\<rparr>) k in
           load api (rl_restaurantId (kn_rail k')) None k')
      | MUTATION_ID_REUSED \<Rightarrow> on_rail (\<lambda>r. r\<lparr>rl_error := Some ''PAYLOAD_MISMATCH''\<rparr>) k
      | REJECTED \<Rightarrow> on_rail (\<lambda>r. r\<lparr>rl_error := Some ''CROSS_TENANT_MUTATION''\<rparr>) k)"

text \<open>Durable before it is attempted: the state in which the request goes out.\<close>

definition stage_command :: "command_identity \<Rightarrow> 'n kitchen \<Rightarrow> 'n kitchen" where
  "stage_command identity k =
     on_disk (\<lambda>s. snd (savePending (kn_now k) (row_of identity) s))
       (on_rail (\<lambda>r. r\<lparr>rl_pending := (rl_pending r)(ki_orderId identity \<mapsto> identity)\<rparr>) k)"

definition post_command :: "'n rail_api \<Rightarrow> command_identity \<Rightarrow> 'n kitchen \<Rightarrow> post_result \<times> 'n kitchen" where
  "post_command api identity k =
     (let request = requestOf (row_of identity);
          (result, t, net) = postKitchenCommand (ra_post api) (ki_orderId identity) request (kn_tab k, kn_net k)
      in (result, k\<lparr>kn_tab := t, kn_net := net, kn_sent := request # kn_sent k\<rparr>))"

definition drop_command :: "command_identity \<Rightarrow> 'n kitchen \<Rightarrow> 'n kitchen" where
  "drop_command identity k =
     on_rail (\<lambda>r. r\<lparr>rl_error := None\<rparr>)
       (on_disk (deletePending (ki_mutationId identity))
         (on_rail (\<lambda>r. r\<lparr>rl_pending := (rl_pending r)(ki_orderId identity := None)\<rparr>) k))"

definition dispatch :: "'n rail_api \<Rightarrow> command_identity \<Rightarrow> 'n kitchen \<Rightarrow> 'n kitchen" where
  "dispatch api identity k =
     (case post_command api identity (stage_command identity k) of
        (Answered response, k') \<Rightarrow> settle_command api identity response (drop_command identity k')
      | (result, k') \<Rightarrow>
          on_rail (\<lambda>r. r\<lparr>rl_error := Some (thrown result)\<rparr>)
            (on_disk (setPendingStatus (ki_mutationId identity) PENDING) k'))"

definition new_identity :: "uuid \<Rightarrow> kitchenCommand \<Rightarrow> rail_ticket \<Rightarrow> 'n kitchen \<Rightarrow> command_identity" where
  "new_identity orderId next_command ticket k =
     \<lparr>ki_orderId = orderId, ki_restaurantId = kt_restaurantId (rt_ticket ticket), ki_command = next_command,
      ki_mutationId = kn_uuid k (kn_drawn k), ki_baseVersion = rt_version ticket\<rparr>"

definition rail_command :: "'n rail_api \<Rightarrow> uuid \<Rightarrow> kitchenCommand \<Rightarrow> 'n kitchen \<Rightarrow> 'n kitchen" where
  "rail_command api orderId next_command k =
     (case find (\<lambda>t. rt_orderId t = orderId) (rl_tickets (kn_rail k)) of
        None \<Rightarrow> k
      | Some ticket \<Rightarrow>
          (case rl_pending (kn_rail k) orderId of
             Some held \<Rightarrow>
               if ki_command held \<noteq> next_command
               then on_rail (\<lambda>r. r\<lparr>rl_error := Some
                 ''This ticket has a command with no answer yet. Retry or discard it before sending another.''\<rparr>) k
               else dispatch api held k
           | None \<Rightarrow>
               dispatch api (new_identity orderId next_command ticket k) (k\<lparr>kn_drawn := kn_drawn k + 1\<rparr>)))"

definition rail_retry :: "'n rail_api \<Rightarrow> uuid \<Rightarrow> 'n kitchen \<Rightarrow> 'n kitchen" where
  "rail_retry api orderId k =
     (case rl_pending (kn_rail k) orderId of None \<Rightarrow> k | Some identity \<Rightarrow> dispatch api identity k)"

definition rail_discard :: "uuid \<Rightarrow> 'n kitchen \<Rightarrow> 'n kitchen" where
  "rail_discard orderId k =
     (let k' = on_rail (\<lambda>r. r\<lparr>rl_pending := (rl_pending r)(orderId := None), rl_error := None\<rparr>) k in
      case rl_pending (kn_rail k) orderId of
        None \<Rightarrow> k'
      | Some held \<Rightarrow> on_disk (deletePending (ki_mutationId held)) k')"

section \<open>Restoring the commands after a reload\<close>

definition identity_of :: "pending_row \<Rightarrow> command_identity option" where
  "identity_of row =
     map_option (\<lambda>c. \<lparr>ki_orderId = pn_orderId row, ki_restaurantId = pn_restaurantId row, ki_command = c,
                      ki_mutationId = pn_mutationId row, ki_baseVersion = pn_baseVersion row\<rparr>)
       (commandFor (mutation_type_of (pn_command row)))"

definition restore_row ::
  "pending_row \<Rightarrow> (uuid \<Rightarrow> command_identity option) \<Rightarrow> uuid \<Rightarrow> command_identity option" where
  "restore_row row pending =
     (case identity_of row of
        None \<Rightarrow> pending
      | Some identity \<Rightarrow> if pending (pn_orderId row) \<noteq> None then pending else pending(pn_orderId row \<mapsto> identity))"

text \<open>No other restaurant's \<open>hydrateCommands\<close> or \<open>load\<close> came in while the rows were read.\<close>

definition hydrateCommands :: "tenant \<Rightarrow> 'n kitchen \<Rightarrow> 'n kitchen" where
  "hydrateCommands forRestaurantId k =
     (let (rows, s) = readPendingForTerminalInRestaurant KITCHEN_TERMINAL_ID forRestaurantId (kn_store k) in
      on_rail (\<lambda>r. r\<lparr>rl_pending := fold restore_row rows (rl_pending r), rl_restaurantId := forRestaurantId\<rparr>)
        (k\<lparr>kn_store := s\<rparr>))"

section \<open>The screen at work\<close>

datatype rail_op =
    Press uuid kitchenCommand
  | Retry uuid
  | Discard uuid
  | Refresh "expected_ticket option"
  | Reload

definition reopened :: "tenant \<Rightarrow> 'n kitchen \<Rightarrow> 'n kitchen" where
  "reopened R k = hydrateCommands R (k\<lparr>kn_rail := fresh_rail\<rparr>)"

fun rail_perform :: "'n rail_api \<Rightarrow> tenant \<Rightarrow> rail_op \<Rightarrow> 'n kitchen \<Rightarrow> 'n kitchen" where
  "rail_perform api R (Press orderId c) k = rail_command api orderId c k"
| "rail_perform api R (Retry orderId) k = rail_retry api orderId k"
| "rail_perform api R (Discard orderId) k = rail_discard orderId k"
| "rail_perform api R (Refresh expected) k = load api R expected k"
| "rail_perform api R Reload k = reopened R k"

section \<open>The rail and the database\<close>

definition of_kitchen :: "tenant \<Rightarrow> pending_row \<Rightarrow> bool" where
  "of_kitchen R r \<longleftrightarrow> pn_terminalId r = KITCHEN_TERMINAL_ID \<and> pn_restaurantId r = R"

definition stored_as :: "tenant \<Rightarrow> pending_row list \<Rightarrow> uuid \<Rightarrow> command_identity \<Rightarrow> bool" where
  "stored_as R rows orderId i \<longleftrightarrow> (\<exists>r \<in> set rows. of_kitchen R r \<and> pn_orderId r = orderId \<and> identity_of r = Some i)"

text \<open>The commands of this kitchen on disk: at most one per order.\<close>

definition disk_ok :: "tenant \<Rightarrow> pending_row list \<Rightarrow> bool" where
  "disk_ok R rows \<longleftrightarrow>
     keyed pn_mutationId rows
     \<and> (\<forall>r \<in> set rows. of_kitchen R r \<longrightarrow> identity_of r \<noteq> None)
     \<and> (\<forall>r \<in> set rows. \<forall>r' \<in> set rows. of_kitchen R r \<and> of_kitchen R r' \<and> pn_orderId r = pn_orderId r' \<longrightarrow> r = r')"

text \<open>What is pending in memory is what is stored.\<close>

definition agrees :: "tenant \<Rightarrow> (uuid \<Rightarrow> command_identity option) \<Rightarrow> pending_row list \<Rightarrow> bool" where
  "agrees R pending rows \<longleftrightarrow> disk_ok R rows \<and> (\<forall>orderId i. pending orderId = Some i \<longleftrightarrow> stored_as R rows orderId i)"

definition uuids_fresh :: "'n kitchen \<Rightarrow> bool" where
  "uuids_fresh k \<longleftrightarrow>
     inj (kn_uuid k) \<and> (\<forall>n \<ge> kn_drawn k. kn_uuid k n \<notin> pn_mutationId ` set (ls_pending (kn_store k)))"

definition rail_ok :: "tenant \<Rightarrow> 'n kitchen \<Rightarrow> bool" where
  "rail_ok R k \<longleftrightarrow>
     ls_faults (kn_store k) = [] \<and> uuids_fresh k \<and> agrees R (rl_pending (kn_rail k)) (ls_pending (kn_store k))
     \<and> rl_restaurantId (kn_rail k) = R
     \<and> (\<forall>t \<in> set (rl_tickets (kn_rail k)). kt_restaurantId (rt_ticket t) = R)"

lemma identity_of_Some:
  "identity_of r = Some i \<Longrightarrow>
     ki_orderId i = pn_orderId r \<and> ki_restaurantId i = pn_restaurantId r \<and> ki_mutationId i = pn_mutationId r
     \<and> ki_baseVersion i = pn_baseVersion r \<and> mutation_for (ki_command i) = pn_command r"
  by (cases "pn_command r") (auto simp: identity_of_def commandFor_def mutation_for_def split: if_splits)

lemma identity_of_row [simp]: "identity_of (row_of i\<lparr>pn_createdAt := c\<rparr>) = Some i" "identity_of (row_of i) = Some i"
  by (cases "ki_command i"; simp add: identity_of_def row_of_def mutation_for_def commandFor_def)+

lemma of_kitchen_row [simp]:
  "of_kitchen R (row_of i\<lparr>pn_createdAt := c\<rparr>) \<longleftrightarrow> ki_restaurantId i = R" "of_kitchen R (row_of i) \<longleftrightarrow> ki_restaurantId i = R"
  by (auto simp: of_kitchen_def row_of_def)

lemma row_of_simps [simp]:
  "pn_mutationId (row_of i) = ki_mutationId i" "pn_orderId (row_of i) = ki_orderId i"
  by (simp_all add: row_of_def)

lemma requestOf_identity:
  "identity_of r = Some i \<Longrightarrow> pn_terminalId r = KITCHEN_TERMINAL_ID \<Longrightarrow> requestOf (row_of i) = requestOf r"
  by (drule identity_of_Some) (simp add: requestOf_def row_of_def)

lemma stored_as_unique: "disk_ok R rows \<Longrightarrow> stored_as R rows orderId i \<Longrightarrow> stored_as R rows orderId j \<Longrightarrow> i = j"
  by (fastforce simp: disk_ok_def stored_as_def)

section \<open>Restoring\<close>

definition restored :: "pending_row list \<Rightarrow> uuid \<Rightarrow> command_identity option" where
  "restored rows = fold restore_row rows Map.empty"

lemma fold_restore_row:
  "\<forall>r \<in> set rows. identity_of r \<noteq> None \<Longrightarrow>
     fold restore_row rows pending orderId =
       (case pending orderId of
          Some i \<Rightarrow> Some i
        | None \<Rightarrow> Option.bind (find (\<lambda>r. pn_orderId r = orderId) rows) identity_of)"
  by (induction rows arbitrary: pending) (auto simp: restore_row_def split: option.splits)

lemma reopened_pending:
  assumes "ls_faults (kn_store k) = []" and ok: "disk_ok R (ls_pending (kn_store k))"
  shows "rl_pending (kn_rail (reopened R k)) orderId = Some i \<longleftrightarrow> stored_as R (ls_pending (kn_store k)) orderId i"
proof -
  let ?rows = "filter (\<lambda>r. pn_restaurantId r = R) (terminal_queue KITCHEN_TERMINAL_ID (ls_pending (kn_store k)))"
  have mem: "r \<in> set ?rows \<longleftrightarrow> r \<in> set (ls_pending (kn_store k)) \<and> of_kitchen R r" for r
    by (auto simp: of_kitchen_def)
  have "rl_pending (kn_rail (reopened R k)) = fold restore_row ?rows Map.empty"
    using assms(1) by (simp add: reopened_def hydrateCommands_def readPendingForTerminalInRestaurant_def on_rail_def fresh_rail_def)
  moreover have "\<forall>r \<in> set ?rows. identity_of r \<noteq> None" using ok mem by (auto simp: disk_ok_def)
  ultimately have p: "rl_pending (kn_rail (reopened R k)) orderId = Option.bind (find (\<lambda>r. pn_orderId r = orderId) ?rows) identity_of"
    by (simp add: fold_restore_row)
  show ?thesis
  proof (cases "find (\<lambda>r. pn_orderId r = orderId) ?rows")
    case None
    then have "\<not> stored_as R (ls_pending (kn_store k)) orderId i" using mem by (auto simp: find_None_iff_not stored_as_def)
    with None p show ?thesis by simp
  next
    case (Some r)
    then have r: "r \<in> set (ls_pending (kn_store k))" "of_kitchen R r" "pn_orderId r = orderId" using mem find_Some_in by fastforce+
    then have "identity_of r = Some i \<longleftrightarrow> stored_as R (ls_pending (kn_store k)) orderId i"
      using ok unfolding stored_as_def disk_ok_def by blast
    with Some p show ?thesis by simp
  qed
qed

lemma reopened_ok:
  assumes "ls_faults (kn_store k) = []" and "disk_ok R (ls_pending (kn_store k))" and "uuids_fresh k"
  shows "rail_ok R (reopened R k)"
  using assms reopened_pending [OF assms(1,2)]
  by (simp add: rail_ok_def agrees_def uuids_fresh_def reopened_def hydrateCommands_def readPendingForTerminalInRestaurant_def on_rail_def fresh_rail_def)

section \<open>Staging and settling\<close>

text \<open>A command that may be staged: the one that is pending, or a new one where none is.\<close>

definition stageable :: "tenant \<Rightarrow> (uuid \<Rightarrow> command_identity option) \<Rightarrow> pending_row list \<Rightarrow> command_identity \<Rightarrow> bool" where
  "stageable R pending rows i \<longleftrightarrow>
     ki_restaurantId i = R
     \<and> (pending (ki_orderId i) = Some i \<or> pending (ki_orderId i) = None \<and> ki_mutationId i \<notin> pn_mutationId ` set rows)"

lemma same_row:
  "disk_ok R rows \<Longrightarrow> r \<in> set rows \<Longrightarrow> r' \<in> set rows \<Longrightarrow> pn_mutationId r = pn_mutationId r' \<Longrightarrow> r = r'"
  by (auto simp: disk_ok_def keyed_def distinct_map dest: inj_onD)

lemma claimed_row:
  assumes "agrees R pending rows" and "stageable R pending rows i" and "r \<in> set rows"
  shows "pn_mutationId r = ki_mutationId i \<Longrightarrow> pn_orderId r = ki_orderId i"
    and "of_kitchen R r \<Longrightarrow> pn_orderId r = ki_orderId i \<Longrightarrow> pn_mutationId r = ki_mutationId i"
proof -
  assume m: "pn_mutationId r = ki_mutationId i"
  then have "ki_mutationId i \<in> pn_mutationId ` set rows" using assms(3) by (metis image_eqI)
  with assms(2) have "pending (ki_orderId i) = Some i" by (simp add: stageable_def)
  with assms(1) obtain r' where "r' \<in> set rows" "pn_orderId r' = ki_orderId i" "identity_of r' = Some i"
    by (auto simp: agrees_def stored_as_def)
  with assms m same_row [of R rows r r'] show "pn_orderId r = ki_orderId i"
    by (auto simp: agrees_def dest: identity_of_Some)
next
  assume r: "of_kitchen R r" "pn_orderId r = ki_orderId i"
  with assms(1,3) obtain j where j: "identity_of r = Some j" by (auto simp: agrees_def disk_ok_def)
  with r assms(1,3) have "pending (ki_orderId i) = Some j" by (auto simp: agrees_def stored_as_def)
  with assms(2) have "j = i" by (auto simp: stageable_def)
  with j show "pn_mutationId r = ki_mutationId i" by (auto dest: identity_of_Some)
qed

lemma stage_agrees:
  assumes a: "agrees R pending rows" and st: "stageable R pending rows i"
  shows "agrees R (pending(ki_orderId i \<mapsto> i)) (put_row pn_mutationId (row_of i\<lparr>pn_createdAt := c\<rparr>) rows)" (is "agrees _ _ ?rows")
proof -
  note claimed = claimed_row [OF a st]
  have R: "ki_restaurantId i = R" using st by (simp add: stageable_def)
  have rows: "set ?rows = insert (row_of i\<lparr>pn_createdAt := c\<rparr>) {r \<in> set rows. pn_mutationId r \<noteq> ki_mutationId i}" by simp
  have "disk_ok R ?rows" unfolding disk_ok_def rows
    using a claimed(2) by (auto simp: agrees_def disk_ok_def keyed_put_row R)
  moreover have "(pending(ki_orderId i \<mapsto> i)) o' = Some j \<longleftrightarrow> stored_as R ?rows o' j" for o' j
  proof (cases "o' = ki_orderId i")
    case True
    then show ?thesis using claimed(2) R unfolding stored_as_def rows by auto
  next
    case False
    then have "stored_as R ?rows o' j \<longleftrightarrow> stored_as R rows o' j"
      using claimed(1) unfolding stored_as_def rows by auto
    with False a show ?thesis by (simp add: agrees_def)
  qed
  ultimately show ?thesis by (simp add: agrees_def)
qed

lemma drop_agrees:
  assumes a: "agrees R pending rows" and p: "pending orderId = Some i"
  shows "agrees R (pending(orderId := None)) (delete_where (\<lambda>r. pn_mutationId r = ki_mutationId i) rows)" (is "agrees _ _ ?rows")
proof -
  have i: "ki_orderId i = orderId" "ki_restaurantId i = R" using a p
    by (auto simp: agrees_def stored_as_def of_kitchen_def dest!: identity_of_Some)
  then have st: "stageable R pending rows i" using p by (simp add: stageable_def)
  note claimed = claimed_row [OF a st]
  have rows: "set ?rows = {r \<in> set rows. pn_mutationId r \<noteq> ki_mutationId i}" by (auto simp: delete_where_def)
  have "disk_ok R ?rows" unfolding disk_ok_def rows using a by (auto simp: agrees_def disk_ok_def keyed_delete_where)
  moreover have "(pending(orderId := None)) o' = Some j \<longleftrightarrow> stored_as R ?rows o' j" for o' j
    using a claimed i unfolding stored_as_def rows agrees_def by (cases "o' = orderId") auto
  ultimately show ?thesis by (simp add: agrees_def)
qed

lemma status_agrees:
  assumes "agrees R pending rows"
  shows "agrees R pending (update_where (\<lambda>r. pn_mutationId r = m) (\<lambda>r. r\<lparr>pn_status := st\<rparr>) rows)" (is "agrees _ _ (update_where ?P ?f rows)")
proof -
  define g where "g = (\<lambda>r. if ?P r then ?f r else r)"
  have g: "identity_of (g r) = identity_of r" "of_kitchen R (g r) = of_kitchen R r" "pn_orderId (g r) = pn_orderId r" for r
    by (simp_all add: g_def identity_of_def of_kitchen_def)
  have rows: "set (update_where ?P ?f rows) = g ` set rows" by (auto simp: update_where_def g_def)
  have "keyed pn_mutationId (update_where ?P ?f rows)" using assms by (simp add: agrees_def disk_ok_def keyed_update_where)
  then have "disk_ok R (update_where ?P ?f rows)" using assms unfolding agrees_def disk_ok_def rows by (auto simp: g)
  moreover have "stored_as R (update_where ?P ?f rows) o' j \<longleftrightarrow> stored_as R rows o' j" for o' j
    unfolding stored_as_def rows by (auto simp: g)
  ultimately show ?thesis using assms by (simp add: agrees_def)
qed

section \<open>Every operation keeps memory and database together\<close>

text \<open>The read of a restaurant's tickets answers with tickets of that restaurant.\<close>

definition own_tickets :: "tenant \<Rightarrow> 'n rail_api \<Rightarrow> bool" where
  "own_tickets R api \<longleftrightarrow>
     (\<forall>n rows. fst (ra_tickets api R n) = Inr rows \<longrightarrow> (\<forall>t \<in> set rows. kt_restaurantId (rt_ticket t) = R))"

lemma refetched_value:
  assumes "refetchUntil attempts ok reads = Outcome v c n" and "0 < attempts"
  shows "\<exists>m. reads m = Inr v"
proof -
  have "refetch_correct attempts ok reads (Outcome v c n)" using refetchUntil_correct [OF assms(2), of ok reads] assms(1) by simp
  then show ?thesis
    using freshest_cases [of "map reads [0..<attempts]"] by (auto simp: refetch_correct_def split: if_splits)
qed

lemma refetch_attempts_pos [simp]: "0 < refetch_attempts n"
  by (simp add: refetch_attempts_def max_def)

lemma load_frame:
  "kn_store (load api R e k) = kn_store k" "kn_uuid (load api R e k) = kn_uuid k" "kn_drawn (load api R e k) = kn_drawn k"
  "kn_sent (load api R e k) = kn_sent k" "rl_pending (kn_rail (load api R e k)) = rl_pending (kn_rail k)"
  "rl_restaurantId (kn_rail (load api R e k)) = R" "rl_conflicts (kn_rail (load api R e k)) = rl_conflicts (kn_rail k)"
  by (simp_all add: load_def Let_def on_rail_def split: refetch_result.split)

lemma load_tickets:
  assumes "own_tickets R api" and "\<forall>t \<in> set (rl_tickets (kn_rail k)). kt_restaurantId (rt_ticket t) = R"
  shows "\<forall>t \<in> set (rl_tickets (kn_rail (load api R e k))). kt_restaurantId (rt_ticket t) = R"
proof -
  let ?batch = "case e of None \<Rightarrow> [] | Some e \<Rightarrow> [e]"
  let ?out = "refetchUntil (refetch_attempts None) (\<lambda>rows. ticketsSatisfy rows ?batch) (ticket_reads api R (kn_net k))"
  show ?thesis
  proof (cases ?out)
    case (Outcome rows c n)
    then have "\<exists>m. ticket_reads api R (kn_net k) m = Inr rows" by (rule refetched_value) simp
    with assms(1) have "\<forall>t \<in> set rows. kt_restaurantId (rt_ticket t) = R" by (auto simp: own_tickets_def ticket_reads_def)
    with Outcome show ?thesis by (simp add: load_def on_rail_def)
  next
    case (Threw x)
    with assms(2) show ?thesis by (simp add: load_def on_rail_def)
  qed
qed

lemma load_ok: "own_tickets R api \<Longrightarrow> rail_ok R k \<Longrightarrow> rail_ok R (load api R e k)"
  unfolding rail_ok_def uuids_fresh_def load_frame using load_tickets by blast

lemma stage_ok:
  assumes "rail_ok R k" and "stageable R (rl_pending (kn_rail k)) (ls_pending (kn_store k)) i"
    and "\<forall>n \<ge> kn_drawn k. kn_uuid k n \<noteq> ki_mutationId i"
  shows "rail_ok R (stage_command i k)"
  using assms stage_agrees [of R "rl_pending (kn_rail k)" "ls_pending (kn_store k)" i]
  by (auto simp: rail_ok_def uuids_fresh_def stage_command_def on_disk_def on_rail_def savePending_def stored_pending_def)

lemma post_frame:
  "kn_store (snd (post_command api i k)) = kn_store k" "kn_rail (snd (post_command api i k)) = kn_rail k"
  "kn_uuid (snd (post_command api i k)) = kn_uuid k" "kn_drawn (snd (post_command api i k)) = kn_drawn k"
  "kn_sent (snd (post_command api i k)) = requestOf (row_of i) # kn_sent k"
proof -
  obtain result t net where
    "postKitchenCommand (ra_post api) (ki_orderId i) (requestOf (row_of i)) (kn_tab k, kn_net k) = (result, t, net)"
    by (metis prod_cases3)
  then show "kn_store (snd (post_command api i k)) = kn_store k" "kn_rail (snd (post_command api i k)) = kn_rail k"
    "kn_uuid (snd (post_command api i k)) = kn_uuid k" "kn_drawn (snd (post_command api i k)) = kn_drawn k"
    "kn_sent (snd (post_command api i k)) = requestOf (row_of i) # kn_sent k"
    by (simp_all add: post_command_def)
qed

lemma post_ok: "rail_ok R (snd (post_command api i k)) = rail_ok R k"
  by (simp add: rail_ok_def uuids_fresh_def post_frame)

lemma drop_ok:
  assumes "rail_ok R k" and "rl_pending (kn_rail k) (ki_orderId i) = Some i"
  shows "rail_ok R (drop_command i k)"
  using assms drop_agrees [of R "rl_pending (kn_rail k)" "ls_pending (kn_store k)" "ki_orderId i" i]
  by (auto simp: rail_ok_def uuids_fresh_def drop_command_def on_disk_def on_rail_def deletePending_def delete_where_def)

lemma set_status_ok:
  assumes "rail_ok R k"
  shows "rail_ok R (on_rail (\<lambda>r. r\<lparr>rl_error := e\<rparr>) (on_disk (setPendingStatus m st) k))"
  using assms status_agrees [of R "rl_pending (kn_rail k)" "ls_pending (kn_store k)" m st]
  by (auto simp: rail_ok_def uuids_fresh_def on_disk_def on_rail_def setPendingStatus_def in_set_update_where image_iff)

lemma rail_conflicts_ok: "rail_ok R (on_rail (\<lambda>r. r\<lparr>rl_conflicts := c\<rparr>) k) = rail_ok R k"
  "rail_ok R (on_rail (\<lambda>r. r\<lparr>rl_error := e\<rparr>) k) = rail_ok R k"
  by (simp_all add: rail_ok_def uuids_fresh_def on_rail_def)

lemma settle_command_ok:
  assumes "own_tickets R api" and "rail_ok R k"
  shows "rail_ok R (settle_command api i response k)"
proof -
  have "rl_restaurantId (kn_rail (on_rail (\<lambda>r. r\<lparr>rl_conflicts := c r\<rparr>) k)) = R" for c
    using assms(2) by (simp add: rail_ok_def on_rail_def)
  moreover have "rail_ok R (on_rail (\<lambda>r. r\<lparr>rl_conflicts := c r\<rparr>) k)" for c
    using assms(2) by (simp add: rail_ok_def uuids_fresh_def on_rail_def)
  ultimately show ?thesis
    using assms by (cases response) (simp_all add: settle_command_def Let_def load_ok rail_conflicts_ok)
qed

lemma dispatch_ok:
  assumes own: "own_tickets R api" and ok: "rail_ok R k"
    and st: "stageable R (rl_pending (kn_rail k)) (ls_pending (kn_store k)) i"
    and "\<forall>n \<ge> kn_drawn k. kn_uuid k n \<noteq> ki_mutationId i"
  shows "rail_ok R (dispatch api i k)"
proof -
  obtain result k' where p: "post_command api i (stage_command i k) = (result, k')" by (cases "post_command api i (stage_command i k)")
  have "rail_ok R (stage_command i k)" using ok st assms(4) by (rule stage_ok)
  then have k': "rail_ok R k'" using post_ok [of R api i "stage_command i k"] p by simp
  have held: "rl_pending (kn_rail k') (ki_orderId i) = Some i"
    using post_frame(2) [of api i "stage_command i k"] p by (simp add: stage_command_def on_disk_def on_rail_def)
  show ?thesis
  proof (cases result)
    case (Answered response)
    have "rail_ok R (drop_command i k')" using k' held by (rule drop_ok)
    then show ?thesis using own by (simp add: dispatch_def p Answered settle_command_ok)
  qed (simp_all add: dispatch_def p k' set_status_ok)
qed

lemma pending_stageable:
  assumes "rail_ok R k" and "rl_pending (kn_rail k) orderId = Some i"
  shows "stageable R (rl_pending (kn_rail k)) (ls_pending (kn_store k)) i \<and> ki_orderId i = orderId
    \<and> (\<forall>n \<ge> kn_drawn k. kn_uuid k n \<noteq> ki_mutationId i)"
proof -
  obtain r where "r \<in> set (ls_pending (kn_store k))" "of_kitchen R r" "pn_orderId r = orderId" "identity_of r = Some i"
    using assms by (auto simp: rail_ok_def agrees_def stored_as_def)
  with assms show ?thesis
    by (auto simp: stageable_def of_kitchen_def rail_ok_def uuids_fresh_def dest!: identity_of_Some)
qed

lemma new_stageable:
  assumes "rail_ok R k" and "rl_pending (kn_rail k) orderId = None" and "ticket \<in> set (rl_tickets (kn_rail k))"
  shows "rail_ok R (k\<lparr>kn_drawn := kn_drawn k + 1\<rparr>)"
    and "stageable R (rl_pending (kn_rail k)) (ls_pending (kn_store k)) (new_identity orderId c ticket k)"
    and "\<forall>n \<ge> kn_drawn k + 1. kn_uuid k n \<noteq> ki_mutationId (new_identity orderId c ticket k)"
  using assms by (auto simp: rail_ok_def uuids_fresh_def stageable_def new_identity_def dest: injD)

lemma rail_command_ok:
  assumes "own_tickets R api" and "rail_ok R k"
  shows "rail_ok R (rail_command api orderId c k)"
proof (cases "find (\<lambda>t. rt_orderId t = orderId) (rl_tickets (kn_rail k))")
  case None
  with assms show ?thesis by (simp add: rail_command_def)
next
  case (Some ticket)
  then have t: "ticket \<in> set (rl_tickets (kn_rail k))" by (auto dest: find_Some_in)
  show ?thesis
  proof (cases "rl_pending (kn_rail k) orderId")
    case None
    note new = new_stageable [OF assms(2) None t]
    have "rail_ok R (dispatch api (new_identity orderId c ticket k) (k\<lparr>kn_drawn := kn_drawn k + 1\<rparr>))"
      using assms(1) new by (intro dispatch_ok) simp_all
    with None Some show ?thesis by (simp add: rail_command_def)
  next
    case held: (Some i)
    with Some assms show ?thesis
      using pending_stageable [OF assms(2) held] by (simp add: rail_command_def rail_conflicts_ok dispatch_ok)
  qed
qed

lemma rail_discard_ok: "rail_ok R k \<Longrightarrow> rail_ok R (rail_discard orderId k)"
proof (cases "rl_pending (kn_rail k) orderId")
  case None
  assume "rail_ok R k"
  moreover from None have "(rl_pending (kn_rail k))(orderId := None) = rl_pending (kn_rail k)" by auto
  ultimately show ?thesis using None by (simp add: rail_discard_def rail_ok_def uuids_fresh_def on_rail_def)
next
  case (Some i)
  assume ok: "rail_ok R k"
  then have i: "ki_orderId i = orderId" using pending_stageable [OF ok Some] by simp
  then have "rail_ok R (drop_command i k)" using ok Some by (intro drop_ok) simp_all
  moreover have "rail_discard orderId k = drop_command i k"
    using Some i by (simp add: rail_discard_def drop_command_def on_disk_def on_rail_def)
  ultimately show ?thesis by simp
qed

lemma rail_perform_ok: "own_tickets R api \<Longrightarrow> rail_ok R k \<Longrightarrow> rail_ok R (rail_perform api R op k)"
proof (cases op)
  case (Retry orderId)
  assume "own_tickets R api" and ok: "rail_ok R k"
  then show ?thesis using Retry pending_stageable [OF ok]
    by (auto simp: rail_retry_def dispatch_ok split: option.splits)
next
  case Reload
  assume "own_tickets R api" and "rail_ok R k"
  then have "rail_ok R (reopened R k)" by (intro reopened_ok) (simp_all add: rail_ok_def agrees_def)
  with Reload show ?thesis by simp
qed (simp_all add: rail_command_ok rail_discard_ok load_ok)

lemma rail_ops_ok:
  assumes "own_tickets R api" and "rail_ok R k"
  shows "rail_ok R (fold (rail_perform api R) ops k)"
  using assms(2) by (induction ops arbitrary: k) (simp_all add: rail_perform_ok assms(1))

lemma reopened_same:
  assumes "rail_ok R k"
  shows "rl_pending (kn_rail (reopened R k)) = rl_pending (kn_rail k)"
proof
  fix orderId
  have "rl_pending (kn_rail (reopened R k)) orderId = Some i \<longleftrightarrow> rl_pending (kn_rail k) orderId = Some i" for i
    using reopened_pending [of k R orderId i] assms by (simp add: rail_ok_def agrees_def)
  then show "rl_pending (kn_rail (reopened R k)) orderId = rl_pending (kn_rail k) orderId" by (metis option.exhaust)
qed

lemma reopened_sent [simp]: "kn_sent (reopened R k) = kn_sent k"
  by (simp add: reopened_def hydrateCommands_def on_rail_def split: prod.split)

lemma settle_sent: "kn_sent (settle_command api i response k) = kn_sent k"
  by (cases response) (simp_all add: settle_command_def Let_def load_frame on_rail_def)

lemma dispatch_sent: "kn_sent (dispatch api i k) = requestOf (row_of i) # kn_sent k"
proof -
  obtain result k' where p: "post_command api i (stage_command i k) = (result, k')" by (cases "post_command api i (stage_command i k)")
  then have "kn_sent k' = requestOf (row_of i) # kn_sent k"
    using post_frame(5) [of api i "stage_command i k"] by (simp add: stage_command_def on_disk_def on_rail_def)
  then show ?thesis by (cases result) (simp_all add: dispatch_def p settle_sent drop_command_def on_disk_def on_rail_def)
qed


text \<open>A press whose answer is lost: one ticket on the rail, a network that fails.\<close>

definition lossy_api :: "unit rail_api" where
  "lossy_api =
     \<lparr>ra_post = (\<lambda>i request n. (NetworkError ''Failed to fetch'', n)),
      ra_tickets = (\<lambda>R n. (Inr [\<lparr>rt_orderId = ''o1'', rt_ticket =
         \<lparr>kt_restaurantId = ''demo-restaurant'', kt_tableNumber = ''5'', kt_items = [], kt_state = SENT_TO_KITCHEN',
          kt_sourceEventVersion = 3, kt_createdAt = 1, kt_updatedAt = 1\<rparr>\<rparr>], n))\<rparr>"

definition new_kitchen :: "unit kitchen" where
  "new_kitchen =
     \<lparr>kn_rail = fresh_rail, kn_store = empty_store, 
      kn_tab = \<lparr>tab_offlineTerminals = [], tab_arms = (\<lambda>_. False), tab_latches = (\<lambda>_. False), tab_effects = []\<rparr>, kn_net = (), kn_now = 9,
      kn_uuid = (\<lambda>n. replicate (n + 1) CHR ''u''), kn_drawn = 0, kn_sent = []\<rparr>"

definition pressed_kitchen :: "unit kitchen" where
  "pressed_kitchen =
     fold (rail_perform lossy_api ''demo-restaurant'') [Refresh None, Press ''o1'' preparing]
       (reopened ''demo-restaurant'' new_kitchen)"

lemma pressed_pending:
  "rl_pending (kn_rail pressed_kitchen) ''o1'' = Some \<lparr>ki_orderId = ''o1'', ki_restaurantId = ''demo-restaurant'',
     ki_command = preparing, ki_mutationId = ''u'', ki_baseVersion = 3\<rparr>"
  by code_simp


end
