(* ===== verification/Transport_Switch.thy ===== *)
theory Transport_Switch
  imports Realtime_Client Client_Api
begin

text \<open>
  Which transport a screen is on, \<open>apps/web/src/stores/connection.ts\<close>, with the polling transport of
  \<open>realtime/polling.ts\<close>. \<open>start\<close> and the 15-second re-poll ask the server for the flag and act on the answer when it comes; in
  between, the screen may move on, the operator may throw a latch, and old connections still call back. Each piece between two
  \<open>await\<close>s is a definition, and \<open>switch_step\<close> interleaves them.

  The options a screen passes to \<open>start\<close> are compared by identity: they are an argument type \<open>'o\<close>. The socket itself is
  \<open>socket.io\<close>'s; it calls back whenever it likes, closed or not.
\<close>

section \<open>State\<close>

datatype transport = PUSH | POLLING | UNKNOWN

datatype link = Socket | Poller

record 'o connection_store =
  cs_generation :: nat
  cs_transport :: transport
  cs_connection :: "(nat \<times> link \<times> 'o) option"
  cs_connected :: bool
  cs_lastOptions :: "'o option"
  cs_flagPoll :: bool
  cs_gate :: event_gate
  cs_lastVerdict :: "gate_verdict option"

definition useConnectionStore :: "'o connection_store" where
  "useConnectionStore =
     \<lparr>cs_generation = 0, cs_transport = UNKNOWN, cs_connection = None, cs_connected = False, cs_lastOptions = None,
      cs_flagPoll = False, cs_gate = createEventGate, cs_lastVerdict = None\<rparr>"

definition pushEnabled :: "'o connection_store \<Rightarrow> bool" where
  "pushEnabled c \<longleftrightarrow> cs_transport c = PUSH"

text \<open>The answer of \<open>fetchConfig\<close>: the flag, or nothing when it threw. The latch is read before the request.\<close>

definition resolveTransport :: "bool \<Rightarrow> bool option \<Rightarrow> transport" where
  "resolveTransport forced config =
     (if forced then POLLING
      else case config of None \<Rightarrow> UNKNOWN | Some push \<Rightarrow> if push then PUSH else POLLING)"

section \<open>Opening and closing\<close>

definition teardown :: "'o connection_store \<Rightarrow> 'o connection_store" where
  "teardown c = c\<lparr>cs_connection := None, cs_connected := False\<rparr>"

definition openPush :: "tab \<Rightarrow> 'o \<Rightarrow> nat \<Rightarrow> (nat \<times> link \<times> 'o) option" where
  "openPush t options mine = (if isLatched socket_disabled t then None else Some (mine, Socket, options))"

definition openPolling :: "'o \<Rightarrow> nat \<Rightarrow> (nat \<times> link \<times> 'o) option" where
  "openPolling options mine = Some (mine, Poller, options)"

definition startFlagPoll :: "'o connection_store \<Rightarrow> 'o connection_store" where
  "startFlagPoll c = c\<lparr>cs_flagPoll := True\<rparr>"

definition open_transport :: "tab \<Rightarrow> 'o \<Rightarrow> transport \<Rightarrow> 'o connection_store \<Rightarrow> 'o connection_store" where
  "open_transport t options resolved c =
     (let mine = cs_generation c + 1;
          c' = startFlagPoll ((teardown (c\<lparr>cs_generation := mine\<rparr>))\<lparr>cs_transport := resolved\<rparr>);
          opened = (case resolved of
                      PUSH \<Rightarrow> openPush t options mine
                    | POLLING \<Rightarrow> openPolling options mine
                    | UNKNOWN \<Rightarrow> None)
      in case opened of None \<Rightarrow> c' | Some o' \<Rightarrow> c'\<lparr>cs_connection := Some o'\<rparr>)"

text \<open>\<open>start\<close> up to its \<open>await\<close>, which claims a generation, and after it.\<close>

definition start_claim :: "'o \<Rightarrow> 'o connection_store \<Rightarrow> nat \<times> 'o connection_store" where
  "start_claim options c =
     (let mine = cs_generation c + 1 in (mine, c\<lparr>cs_lastOptions := Some options, cs_generation := mine\<rparr>))"

definition start_resolved :: "tab \<Rightarrow> nat \<Rightarrow> 'o \<Rightarrow> transport \<Rightarrow> 'o connection_store \<Rightarrow> 'o connection_store" where
  "start_resolved t mine options resolved c =
     (if mine \<noteq> cs_generation c then c else open_transport t options resolved c)"

text \<open>The answer of a tick of the re-poll.\<close>

definition poll_resolved :: "tab \<Rightarrow> 'o \<Rightarrow> transport \<Rightarrow> 'o connection_store \<Rightarrow> 'o connection_store" where
  "poll_resolved t options resolved c =
     (if resolved = UNKNOWN \<or> resolved = cs_transport c then c
      else if cs_lastOptions c = Some options then open_transport t options resolved c else c)"

definition stop :: "'o connection_store \<Rightarrow> 'o connection_store" where
  "stop c =
     (teardown (c\<lparr>cs_lastOptions := None, cs_generation := cs_generation c + 1\<rparr>))\<lparr>cs_flagPoll := False\<rparr>"

section \<open>What a connection calls back\<close>

text \<open>Each gives the refreshes the screen is asked for: \<open>None\<close> without an event, \<open>Some e\<close> for one.\<close>

definition onConnected :: "nat \<Rightarrow> 'o connection_store \<Rightarrow> domain_event option list \<times> 'o connection_store" where
  "onConnected mine c =
     (if mine \<noteq> cs_generation c then ([], c) else ([None], c\<lparr>cs_connected := True\<rparr>))"

definition onDisconnected :: "nat \<Rightarrow> 'o connection_store \<Rightarrow> 'o connection_store" where
  "onDisconnected mine c = (if mine = cs_generation c then c\<lparr>cs_connected := False\<rparr> else c)"

definition onEvent ::
  "nat \<Rightarrow> domain_event \<Rightarrow> int \<Rightarrow> 'o connection_store \<Rightarrow> domain_event option list \<times> 'o connection_store" where
  "onEvent mine event heldVersion c =
     (if mine \<noteq> cs_generation c then ([], c)
      else let (verdict, gate) = gate_accept historyLimit event heldVersion (cs_gate c) in
           (if verdict = Accepted then [Some event] else [], c\<lparr>cs_gate := gate, cs_lastVerdict := Some verdict\<rparr>))"

definition onPoll :: "nat \<Rightarrow> 'o connection_store \<Rightarrow> domain_event option list" where
  "onPoll mine c = (if mine = cs_generation c then [None] else [])"

section \<open>The polling transport\<close>

record poller =
  po_closed :: bool
  po_inFlight :: bool

definition poll :: "poller \<Rightarrow> bool \<times> poller" where
  "poll p = (if po_closed p \<or> po_inFlight p then (False, p) else (True, p\<lparr>po_inFlight := True\<rparr>))"

definition poll_settled :: "poller \<Rightarrow> poller" where
  "poll_settled p = p\<lparr>po_inFlight := False\<rparr>"

definition poll_close :: "poller \<Rightarrow> poller" where
  "poll_close p = p\<lparr>po_closed := True\<rparr>"

section \<open>Interleavings\<close>

text \<open>
  The requests in flight: a \<open>start\<close> with its claim, its options and the latch it read; a tick with its options and
  latch. \<open>sw_opened\<close> lists every connection ever opened: any of them may still call back.
\<close>

record 'o switch =
  sw_store :: "'o connection_store"
  sw_tab :: tab
  sw_starts :: "(nat \<times> 'o \<times> bool) list"
  sw_polls :: "('o \<times> bool) list"
  sw_opened :: "(nat \<times> link \<times> 'o) list"

definition with_store :: "'o connection_store \<Rightarrow> 'o switch \<Rightarrow> 'o switch" where
  "with_store c s =
     s\<lparr>sw_store := c, sw_opened := (case cs_connection c of None \<Rightarrow> sw_opened s | Some o' \<Rightarrow> List.insert o' (sw_opened s))\<rparr>"

definition begin_start :: "'o \<Rightarrow> 'o switch \<Rightarrow> 'o switch" where
  "begin_start options s =
     (let (mine, c) = start_claim options (sw_store s)
      in (with_store c s)\<lparr>sw_starts := (mine, options, isLatched polling_forced (sw_tab s)) # sw_starts s\<rparr>)"

text \<open>A latch re-runs \<open>start\<close> against the screen that is up.\<close>

definition throw_latch :: "client_latch \<Rightarrow> bool \<Rightarrow> 'o switch \<Rightarrow> 'o switch" where
  "throw_latch latch v s =
     (let s' = s\<lparr>sw_tab := setLatch latch v (sw_tab s)\<rparr> in
      case cs_lastOptions (sw_store s) of None \<Rightarrow> s' | Some options \<Rightarrow> begin_start options s')"

inductive switch_step :: "'o switch \<Rightarrow> 'o switch \<Rightarrow> bool" where
  started: "switch_step s (begin_start options s)"
| answered: "(mine, options, forced) \<in> set (sw_starts s) \<Longrightarrow>
     switch_step s
       ((with_store (start_resolved (sw_tab s) mine options (resolveTransport forced config) (sw_store s)) s)
          \<lparr>sw_starts := removeAll (mine, options, forced) (sw_starts s)\<rparr>)"
| ticked: "cs_flagPoll (sw_store s) \<Longrightarrow> cs_lastOptions (sw_store s) = Some options \<Longrightarrow>
     switch_step s (s\<lparr>sw_polls := (options, isLatched polling_forced (sw_tab s)) # sw_polls s\<rparr>)"
| repolled: "(options, forced) \<in> set (sw_polls s) \<Longrightarrow>
     switch_step s (with_store (poll_resolved (sw_tab s) options (resolveTransport forced config) (sw_store s)) s)"
| latched: "switch_step s (throw_latch latch v s)"
| stopped: "switch_step s (with_store (stop (sw_store s)) s)"
| connected: "(mine, Socket, options) \<in> set (sw_opened s) \<Longrightarrow>
     switch_step s (with_store (snd (onConnected mine (sw_store s))) s)"
| disconnected: "(mine, Socket, options) \<in> set (sw_opened s) \<Longrightarrow>
     switch_step s (with_store (onDisconnected mine (sw_store s)) s)"
| pushed: "(mine, Socket, options) \<in> set (sw_opened s) \<Longrightarrow>
     switch_step s (with_store (snd (onEvent mine event held (sw_store s))) s)"

definition mounted :: "tab \<Rightarrow> 'o switch" where
  "mounted t = \<lparr>sw_store = useConnectionStore, sw_tab = t, sw_starts = [], sw_polls = [], sw_opened = []\<rparr>"

section \<open>One transport, the latest screen's\<close>

definition link_of :: "transport \<Rightarrow> link option" where
  "link_of tr = (case tr of PUSH \<Rightarrow> Some Socket | POLLING \<Rightarrow> Some Poller | UNKNOWN \<Rightarrow> None)"

definition claims_ok :: "nat \<Rightarrow> 'o option \<Rightarrow> (nat \<times> 'o \<times> bool) set \<Rightarrow> bool" where
  "claims_ok gen asked starts \<longleftrightarrow> (\<forall>x \<in> starts. fst x \<le> gen \<and> (fst x = gen \<longrightarrow> asked = Some (fst (snd x))))"

definition opened_ok :: "nat \<Rightarrow> (nat \<times> link \<times> 'o) option \<Rightarrow> 'o option \<Rightarrow> (nat \<times> link \<times> 'o) set \<Rightarrow> bool" where
  "opened_ok gen conn asked opened \<longleftrightarrow>
     (\<forall>x \<in> opened. fst x \<le> gen \<and> (fst x = gen \<longrightarrow> conn = Some x \<and> asked = Some (snd (snd x))))"

definition current_ok ::
  "nat \<Rightarrow> (nat \<times> link \<times> 'o) option \<Rightarrow> transport \<Rightarrow> bool \<Rightarrow> (nat \<times> 'o \<times> bool) set \<Rightarrow> (nat \<times> link \<times> 'o) set \<Rightarrow> bool" where
  "current_ok gen conn tr repolls starts opened \<longleftrightarrow>
     (\<forall>x \<in> set_option conn. x \<in> opened \<and> link_of tr = Some (fst (snd x)) \<and> repolls \<and> (fst x = gen \<or> gen \<in> fst ` starts))"

definition screen_ok :: "'o connection_store \<Rightarrow> bool" where
  "screen_ok c \<longleftrightarrow>
     (cs_lastOptions c = None \<longrightarrow> cs_connection c = None \<and> \<not> cs_flagPoll c)
     \<and> (cs_connected c \<longrightarrow> map_option (fst \<circ> snd) (cs_connection c) = Some Socket)
     \<and> gate_ok historyLimit (cs_gate c)"

definition store_ok :: "'o connection_store \<Rightarrow> (nat \<times> 'o \<times> bool) set \<Rightarrow> (nat \<times> link \<times> 'o) set \<Rightarrow> bool" where
  "store_ok c starts opened \<longleftrightarrow>
     claims_ok (cs_generation c) (cs_lastOptions c) starts
     \<and> opened_ok (cs_generation c) (cs_connection c) (cs_lastOptions c) opened
     \<and> current_ok (cs_generation c) (cs_connection c) (cs_transport c) (cs_flagPoll c) starts opened
     \<and> screen_ok c"

definition switch_ok :: "'o switch \<Rightarrow> bool" where
  "switch_ok s \<longleftrightarrow> store_ok (sw_store s) (set (sw_starts s)) (set (sw_opened s))"

lemma claims_bump: "claims_ok gen asked starts \<Longrightarrow> claims_ok (gen + 1) asked' starts"
  by (force simp: claims_ok_def)

lemma opened_bump: "opened_ok gen conn asked opened \<Longrightarrow> opened_ok (gen + 1) conn' asked' opened"
  by (force simp: opened_ok_def)

lemma opened_insert: "opened_ok gen conn asked opened \<Longrightarrow> conn = Some x \<Longrightarrow> fst x = gen \<Longrightarrow> asked = Some (snd (snd x)) \<Longrightarrow>
    opened_ok gen conn asked (insert x opened)"
  by (simp add: opened_ok_def)

lemma current_known: "current_ok gen conn tr repolls starts opened \<Longrightarrow> set_option conn \<union> opened = opened"
  by (auto simp: current_ok_def)

lemma with_store_simps [simp]:
  "sw_store (with_store c s) = c" "sw_starts (with_store c s) = sw_starts s" "sw_polls (with_store c s) = sw_polls s"
  "sw_tab (with_store c s) = sw_tab s"
  "set (sw_opened (with_store c s)) = set_option (cs_connection c) \<union> set (sw_opened s)"
  by (auto simp: with_store_def split: option.split)

lemma open_transport_fields:
  "cs_generation (open_transport t options resolved c) = cs_generation c + 1"
  "cs_transport (open_transport t options resolved c) = resolved"
  "cs_connected (open_transport t options resolved c) = False"
  "cs_lastOptions (open_transport t options resolved c) = cs_lastOptions c"
  "cs_flagPoll (open_transport t options resolved c)"
  "cs_gate (open_transport t options resolved c) = cs_gate c"
  "cs_connection (open_transport t options resolved c) \<noteq> None \<Longrightarrow>
     cs_connection (open_transport t options resolved c) = Some (cs_generation c + 1, case resolved of PUSH \<Rightarrow> Socket | _ \<Rightarrow> Poller, options)
     \<and> resolved \<noteq> UNKNOWN"
  by (cases resolved; simp add: open_transport_def startFlagPoll_def teardown_def openPush_def openPolling_def Let_def split: option.splits if_splits)+

lemma open_ok:
  assumes ok: "store_ok c starts opened" and asked: "cs_lastOptions c = Some options" and c': "c' = open_transport t options resolved c"
  shows "store_ok c' starts (set_option (cs_connection c') \<union> opened)"
    and "\<forall>x \<in> set_option (cs_connection c'). fst x = cs_generation c'"
proof -
  note fields = open_transport_fields [of t options resolved c, folded c']
  have conn: "x = (cs_generation c + 1, case resolved of PUSH \<Rightarrow> Socket | _ \<Rightarrow> Poller, options) \<and> link_of resolved = Some (fst (snd x))"
    if "cs_connection c' = Some x" for x
    using fields(7) that by (auto simp: link_of_def split: transport.splits)
  show "\<forall>x \<in> set_option (cs_connection c'). fst x = cs_generation c'"
  proof
    fix x
    assume "x \<in> set_option (cs_connection c')"
    then have "cs_connection c' = Some x" by simp
    from conn [OF this] show "fst x = cs_generation c'" by (simp add: fields(1))
  qed
  have cl: "claims_ok (cs_generation c') (cs_lastOptions c') starts"
    using ok unfolding fields(1) store_ok_def by (blast intro: claims_bump)
  have op: "opened_ok (cs_generation c') (cs_connection c') (cs_lastOptions c') opened"
    using ok unfolding fields(1) store_ok_def by (blast intro: opened_bump)
  have sc: "screen_ok c'" using ok asked by (simp add: store_ok_def screen_ok_def fields(3-6))
  show "store_ok c' starts (set_option (cs_connection c') \<union> opened)"
  proof (cases "cs_connection c'")
    case None
    with cl op sc show ?thesis by (simp add: store_ok_def current_ok_def)
  next
    case (Some x)
    with conn [OF Some] have "opened_ok (cs_generation c') (cs_connection c') (cs_lastOptions c') (insert x opened)"
      by (intro opened_insert [OF op]) (simp_all add: fields(1,4) asked)
    moreover have "current_ok (cs_generation c') (cs_connection c') (cs_transport c') (cs_flagPoll c') starts (insert x opened)"
      using conn [OF Some] Some by (simp add: current_ok_def fields(1,2,5))
    ultimately show ?thesis using cl sc Some by (simp add: store_ok_def)
  qed
qed

lemma same_opened: "store_ok c starts opened \<Longrightarrow> set_option (cs_connection c) \<union> opened = opened"
  unfolding store_ok_def by (blast dest: current_known)

lemma begin_start_simps:
  "sw_store (begin_start options s) = (sw_store s)\<lparr>cs_lastOptions := Some options, cs_generation := cs_generation (sw_store s) + 1\<rparr>"
  "sw_starts (begin_start options s) = (cs_generation (sw_store s) + 1, options, isLatched polling_forced (sw_tab s)) # sw_starts s"
  "set (sw_opened (begin_start options s)) = set_option (cs_connection (sw_store s)) \<union> set (sw_opened s)"
  by (simp_all add: begin_start_def start_claim_def Let_def)

lemma claim_ok:
  assumes "store_ok c starts opened" and c': "c' = c\<lparr>cs_lastOptions := Some options, cs_generation := cs_generation c + 1\<rparr>"
  shows "store_ok c' (insert (cs_generation c + 1, options, forced) starts) opened"
proof -
  have "claims_ok (cs_generation c + 1) (Some options) starts" using assms(1) unfolding store_ok_def by (blast intro: claims_bump)
  moreover have "opened_ok (cs_generation c + 1) (cs_connection c) (Some options) opened"
    using assms(1) unfolding store_ok_def by (blast intro: opened_bump)
  ultimately show ?thesis using assms
    by (simp add: store_ok_def claims_ok_def current_ok_def screen_ok_def)
qed

lemma begin_start_ok: "switch_ok s \<Longrightarrow> switch_ok (begin_start options s)"
  using claim_ok [OF _ refl, of "sw_store s" "set (sw_starts s)" "set (sw_opened s)" options "isLatched polling_forced (sw_tab s)"]
  by (simp add: switch_ok_def begin_start_simps same_opened)

lemma stop_ok:
  assumes "store_ok c starts opened"
  shows "store_ok (stop c) starts opened"
proof -
  have "claims_ok (cs_generation c + 1) None starts" using assms unfolding store_ok_def by (blast intro: claims_bump)
  moreover have "opened_ok (cs_generation c + 1) None None opened" using assms unfolding store_ok_def by (blast intro: opened_bump)
  ultimately show ?thesis using assms by (simp add: store_ok_def stop_def teardown_def current_ok_def screen_ok_def)
qed

lemma answer_ok:
  assumes ok: "store_ok c starts opened" and claim: "(mine, options, forced) \<in> starts"
    and c': "c' = start_resolved t mine options resolved c"
  shows "store_ok c' (starts - {(mine, options, forced)}) (set_option (cs_connection c') \<union> opened)"
proof (cases "mine = cs_generation c")
  case True
  then have asked: "cs_lastOptions c = Some options" using ok claim by (auto simp: store_ok_def claims_ok_def)
  have "c' = open_transport t options resolved c" using c' True by (simp add: start_resolved_def)
  note opened = open_ok [OF ok asked this]
  then show ?thesis by (simp add: store_ok_def current_ok_def claims_ok_def)
next
  case False
  then have "c' = c" using c' by (simp add: start_resolved_def)
  moreover have "cs_generation c \<in> fst ` (starts - {(mine, options, forced)})" if "cs_generation c \<in> fst ` starts"
    using that False by force
  then have "current_ok (cs_generation c) (cs_connection c) (cs_transport c) (cs_flagPoll c) (starts - {(mine, options, forced)}) opened"
    using ok unfolding store_ok_def current_ok_def by blast
  ultimately show ?thesis using ok same_opened [OF ok] by (simp add: store_ok_def claims_ok_def)
qed

lemma callback_ok:
  assumes ok: "store_ok c starts opened" and op: "(mine, Socket, options) \<in> opened"
  shows "store_ok (snd (onConnected mine c)) starts opened"
    and "store_ok (onDisconnected mine c) starts opened"
    and "store_ok (snd (onEvent mine event held c)) starts opened"
proof -
  have socket: "cs_connection c = Some (mine, Socket, options)" if "mine = cs_generation c"
    using ok op that by (auto simp: store_ok_def opened_ok_def)
  show "store_ok (snd (onConnected mine c)) starts opened"
  proof (cases "mine = cs_generation c")
    case True
    from socket [OF True] have "screen_ok (c\<lparr>cs_connected := True\<rparr>)" using ok by (auto simp: store_ok_def screen_ok_def)
    then show ?thesis using ok True by (simp add: onConnected_def store_ok_def)
  next
    case False
    with ok show ?thesis by (simp add: onConnected_def)
  qed
  show "store_ok (onDisconnected mine c) starts opened"
    using ok by (simp add: onDisconnected_def store_ok_def screen_ok_def)
  have "gate_ok historyLimit (snd (gate_accept historyLimit event held (cs_gate c)))"
    using ok by (intro gate_accept_ok) (simp add: store_ok_def screen_ok_def)
  then show "store_ok (snd (onEvent mine event held c)) starts opened"
    using ok by (cases "gate_accept historyLimit event held (cs_gate c)") (simp add: onEvent_def store_ok_def screen_ok_def)
qed

lemma callbacks_keep_connection [simp]:
  "cs_connection (snd (onConnected mine c)) = cs_connection c" "cs_connection (onDisconnected mine c) = cs_connection c"
  "cs_connection (snd (onEvent mine event held c)) = cs_connection c"
  by (simp_all add: onConnected_def onDisconnected_def onEvent_def split: prod.split)

lemma switch_step_ok: "switch_step s s' \<Longrightarrow> switch_ok s \<Longrightarrow> switch_ok s'"
proof (induction rule: switch_step.induct)
  case (started s options)
  then show ?case by (rule begin_start_ok)
next
  case (answered mine options forced s config)
  then show ?case using answer_ok [OF _ answered.hyps refl] by (simp add: switch_ok_def)
next
  case (ticked s options)
  then show ?case by (simp add: switch_ok_def)
next
  case (repolled options forced s config)
  then show ?case
    using open_ok(1) [OF _ _ refl] by (auto simp: switch_ok_def poll_resolved_def same_opened)
next
  case (latched s latch v)
  then have "switch_ok (s\<lparr>sw_tab := setLatch latch v (sw_tab s)\<rparr>)" by (simp add: switch_ok_def)
  with latched show ?case by (simp add: throw_latch_def Let_def begin_start_ok split: option.split)
next
  case (stopped s)
  then have "store_ok (stop (sw_store s)) (set (sw_starts s)) (set (sw_opened s))" unfolding switch_ok_def by (rule stop_ok)
  then show ?case by (simp add: switch_ok_def same_opened)
next
  case (connected mine options s)
  then show ?case using callback_ok(1) [OF _ connected.hyps] by (simp add: switch_ok_def same_opened)
next
  case (disconnected mine options s)
  then show ?case using callback_ok(2) [OF _ disconnected.hyps] by (simp add: switch_ok_def same_opened)
next
  case (pushed mine options s event held)
  then show ?case using callback_ok(3) [OF _ pushed.hyps] by (simp add: switch_ok_def same_opened)
qed

lemma mounted_ok: "switch_ok (mounted t)"
  by (simp add: switch_ok_def mounted_def useConnectionStore_def store_ok_def claims_ok_def opened_ok_def current_ok_def
      screen_ok_def createEventGate_def gate_ok_def)

lemma switch_reachable_ok: "switch_step\<^sup>*\<^sup>* (mounted t) s \<Longrightarrow> switch_ok s"
  by (induction rule: rtranclp_induct) (auto simp: mounted_ok dest: switch_step_ok)

text \<open>
  C35. The screen has one transport, and late answers do not change whose it is. However starts, stops, latches, ticks of the re-poll, their answers and
  the callbacks of sockets fall: the connection held is of the transport shown and of the options last asked for,
  unless a newer start is waiting for its answer; a connection that is not the one held causes no refresh, whatever
  it delivers; after a stop nothing is open, no poll is armed, and no answer still on its way opens anything; an unreachable
  configuration never closes what works; the badge is green only while the connection held is a socket.
\<close>

theorem transport_belongs_to_the_latest_start:
  assumes "switch_step\<^sup>*\<^sup>* (mounted t) s" and c: "c = sw_store s"
  shows "(\<forall>g l options. cs_connection c = Some (g, l, options) \<longrightarrow>
      link_of (cs_transport c) = Some l \<and> cs_flagPoll c
      \<and> (g = cs_generation c \<and> cs_lastOptions c = Some options \<or> (\<exists>o' f. (cs_generation c, o', f) \<in> set (sw_starts s))))
    \<and> (\<forall>g l options. (g, l, options) \<in> set (sw_opened s) \<and> cs_connection c \<noteq> Some (g, l, options) \<longrightarrow>
         onConnected g c = ([], c) \<and> onDisconnected g c = c \<and> onPoll g c = []
         \<and> (\<forall>event held. onEvent g event held c = ([], c)))
    \<and> (cs_lastOptions c = None \<longrightarrow>
         cs_connection c = None \<and> \<not> cs_flagPoll c
         \<and> (\<forall>(g, options, f) \<in> set (sw_starts s). \<forall>u resolved. start_resolved u g options resolved c = c)
         \<and> (\<forall>u options resolved. poll_resolved u options resolved c = c))
    \<and> (\<forall>u options. poll_resolved u options UNKNOWN c = c)
    \<and> (cs_connected c \<longrightarrow> (\<exists>g options. cs_connection c = Some (g, Socket, options)))"
proof -
  have ok: "claims_ok (cs_generation c) (cs_lastOptions c) (set (sw_starts s))"
    "opened_ok (cs_generation c) (cs_connection c) (cs_lastOptions c) (set (sw_opened s))"
    "current_ok (cs_generation c) (cs_connection c) (cs_transport c) (cs_flagPoll c) (set (sw_starts s)) (set (sw_opened s))"
    "screen_ok c"
    using switch_reachable_ok [OF assms(1)] by (simp_all add: switch_ok_def store_ok_def c)
  have held: "link_of (cs_transport c) = Some l \<and> cs_flagPoll c
      \<and> (g = cs_generation c \<and> cs_lastOptions c = Some options \<or> (\<exists>o' f. (cs_generation c, o', f) \<in> set (sw_starts s)))"
    if "cs_connection c = Some (g, l, options)" for g l options
    using ok(2,3) that by (auto simp: current_ok_def opened_ok_def)
  have muted: "g \<noteq> cs_generation c"
    if "(g, l, options) \<in> set (sw_opened s) \<and> cs_connection c \<noteq> Some (g, l, options)" for g l options
    using ok(2) that by (auto simp: opened_ok_def)
  have stopped: "start_resolved u g options resolved c = c"
    if "cs_lastOptions c = None" "(g, options, f) \<in> set (sw_starts s)" for u g options f resolved
    using ok(1) that by (force simp: claims_ok_def start_resolved_def)
  have up: "\<exists>g options. cs_connection c = Some (g, Socket, options)" if "cs_connected c"
    using ok(4) that by (auto simp: screen_ok_def)
  show ?thesis
    using held muted stopped up ok(4)
    by (auto simp: onConnected_def onDisconnected_def onPoll_def onEvent_def poll_resolved_def screen_ok_def)
qed

text \<open>
  A tick's answer is guarded by the options alone. A latch thrown while it is on its way re-runs \<open>start\<close> with the same options, so an answer
  resolved before the latch may land after it: the terminal is pushed to although polling is forced, until the
  next tick.
\<close>

definition quiet_tab :: tab where
  "quiet_tab = \<lparr>tab_offlineTerminals = [], tab_arms = (\<lambda>_. False), tab_latches = (\<lambda>_. False), tab_effects = []\<rparr>"

definition pushed_to_while_forced :: "unit switch" where
  "pushed_to_while_forced =
     (let s1 = begin_start () (mounted quiet_tab);
          s2 = (with_store (start_resolved (sw_tab s1) 1 () PUSH (sw_store s1)) s1)\<lparr>sw_starts := []\<rparr>;
          s3 = s2\<lparr>sw_polls := [((), False)]\<rparr>;
          s4 = throw_latch polling_forced True s3;
          s5 = (with_store (start_resolved (sw_tab s4) 3 () POLLING (sw_store s4)) s4)\<lparr>sw_starts := []\<rparr>
      in with_store (poll_resolved (sw_tab s5) () PUSH (sw_store s5)) s5)"

lemmas switch_eval = begin_start_def start_claim_def mounted_def useConnectionStore_def with_store_def start_resolved_def
  open_transport_def startFlagPoll_def teardown_def openPush_def openPolling_def throw_latch_def poll_resolved_def
  isLatched_def setLatch_def quiet_tab_def Let_def List.insert_def

lemma pushed_to_while_forced_reached: "switch_step\<^sup>*\<^sup>* (mounted quiet_tab) pushed_to_while_forced"
proof -
  define s1 where "s1 = begin_start () (mounted quiet_tab)"
  define s2 where "s2 = (with_store (start_resolved (sw_tab s1) 1 () PUSH (sw_store s1)) s1)\<lparr>sw_starts := []\<rparr>"
  define s3 where "s3 = s2\<lparr>sw_polls := [((), False)]\<rparr>"
  define s4 where "s4 = throw_latch polling_forced True s3"
  define s5 where "s5 = (with_store (start_resolved (sw_tab s4) 3 () POLLING (sw_store s4)) s4)\<lparr>sw_starts := []\<rparr>"
  note ss = s1_def s2_def s3_def s4_def s5_def
  have "switch_step (mounted quiet_tab) s1" unfolding s1_def by (rule switch_step.started)
  moreover have "switch_step s1 s2"
    using switch_step.answered [of 1 "()" False s1 "Some True"] by (simp add: ss resolveTransport_def switch_eval)
  moreover have "switch_step s2 s3" using switch_step.ticked [of s2 "()"] by (simp add: ss switch_eval)
  moreover have "switch_step s3 s4" unfolding s4_def by (rule switch_step.latched)
  moreover have "switch_step s4 s5"
    using switch_step.answered [of 3 "()" True s4 None] by (simp add: ss resolveTransport_def switch_eval)
  moreover have "switch_step s5 pushed_to_while_forced"
    using switch_step.repolled [of "()" False s5 "Some True"]
    by (simp add: ss pushed_to_while_forced_def resolveTransport_def switch_eval)
  ultimately show ?thesis by (meson rtranclp.rtrancl_into_rtrancl rtranclp.rtrancl_refl)
qed

lemma stale_poll_overrides_the_latch:
  "isLatched polling_forced (sw_tab pushed_to_while_forced) \<and> sw_starts pushed_to_while_forced = []
   \<and> cs_transport (sw_store pushed_to_while_forced) = PUSH"
  by (simp add: pushed_to_while_forced_def switch_eval)

theorem transport_belongs_to_the_latest_start_witness:
  "\<exists>g. cs_connection (sw_store pushed_to_while_forced) = Some (g, Socket, ()) \<and> link_of PUSH = Some Socket
    \<and> g = cs_generation (sw_store pushed_to_while_forced)"
proof -
  have "cs_connection (sw_store pushed_to_while_forced) = Some (5, Socket, ())" "sw_starts pushed_to_while_forced = []"
    "cs_transport (sw_store pushed_to_while_forced) = PUSH"
    by (simp_all add: pushed_to_while_forced_def switch_eval)
  with transport_belongs_to_the_latest_start [OF pushed_to_while_forced_reached refl] show ?thesis by auto
qed

end
