(* ===== verification/Realtime_Delivery.thy ===== *)
theory Realtime_Delivery
  imports Kitchen_Projection
begin

text \<open>
  Realtime delivery at the API, \<open>apps/api/src/modules/realtime\<close>: the rooms an event lands in (\<open>broadcast.ts\<close>), the consumer that marks an
  event and then emits it (\<open>consumer.ts\<close>), the rooms a socket is in (\<open>socket-server.ts\<close>), and presence
  (\<open>presence-report.ts\<close>, \<open>api/presence-routes.ts\<close>, with the store of \<open>debug/infrastructure/redis-debug-store.ts\<close>).

  The mark commits before the emit: a crash in between loses the broadcast, and a crash before the mark lets the message be
  delivered again. \<open>z.uuid()\<close> is the argument \<open>is_uuid\<close>.
\<close>

section \<open>Rooms\<close>

definition restaurantRoom :: "tenant \<Rightarrow> string" where "restaurantRoom restaurantId = ''restaurant:'' @ restaurantId"
definition orderRoom :: "uuid \<Rightarrow> string" where "orderRoom orderId = ''order:'' @ orderId"
definition kitchenRoom :: "tenant \<Rightarrow> string" where "kitchenRoom restaurantId = ''kitchen:'' @ restaurantId"

definition KITCHEN_EVENT_TYPES :: "string list" where
  "KITCHEN_EVENT_TYPES = [''OrderSentToKitchen'', ''OrderPreparing'', ''OrderReady'', ''OrderCancelled'']"

definition roomsFor :: "domain_event \<Rightarrow> string list" where
  "roomsFor event =
     (let rooms = [orderRoom (ev_aggregateId event), restaurantRoom (ev_restaurantId event)] in
      if ev_eventType event \<in> set KITCHEN_EVENT_TYPES then rooms @ [kitchenRoom (ev_restaurantId event)] else rooms)"

section \<open>The consumer\<close>

definition REALTIME_CONSUMER :: string where
  "REALTIME_CONSUMER = ''realtime''"

datatype realtime_result = Emitted | DuplicateDelivery

text \<open>What a delivery meets: nothing, a crash between the commit and the emit, or a database that does not answer.\<close>

datatype delivery_fault = NoFault | CrashBeforeEmit | MarkFails

record realtime =
  rm_processed :: "(uuid \<times> string) list"
  rm_emitted :: "(string list \<times> domain_event) list"
  rm_broadcasts :: nat
  rm_duplicates :: nat

definition handleRealtimeEvent :: "delivery_fault \<Rightarrow> domain_event \<Rightarrow> realtime \<Rightarrow> realtime_result option \<times> realtime" where
  "handleRealtimeEvent fault event rm =
     (if fault = MarkFails then (None, rm)
      else if (ev_eventId event, REALTIME_CONSUMER) \<in> set (rm_processed rm) then (Some DuplicateDelivery, rm)
      else let rm' = rm\<lparr>rm_processed := (ev_eventId event, REALTIME_CONSUMER) # rm_processed rm\<rparr> in
        if fault = CrashBeforeEmit then (None, rm')
        else (Some Emitted, rm'\<lparr>rm_emitted := rm_emitted rm' @ [(roomsFor event, event)]\<rparr>))"

text \<open>
  \<open>envelopeSchema\<close>: \<open>z.number().int()\<close> takes the safe integers. An envelope's time is the instant its rendering names
  (\<open>toISOString\<close>, never empty), so \<open>occurredAt\<close> meets its \<open>min(1)\<close>; any other object is \<open>NotJson\<close>.
\<close>

datatype raw_message = Tombstone | NotJson | Envelope domain_event

definition parseDomainEvent :: "(string \<Rightarrow> bool) \<Rightarrow> raw_message \<Rightarrow> domain_event option" where
  "parseDomainEvent is_uuid raw =
     (case raw of
        Envelope e \<Rightarrow>
          if is_uuid (ev_eventId e) \<and> ev_eventType e \<noteq> [] \<and> is_uuid (ev_aggregateId e) \<and> ev_restaurantId e \<noteq> []
             \<and> safe_int (ev_version e) \<and> 0 \<le> ev_version e
          then Some e else None
      | _ \<Rightarrow> None)"

text \<open>\<open>eachMessage\<close>: a message without a value or that is no event is skipped for good.\<close>

definition realtime_message :: "(string \<Rightarrow> bool) \<Rightarrow> delivery_fault \<times> raw_message \<Rightarrow> realtime \<Rightarrow> realtime" where
  "realtime_message is_uuid m rm =
     (case parseDomainEvent is_uuid (snd m) of
        None \<Rightarrow> rm
      | Some event \<Rightarrow>
          (case handleRealtimeEvent (fst m) event rm of
             (Some Emitted, rm') \<Rightarrow> rm'\<lparr>rm_broadcasts := rm_broadcasts rm' + 1\<rparr>
           | (Some DuplicateDelivery, rm') \<Rightarrow> rm'\<lparr>rm_duplicates := rm_duplicates rm' + 1\<rparr>
           | (None, rm') \<Rightarrow> rm'))"

section \<open>Sockets\<close>

datatype screen_role = pos | kitchen_display

record subscribe_request =
  sr_restaurantId :: tenant
  sr_role :: screen_role
  sr_orderId :: "uuid option"

record socket =
  so_id :: string
  so_rooms :: "string set"
  so_claimed :: "string set"

definition connection :: "string \<Rightarrow> socket" where
  "connection i = \<lparr>so_id = i, so_rooms = {i}, so_claimed = {}\<rparr>"

definition subscribeSchema :: "(string \<Rightarrow> bool) \<Rightarrow> subscribe_request \<Rightarrow> bool" where
  "subscribeSchema is_uuid r \<longleftrightarrow>
     sr_restaurantId r \<noteq> [] \<and> (case sr_orderId r of None \<Rightarrow> True | Some i \<Rightarrow> is_uuid i)"

definition wanted_rooms :: "subscribe_request \<Rightarrow> string list" where
  "wanted_rooms r =
     (if sr_role r = kitchen_display then [kitchenRoom (sr_restaurantId r)]
      else restaurantRoom (sr_restaurantId r) # (case sr_orderId r of None \<Rightarrow> [] | Some i \<Rightarrow> [orderRoom i]))"

definition on_subscribe :: "(string \<Rightarrow> bool) \<Rightarrow> subscribe_request \<Rightarrow> socket \<Rightarrow> socket" where
  "on_subscribe is_uuid r s =
     (if \<not> subscribeSchema is_uuid r then s
      else let wanted = set (wanted_rooms r);
               kept = {room \<in> so_rooms s. room = so_id s \<or> room \<in> wanted}
           in s\<lparr>so_rooms := kept \<union> wanted\<rparr>)"

text \<open>\<open>io.to(rooms).emit\<close>: one copy for a socket in any of the rooms.\<close>

definition receives :: "socket \<Rightarrow> string list \<times> domain_event \<Rightarrow> bool" where
  "receives s m \<longleftrightarrow> (\<exists>room \<in> set (fst m). room \<in> so_rooms s)"

definition received :: "socket \<Rightarrow> realtime \<Rightarrow> domain_event list" where
  "received s rm = map snd (filter (receives s) (rm_emitted rm))"

section \<open>Presence\<close>

record presence_report =
  pr_terminalId :: string
  pr_restaurantId :: tenant
  pr_role :: screen_role
  pr_pendingCount :: int
  pr_offline :: bool

datatype presence_source = FromSocket string | FromPolling

record presence_entry =
  pe_report :: presence_report
  pe_source :: presence_source
  pe_lastSeenAt :: millis
  pe_expiresAt :: millis

definition KNOWN_TERMINAL_IDS :: "string list" where
  "KNOWN_TERMINAL_IDS = KITCHEN_TERMINAL_ID # map terminal_id TERMINALS"

definition presenceReportSchema :: "presence_report \<Rightarrow> bool" where
  "presenceReportSchema r \<longleftrightarrow>
     pr_terminalId r \<in> set KNOWN_TERMINAL_IDS
     \<and> 1 \<le> length (pr_restaurantId r) \<and> length (pr_restaurantId r) \<le> 64
     \<and> 0 \<le> pr_pendingCount r \<and> pr_pendingCount r \<le> 100000"

type_synonym presence_store = "string \<Rightarrow> presence_entry option"

definition presence_touch :: "millis \<Rightarrow> millis \<Rightarrow> presence_report \<Rightarrow> presence_source \<Rightarrow> presence_store \<Rightarrow> presence_store" where
  "presence_touch ttlMs now report origin store =
     store(pr_terminalId report \<mapsto> \<lparr>pe_report = report, pe_source = origin, pe_lastSeenAt = now, pe_expiresAt = now + ttlMs\<rparr>)"

definition presence_forget :: "string \<Rightarrow> presence_store \<Rightarrow> presence_store" where
  "presence_forget terminalId store = store(terminalId := None)"

text \<open>The keys a build of the schema above can have written, in the order of their names.\<close>

definition presence_list :: "millis \<Rightarrow> presence_store \<Rightarrow> presence_entry list" where
  "presence_list now store =
     filter (\<lambda>e. now < pe_expiresAt e) (List.map_filter store (sort KNOWN_TERMINAL_IDS))"

definition on_presence :: "millis \<Rightarrow> millis \<Rightarrow> presence_report \<Rightarrow> socket \<times> presence_store \<Rightarrow> socket \<times> presence_store" where
  "on_presence ttlMs now r s =
     (if \<not> presenceReportSchema r then s
      else ((fst s)\<lparr>so_claimed := insert (pr_terminalId r) (so_claimed (fst s))\<rparr>,
            presence_touch ttlMs now r (FromSocket (so_id (fst s))) (snd s)))"

definition on_disconnect :: "socket \<times> presence_store \<Rightarrow> presence_store" where
  "on_disconnect s = (\<lambda>t. if t \<in> so_claimed (fst s) then None else snd s t)"

text \<open>\<open>POST /api/presence\<close>: refused with 400 (\<open>None\<close>), or accepted whether or not the store could be written.\<close>

definition presenceRoute :: "millis \<Rightarrow> millis \<Rightarrow> bool \<Rightarrow> presence_report \<Rightarrow> presence_store \<Rightarrow> nat option \<times> presence_store" where
  "presenceRoute ttlMs now store_works r store =
     (if \<not> presenceReportSchema r then (None, store)
      else (Some 202, if store_works then presence_touch ttlMs now r FromPolling store else store))"

section \<open>The consumer as a deduplicating consumer\<close>

definition emit_step :: "delivery_fault \<times> domain_event \<Rightarrow> realtime \<Rightarrow> realtime" where
  "emit_step m rm = snd (handleRealtimeEvent (fst m) (snd m) rm)"

definition realtime_seen :: "realtime \<Rightarrow> uuid set" where
  "realtime_seen rm = {i. (i, REALTIME_CONSUMER) \<in> set (rm_processed rm)}"

abbreviation delivered_id :: "delivery_fault \<times> domain_event \<Rightarrow> uuid" where
  "delivered_id m \<equiv> ev_eventId (snd m)"

interpretation realtime: deduplicated delivered_id "\<lambda>m. fst m \<noteq> MarkFails" realtime_seen emit_step
  by unfold_locales (auto simp: emit_step_def handleRealtimeEvent_def realtime_seen_def Let_def)

definition idle_realtime :: realtime where
  "idle_realtime = \<lparr>rm_processed = [], rm_emitted = [], rm_broadcasts = 0, rm_duplicates = 0\<rparr>"

definition understood :: "(string \<Rightarrow> bool) \<Rightarrow> (delivery_fault \<times> raw_message) list \<Rightarrow> (delivery_fault \<times> domain_event) list" where
  "understood is_uuid ms = List.map_filter (\<lambda>m. map_option (Pair (fst m)) (parseDomainEvent is_uuid (snd m))) ms"

definition same_books :: "realtime \<Rightarrow> realtime \<Rightarrow> bool" where
  "same_books a b \<longleftrightarrow> rm_processed a = rm_processed b \<and> rm_emitted a = rm_emitted b"

lemma emit_step_books: "same_books a b \<Longrightarrow> same_books (emit_step m a) (emit_step m b)"
  by (auto simp: same_books_def emit_step_def handleRealtimeEvent_def Let_def)

lemma realtime_message_books:
  assumes "same_books a b"
  shows "same_books (realtime_message is_uuid m a)
    (case parseDomainEvent is_uuid (snd m) of None \<Rightarrow> b | Some e \<Rightarrow> emit_step (fst m, e) b)"
  using assms by (auto simp: same_books_def realtime_message_def emit_step_def handleRealtimeEvent_def Let_def split: option.split)

lemma realtime_messages_books:
  "same_books a b \<Longrightarrow> same_books (fold (realtime_message is_uuid) ms a) (fold emit_step (understood is_uuid ms) b)"
proof (induction ms arbitrary: a b)
  case Nil
  then show ?case by (simp add: understood_def List.map_filter_simps)
next
  case (Cons m ms)
  from Cons.IH [OF realtime_message_books [OF Cons.prems, of is_uuid m]] show ?case
    by (auto simp: understood_def List.map_filter_simps split: option.splits)
qed

lemma broadcasts_counted:
  "rm_broadcasts rm = length (rm_emitted rm) \<Longrightarrow>
     rm_broadcasts (fold (realtime_message is_uuid) ms rm) = length (rm_emitted (fold (realtime_message is_uuid) ms rm))"
proof (induction ms arbitrary: rm)
  case (Cons m ms)
  have "rm_broadcasts (realtime_message is_uuid m rm) = length (rm_emitted (realtime_message is_uuid m rm))"
    using Cons.prems by (auto simp: realtime_message_def handleRealtimeEvent_def Let_def split: option.split)
  then show ?case using Cons.IH by simp
qed simp

lemma fold_emit_failures: "fold emit_step ms rm = fold emit_step (filter (\<lambda>m. fst m \<noteq> MarkFails) ms) rm"
  by (induction ms arbitrary: rm) (auto simp: emit_step_def handleRealtimeEvent_def)

lemma fold_emit_distinct:
  "distinct (map delivered_id ms) \<Longrightarrow> delivered_id ` set ms \<inter> realtime_seen rm = {} \<Longrightarrow> \<forall>m \<in> set ms. fst m \<noteq> MarkFails \<Longrightarrow>
     rm_emitted (fold emit_step ms rm) =
       rm_emitted rm @ map (\<lambda>m. (roomsFor (snd m), snd m)) (filter (\<lambda>m. fst m = NoFault) ms)"
proof (induction ms arbitrary: rm)
  case (Cons m ms)
  have seen: "realtime_seen (emit_step m rm) = insert (delivered_id m) (realtime_seen rm)"
    using Cons.prems(3) by (intro realtime.marks) simp
  have "rm_emitted (emit_step m rm) = rm_emitted rm @ (if fst m = NoFault then [(roomsFor (snd m), snd m)] else [])"
    using Cons.prems by (cases "fst m") (auto simp: emit_step_def handleRealtimeEvent_def realtime_seen_def Let_def)
  moreover have "rm_emitted (fold emit_step ms (emit_step m rm)) =
      rm_emitted (emit_step m rm) @ map (\<lambda>m. (roomsFor (snd m), snd m)) (filter (\<lambda>m. fst m = NoFault) ms)"
    using Cons.prems seen by (intro Cons.IH) auto
  ultimately show ?case by simp
qed simp

section \<open>Who hears what\<close>

definition interested :: "subscribe_request \<Rightarrow> domain_event \<Rightarrow> bool" where
  "interested r e \<longleftrightarrow>
     (if sr_role r = kitchen_display
      then ev_restaurantId e = sr_restaurantId r \<and> ev_eventType e \<in> set KITCHEN_EVENT_TYPES
      else ev_restaurantId e = sr_restaurantId r \<or> sr_orderId r = Some (ev_aggregateId e))"

lemma room_names:
  "restaurantRoom a = restaurantRoom b \<longleftrightarrow> a = b" "orderRoom a = orderRoom b \<longleftrightarrow> a = b" "kitchenRoom a = kitchenRoom b \<longleftrightarrow> a = b"
  "restaurantRoom a \<noteq> orderRoom b" "restaurantRoom a \<noteq> kitchenRoom b" "orderRoom a \<noteq> kitchenRoom b"
  "orderRoom a \<noteq> restaurantRoom b" "kitchenRoom a \<noteq> restaurantRoom b" "kitchenRoom a \<noteq> orderRoom b"
  by (simp_all add: restaurantRoom_def orderRoom_def kitchenRoom_def)

lemma room_colon: "room \<in> set (roomsFor e) \<Longrightarrow> CHR '':'' \<in> set room"
  by (auto simp: roomsFor_def Let_def restaurantRoom_def orderRoom_def kitchenRoom_def split: if_splits)

lemma receives_interested:
  assumes "subscribeSchema is_uuid r" and "CHR '':'' \<notin> set (so_id s)"
  shows "receives (on_subscribe is_uuid r s) (roomsFor e, e) = interested r e"
proof -
  have own: "so_id s \<notin> set (roomsFor e)" using assms(2) room_colon by blast
  have "room \<in> so_rooms (on_subscribe is_uuid r s) \<longleftrightarrow> room \<in> set (wanted_rooms r)" if "room \<in> set (roomsFor e)" for room
  proof -
    from that own have "room \<noteq> so_id s" by auto
    then show ?thesis using assms(1) by (auto simp: on_subscribe_def Let_def)
  qed
  then have "receives (on_subscribe is_uuid r s) (roomsFor e, e) \<longleftrightarrow> set (roomsFor e) \<inter> set (wanted_rooms r) \<noteq> {}"
    unfolding receives_def by fastforce
  then show ?thesis
    by (auto simp: interested_def roomsFor_def wanted_rooms_def Let_def room_names split: option.splits)
qed

lemma project_ignores: "ev_eventType e \<notin> set KITCHEN_EVENT_TYPES \<Longrightarrow> kd_tickets (project now e d) = kd_tickets d"
  by (simp add: KITCHEN_EVENT_TYPES_def project_def applyKitchenEvent_def STATE_BY_EVENT_TYPE_def Let_def)

text \<open>
  What the projection acts on, from its own side: some state of the kitchen's tables in which the event moves a ticket. A restaurant's
  kitchen is reached by exactly these of its events, whatever list the rooms are made from.
\<close>

definition can_move_ticket :: "domain_event \<Rightarrow> bool" where
  "can_move_ticket e \<longleftrightarrow> (\<exists>now d d'. applyKitchenEvent now d e = Some (Projected, d'))"

definition ticket_before :: "domain_event \<Rightarrow> kitchen_db" where
  "ticket_before e =
     \<lparr>kd_processed = [],
      kd_tickets = [ev_aggregateId e \<mapsto>
        \<lparr>kt_restaurantId = ev_restaurantId e, kt_tableNumber = ''5'', kt_items = [], kt_state = SENT_TO_KITCHEN',
         kt_sourceEventVersion = ev_version e - 1, kt_createdAt = 0, kt_updatedAt = 0\<rparr>]\<rparr>"

lemma kitchen_event_can_move:
  assumes "kitchen_typed e" and "ev_eventType e \<in> set KITCHEN_EVENT_TYPES"
  shows "can_move_ticket e"
proof -
  have "\<exists>d'. applyKitchenEvent 0 (ticket_before e) e = Some (Projected, d')"
    using assms
    by (auto simp: kitchen_typed_def KITCHEN_EVENT_TYPES_def applyKitchenEvent_def ticket_before_def createTicket_def
        advanceTicket_def STATE_BY_EVENT_TYPE_def Let_def split: event_payload.splits)
  then show ?thesis unfolding can_move_ticket_def by blast
qed

lemma moving_event_is_listed: "can_move_ticket e \<Longrightarrow> ev_eventType e \<in> set KITCHEN_EVENT_TYPES"
  by (auto simp: can_move_ticket_def applyKitchenEvent_def STATE_BY_EVENT_TYPE_def KITCHEN_EVENT_TYPES_def Let_def
      split: if_splits)

lemma kitchen_receives_movers:
  assumes "subscribeSchema is_uuid r" and "CHR '':'' \<notin> set (so_id s)"
    and "sr_role r = kitchen_display" and "kitchen_typed e"
  shows "receives (on_subscribe is_uuid r s) (roomsFor e, e) \<longleftrightarrow> ev_restaurantId e = sr_restaurantId r \<and> can_move_ticket e"
  using assms(3,4) kitchen_event_can_move moving_event_is_listed
  by (auto simp: receives_interested [OF assms(1,2)] interested_def)

text \<open>
  C32. Every event is broadcast at most once, to those who asked for it. Whatever the topic delivers, with redeliveries, messages that are no events,
  failures before the mark and crashes after it: what is emitted is, in order, the events whose first delivery that could be
  marked met no crash, each once and each counted. A subscribed screen receives of these exactly the events of its restaurant or of the order it
  follows, a kitchen exactly those of its restaurant that the kitchen projection can act on, which is said of the projection itself: there are tables
  in which handling the event moves a ticket. An event of any other type changes no ticket.
\<close>

theorem events_are_broadcast_once:
  assumes "subscribeSchema is_uuid r" and "CHR '':'' \<notin> set (so_id s)"
    and rm: "rm = fold (realtime_message is_uuid) ms idle_realtime"
    and firsts: "firsts = first_deliveries delivered_id {} (filter (\<lambda>m. fst m \<noteq> MarkFails) (understood is_uuid ms))"
  shows "map snd (rm_emitted rm) = map snd (filter (\<lambda>m. fst m = NoFault) firsts)
    \<and> distinct (map ev_eventId (map snd (rm_emitted rm)))
    \<and> rm_broadcasts rm = length (rm_emitted rm)
    \<and> received (on_subscribe is_uuid r s) rm = filter (interested r) (map snd (rm_emitted rm))
    \<and> (\<forall>e now d. ev_eventType e \<notin> set KITCHEN_EVENT_TYPES \<longrightarrow> kd_tickets (project now e d) = kd_tickets d)
    \<and> (sr_role r = kitchen_display \<longrightarrow> (\<forall>e. kitchen_typed e \<longrightarrow>
          receives (on_subscribe is_uuid r s) (roomsFor e, e)
          = (ev_restaurantId e = sr_restaurantId r \<and> (\<exists>now d d'. applyKitchenEvent now d e = Some (Projected, d')))))"
proof -
  let ?ms = "filter (\<lambda>m. fst m \<noteq> MarkFails) (understood is_uuid ms)"
  have "rm_emitted rm = rm_emitted (fold emit_step (understood is_uuid ms) idle_realtime)"
    using realtime_messages_books [of idle_realtime idle_realtime is_uuid ms] by (simp add: rm same_books_def)
  also have "\<dots> = rm_emitted (fold emit_step ?ms idle_realtime)" by (subst fold_emit_failures) simp
  also have "fold emit_step ?ms idle_realtime = fold emit_step firsts idle_realtime"
    unfolding firsts using realtime.first_deliveries_suffice [of ?ms idle_realtime]
    by (simp add: realtime_seen_def idle_realtime_def)
  also have "rm_emitted \<dots> = map (\<lambda>m. (roomsFor (snd m), snd m)) (filter (\<lambda>m. fst m = NoFault) firsts)"
    using first_deliveries_subset [of delivered_id "{}" ?ms] first_deliveries_ids(1) [of delivered_id "{}" ?ms]
    by (subst fold_emit_distinct) (auto simp: firsts realtime_seen_def idle_realtime_def)
  finally have em: "rm_emitted rm = map (\<lambda>m. (roomsFor (snd m), snd m)) (filter (\<lambda>m. fst m = NoFault) firsts)" .
  have "distinct (map delivered_id (filter (\<lambda>m. fst m = NoFault) firsts))"
    using first_deliveries_ids(1) [of delivered_id "{}" ?ms] by (simp add: firsts distinct_map_filter)
  then have d: "distinct (map ev_eventId (map snd (rm_emitted rm)))" by (simp add: em o_def)
  have "rm_broadcasts rm = length (rm_emitted rm)" unfolding rm by (rule broadcasts_counted) (simp add: idle_realtime_def)
  moreover have "received (on_subscribe is_uuid r s) rm = filter (interested r) (map snd (rm_emitted rm))"
    by (simp add: received_def em filter_map o_def receives_interested [OF assms(1,2)])
  moreover note kitchen_receives_movers [OF assms(1,2), unfolded can_move_ticket_def]
  ultimately show ?thesis using d em project_ignores by (simp add: o_def)
qed

definition cancelled_event :: "uuid \<Rightarrow> domain_event" where
  "cancelled_event i =
     \<lparr>ev_eventId = i, ev_eventType = ''OrderCancelled'', ev_aggregateId = ''o1'', ev_restaurantId = ''demo-restaurant'',
      ev_version = 4, ev_occurredAt = 1, ev_traceId = None, ev_payload = OrderStatusChangedPayload ''o1'' ''5'' CANCELLED\<rparr>"

definition paid_event :: "uuid \<Rightarrow> domain_event" where
  "paid_event i = (cancelled_event i)\<lparr>ev_eventType := ''OrderPaid'', ev_payload := OrderPaidPayload ''o1'' 100 CARD'\<rparr>"

text \<open>A failed mark and its redelivery, a repeat, a message that is no event, a crash before the emit, and a payment, which moves no ticket.\<close>

definition rough_stream :: "(delivery_fault \<times> raw_message) list" where
  "rough_stream =
     [(MarkFails, Envelope (cancelled_event ''e1'')), (NoFault, Envelope (cancelled_event ''e1'')), (NoFault, NotJson),
      (NoFault, Envelope (cancelled_event ''e1'')), (CrashBeforeEmit, Envelope (cancelled_event ''e2'')),
      (NoFault, Envelope (cancelled_event ''e2'')), (NoFault, Envelope (paid_event ''e3''))]"

theorem events_are_broadcast_once_witness:
  "received (on_subscribe (\<lambda>_. True) \<lparr>sr_restaurantId = ''demo-restaurant'', sr_role = kitchen_display, sr_orderId = None\<rparr> (connection ''s1''))
     (fold (realtime_message (\<lambda>_. True)) rough_stream idle_realtime) = [cancelled_event ''e1'']"
proof -
  let ?r = "\<lparr>sr_restaurantId = ''demo-restaurant'', sr_role = kitchen_display, sr_orderId = None\<rparr>"
  let ?firsts = "first_deliveries delivered_id {} (filter (\<lambda>m. fst m \<noteq> MarkFails) (understood (\<lambda>_. True) rough_stream))"
  have f: "?firsts = [(NoFault, cancelled_event ''e1''), (CrashBeforeEmit, cancelled_event ''e2''), (NoFault, paid_event ''e3'')]"
    by (simp add: rough_stream_def understood_def List.map_filter_simps parseDomainEvent_def cancelled_event_def paid_event_def safe_int_def)
  have "subscribeSchema (\<lambda>_. True) ?r" "CHR '':'' \<notin> set (so_id (connection ''s1''))"
    by (simp_all add: subscribeSchema_def connection_def)
  from events_are_broadcast_once [OF this refl refl, of rough_stream]
  show ?thesis unfolding f by (simp add: interested_def cancelled_event_def paid_event_def KITCHEN_EVENT_TYPES_def)
qed

end
