(* ===== verification/Service_Worker.thy ===== *)
theory Service_Worker
  imports Prelude
begin

text \<open>
  The service worker, \<open>apps/web/src/sw\<close>: what it may do with a request (\<open>cache-policy.ts\<close>) and what it does
  (\<open>service-worker.ts\<close>), over the caches of its origin and a network that answers or throws as it likes.

  The platform's URL parser is the argument \<open>parse\<close>; a cache is keyed by parsed URLs. Reads ignore \<open>Vary\<close>. What an event leaves to
  \<open>waitUntil\<close> has run when the event's definition returns.
\<close>

section \<open>The policy\<close>

record url =
  url_origin :: string
  url_pathname :: string
  url_search :: string

type_synonym url_parser = "string \<Rightarrow> url option"

datatype cache_route = Shell | Asset | Menu | Passthrough

record classifiable_request =
  rq_method :: string
  rq_url :: string
  rq_mode :: string

definition SHELL_ASSET_PATHS :: "string list" where
  "SHELL_ASSET_PATHS = [''/manifest.webmanifest'', ''/favicon.ico'']"

definition ASSET_PREFIXES :: "string list" where
  "ASSET_PREFIXES = [''/assets/'', ''/icons/'']"

definition MENU_PATH :: string where
  "MENU_PATH = ''/api/menu''"

definition startsWith :: "string \<Rightarrow> string \<Rightarrow> bool" where
  "startsWith s p \<longleftrightarrow> take (length p) s = p"

definition classify_url :: "url \<Rightarrow> string \<Rightarrow> string \<Rightarrow> cache_route" where
  "classify_url u mode origin =
     (if url_origin u \<noteq> origin then Passthrough
      else if url_pathname u = MENU_PATH then Menu
      else if startsWith (url_pathname u) ''/api/'' \<or> startsWith (url_pathname u) ''/socket.io/'' then Passthrough
      else if url_pathname u \<in> set SHELL_ASSET_PATHS then Asset
      else if \<exists>p \<in> set ASSET_PREFIXES. startsWith (url_pathname u) p then Asset
      else if mode = ''navigate'' then Shell
      else Passthrough)"

definition classifyRequest :: "url_parser \<Rightarrow> classifiable_request \<Rightarrow> string \<Rightarrow> cache_route" where
  "classifyRequest parse request origin =
     (if rq_method request \<noteq> ''GET'' then Passthrough
      else case parse (rq_url request) of
        None \<Rightarrow> Passthrough
      | Some u \<Rightarrow> classify_url u (rq_mode request) origin)"

section \<open>The assets a document names\<close>

definition is_space :: "char \<Rightarrow> bool" where
  "is_space c \<longleftrightarrow> c \<in> {CHR '' '', CHR 0x09, CHR 0x0A, CHR 0x0B, CHR 0x0C, CHR 0x0D, CHR 0xA0}"

text \<open>What follows \<open>src\<close> or \<open>href\<close>: spaces, \<open>=\<close>, spaces and a quoted text of at least one character.\<close>

definition quoted_value :: "string \<Rightarrow> (string \<times> string) option" where
  "quoted_value rest =
     (case dropWhile is_space rest of
        c # rest' \<Rightarrow>
          if c \<noteq> CHR ''='' then None
          else (case dropWhile is_space rest' of
            q # rest'' \<Rightarrow>
              (let v = takeWhile (\<lambda>c. c \<noteq> CHR 0x22) rest''; after = dropWhile (\<lambda>c. c \<noteq> CHR 0x22) rest'' in
               if q \<noteq> CHR 0x22 \<or> v = [] \<or> after = [] then None else Some (v, tl after))
          | [] \<Rightarrow> None)
      | [] \<Rightarrow> None)"

definition reference_at :: "string \<Rightarrow> (string \<times> string) option" where
  "reference_at html =
     (if startsWith html ''src'' then quoted_value (drop 3 html)
      else if startsWith html ''href'' then quoted_value (drop 4 html)
      else None)"

lemma quoted_value_shorter:
  assumes "quoted_value xs = Some (v, rest)"
  shows "length rest \<le> length xs"
proof (cases "dropWhile is_space xs")
  case (Cons c ys)
  then show ?thesis
  proof (cases "dropWhile is_space ys")
    case Nil
    then show ?thesis using assms Cons by (simp add: quoted_value_def split: if_splits del: dropWhile_eq_Nil_conv)
  next
    case (Cons q zs)
    have "rest = tl (dropWhile (\<lambda>c. c \<noteq> CHR 0x22) zs)"
      using assms \<open>dropWhile is_space xs = c # ys\<close> Cons by (simp add: quoted_value_def Let_def split: if_splits)
    then have "length rest \<le> length zs" using length_dropWhile_le [of "\<lambda>c. c \<noteq> CHR 0x22" zs] by simp
    also have "\<dots> \<le> length ys" using length_dropWhile_le [of is_space ys] Cons by simp
    also have "\<dots> \<le> length xs" using length_dropWhile_le [of is_space xs] \<open>dropWhile is_space xs = c # ys\<close> by simp
    finally show ?thesis .
  qed
next
  case Nil
  then show ?thesis using assms by (simp add: quoted_value_def del: dropWhile_eq_Nil_conv)
qed

lemma reference_at_shorter:
  assumes r: "reference_at html = Some (v, rest)"
  shows "length rest < length html"
proof -
  have "html \<noteq> []" using r by (auto simp: reference_at_def startsWith_def)
  moreover have "length rest \<le> length (drop 3 html) \<or> length rest \<le> length (drop 4 html)"
    using r quoted_value_shorter by (auto simp: reference_at_def split: if_splits simp del: length_drop)
  ultimately show ?thesis by (cases html) auto
qed

text \<open>\<open>matchAll\<close>: the scan goes on after a match, or one character later.\<close>

function references :: "string \<Rightarrow> string list" where
  "references [] = []"
| "references (c # html) =
     (case reference_at (c # html) of
        Some (v, rest) \<Rightarrow> v # references rest
      | None \<Rightarrow> references html)"
  by pat_completeness auto
termination by (relation "measure length") (auto dest: reference_at_shorter)

text \<open>A JavaScript \<open>Set\<close> keeps the first of equal entries. \<open>resolve\<close> parses a reference against the origin.\<close>

definition shellAssetUrls :: "url_parser \<Rightarrow> string \<Rightarrow> string \<Rightarrow> url list" where
  "shellAssetUrls resolve html origin =
     rev (remdups (rev (filter (\<lambda>u. classify_url u ''cors'' origin = Asset) (List.map_filter resolve (references html)))))"

section \<open>Caches and the network\<close>

record response =
  rs_ok :: bool
  rs_redirected :: bool
  rs_body :: string

type_synonym network = "url \<Rightarrow> response option"
type_synonym cache = "url \<Rightarrow> response option"

text \<open>The caches of the origin, in creation order; the build of the worker in charge, with its flag.\<close>

record worker =
  sw_caches :: "(string \<times> cache) list"
  sw_build :: string
  sw_shellPrecached :: bool

definition CACHE_PREFIX :: string where "CACHE_PREFIX = ''pos-shell-''"
definition GENERATIONS_KEPT :: nat where "GENERATIONS_KEPT = 2"

definition CACHE_NAME :: "worker \<Rightarrow> string" where
  "CACHE_NAME s = CACHE_PREFIX @ sw_build s"

definition SHELL_KEY :: "string \<Rightarrow> url" where
  "SHELL_KEY origin = \<lparr>url_origin = origin, url_pathname = ''/index.html'', url_search = []\<rparr>"

definition menu_url :: "string \<Rightarrow> url" where
  "menu_url origin = \<lparr>url_origin = origin, url_pathname = MENU_PATH, url_search = []\<rparr>"

definition openCache :: "worker \<Rightarrow> worker" where
  "openCache s =
     (if CACHE_NAME s \<in> fst ` set (sw_caches s) then s
      else s\<lparr>sw_caches := sw_caches s @ [(CACHE_NAME s, Map.empty)]\<rparr>)"

definition cache_put :: "url \<Rightarrow> response \<Rightarrow> worker \<Rightarrow> worker" where
  "cache_put u r s =
     (openCache s)\<lparr>sw_caches := map (\<lambda>(name, c). if name = CACHE_NAME s then (name, c(u \<mapsto> r)) else (name, c)) (sw_caches (openCache s))\<rparr>"

definition caches_match :: "url \<Rightarrow> worker \<Rightarrow> response option" where
  "caches_match u s = (case List.map_filter (\<lambda>(name, c). c u) (sw_caches s) of [] \<Rightarrow> None | r # _ \<Rightarrow> Some r)"

definition own_match :: "url \<Rightarrow> worker \<Rightarrow> response option" where
  "own_match u s = Option.bind (map_of (sw_caches s) (CACHE_NAME s)) (\<lambda>c. c u)"

definition matchAnyCache :: "url \<Rightarrow> worker \<Rightarrow> response option" where
  "matchAnyCache u s = (case own_match u s of Some r \<Rightarrow> Some r | None \<Rightarrow> caches_match u s)"

text \<open>\<open>cache.add\<close>: a fetch whose answer is stored when it is ok.\<close>

definition cache_add :: "network \<Rightarrow> url \<Rightarrow> worker \<Rightarrow> worker" where
  "cache_add net u s = (case net u of None \<Rightarrow> s | Some r \<Rightarrow> if rs_ok r then cache_put u r s else s)"

section \<open>Installing and activating\<close>

definition precacheAssets :: "url_parser \<Rightarrow> string \<Rightarrow> network \<Rightarrow> string \<Rightarrow> worker \<Rightarrow> worker" where
  "precacheAssets resolve origin net html s =
     cache_add net (menu_url origin) (fold (cache_add net) (shellAssetUrls resolve html origin) s)"

text \<open>\<open>tryPrecacheShell\<close> around \<open>precacheShell\<close>, whose failure is swallowed.\<close>

definition tryPrecacheShell :: "url_parser \<Rightarrow> string \<Rightarrow> network \<Rightarrow> worker \<Rightarrow> worker" where
  "tryPrecacheShell resolve origin net s =
     (let s' = openCache s in
      case net (SHELL_KEY origin) of
        None \<Rightarrow> s'
      | Some document \<Rightarrow>
          if \<not> rs_ok document then s'
          else (precacheAssets resolve origin net (rs_body document) (cache_put (SHELL_KEY origin) document s'))
                 \<lparr>sw_shellPrecached := True\<rparr>)"

definition on_install :: "url_parser \<Rightarrow> string \<Rightarrow> network \<Rightarrow> string \<Rightarrow> worker \<Rightarrow> worker" where
  "on_install resolve origin net build s =
     tryPrecacheShell resolve origin net (s\<lparr>sw_build := build, sw_shellPrecached := False\<rparr>)"

definition staleCaches :: "string \<Rightarrow> string list \<Rightarrow> string list" where
  "staleCaches cache_name names =
     (let foreign_names = filter (\<lambda>n. \<not> startsWith n CACHE_PREFIX) names;
          ours = sort (filter (\<lambda>n. startsWith n CACHE_PREFIX \<and> n \<noteq> cache_name) names)
      in foreign_names @ take (length ours - (GENERATIONS_KEPT - 1)) ours)"

definition on_activate :: "worker \<Rightarrow> worker" where
  "on_activate s =
     s\<lparr>sw_caches := filter (\<lambda>(name, c). name \<notin> set (staleCaches (CACHE_NAME s) (map fst (sw_caches s)))) (sw_caches s)\<rparr>"

section \<open>Answering\<close>

text \<open>An answer of \<open>respondWith\<close> is a response, or \<open>None\<close> when its promise rejects.\<close>

definition networkFirstShell ::
  "url_parser \<Rightarrow> string \<Rightarrow> network \<Rightarrow> url \<Rightarrow> worker \<Rightarrow> response option \<times> worker" where
  "networkFirstShell resolve origin net u s =
     (case net u of
        Some r \<Rightarrow>
          if rs_ok r \<and> \<not> rs_redirected r
          then let s' = cache_put (SHELL_KEY origin) r s in
               (Some r, if sw_shellPrecached s then s'
                        else precacheAssets resolve origin net (rs_body r) (s'\<lparr>sw_shellPrecached := True\<rparr>))
          else (Some r, s)
      | None \<Rightarrow> (caches_match (SHELL_KEY origin) s, s))"

definition cacheFirst :: "network \<Rightarrow> url \<Rightarrow> worker \<Rightarrow> response option \<times> worker" where
  "cacheFirst net u s =
     (let s' = openCache s in
      case matchAnyCache u s' of
        Some r \<Rightarrow> (Some r, s')
      | None \<Rightarrow>
          (case net u of
             None \<Rightarrow> (None, s')
           | Some r \<Rightarrow> (Some r, if rs_ok r then cache_put u r s' else s')))"

definition staleWhileRevalidate :: "network \<Rightarrow> url \<Rightarrow> worker \<Rightarrow> response option \<times> worker" where
  "staleWhileRevalidate net u s =
     (let s' = openCache s;
          refreshed = cache_add net u s' in
      case matchAnyCache u s' of
        Some r \<Rightarrow> (Some r, refreshed)
      | None \<Rightarrow> (net u, refreshed))"

text \<open>The fetch event: \<open>None\<close> when the worker does not call \<open>respondWith\<close>.\<close>

definition on_fetch ::
  "url_parser \<Rightarrow> url_parser \<Rightarrow> string \<Rightarrow> network \<Rightarrow> classifiable_request \<Rightarrow> worker \<Rightarrow> response option option \<times> worker" where
  "on_fetch parse resolve origin net request s =
     (case (classifyRequest parse request origin, parse (rq_url request)) of
        (Shell, Some u) \<Rightarrow> apfst Some (networkFirstShell resolve origin net u s)
      | (Asset, Some u) \<Rightarrow> apfst Some (cacheFirst net u s)
      | (Menu, Some u) \<Rightarrow> apfst Some (staleWhileRevalidate net u s)
      | _ \<Rightarrow> (None, s))"

section \<open>What a worker may answer\<close>

text \<open>
  The worker with everything the network has answered to anyone so far. Between events the browser may kill a worker and start it
  again, its flag lost, or hand the caches to the worker of another build: \<open>restarted\<close>.
\<close>

record history =
  hs_worker :: worker
  hs_answers :: "(url \<times> response) set"

definition answers_of :: "network \<Rightarrow> (url \<times> response) set" where
  "answers_of net = {(u, r). net u = Some r}"

inductive worker_step :: "url_parser \<Rightarrow> url_parser \<Rightarrow> string \<Rightarrow> history \<Rightarrow> history \<Rightarrow> bool" for parse resolve origin where
  installed: "worker_step parse resolve origin h
     \<lparr>hs_worker = on_install resolve origin net build (hs_worker h), hs_answers = hs_answers h \<union> answers_of net\<rparr>"
| activated: "worker_step parse resolve origin h (h\<lparr>hs_worker := on_activate (hs_worker h)\<rparr>)"
| fetched: "worker_step parse resolve origin h
     \<lparr>hs_worker = snd (on_fetch parse resolve origin net request (hs_worker h)), hs_answers = hs_answers h \<union> answers_of net\<rparr>"
| restarted: "worker_step parse resolve origin h (h\<lparr>hs_worker := (hs_worker h)\<lparr>sw_build := build, sw_shellPrecached := b\<rparr>\<rparr>)"

definition unregistered :: history where
  "unregistered = \<lparr>hs_worker = \<lparr>sw_caches = [], sw_build = [], sw_shellPrecached = False\<rparr>, hs_answers = {}\<rparr>"

definition is_document :: "string \<Rightarrow> url \<Rightarrow> bool" where
  "is_document origin v \<longleftrightarrow> v = SHELL_KEY origin \<or> classify_url v ''navigate'' origin = Shell"

text \<open>An entry a worker may hold: an ok answer of the network, for the very URL or for a document.\<close>

definition entry_ok :: "string \<Rightarrow> (url \<times> response) set \<Rightarrow> url \<Rightarrow> response \<Rightarrow> bool" where
  "entry_ok origin A u r \<longleftrightarrow>
     rs_ok r
     \<and> (classify_url u [] origin \<in> {Asset, Menu} \<and> (u, r) \<in> A
        \<or> u = SHELL_KEY origin \<and> (\<exists>v. is_document origin v \<and> (v, r) \<in> A))"

definition caches_ok :: "string \<Rightarrow> (url \<times> response) set \<Rightarrow> worker \<Rightarrow> bool" where
  "caches_ok origin A w \<longleftrightarrow>
     distinct (map fst (sw_caches w))
     \<and> (\<forall>m \<in> set (sw_caches w). \<forall>u r. snd m u = Some r \<longrightarrow> entry_ok origin A u r)"

lemma entry_ok_mono: "entry_ok origin A u r \<Longrightarrow> A \<subseteq> B \<Longrightarrow> entry_ok origin B u r"
  by (auto simp: entry_ok_def)

lemma caches_ok_mono: "caches_ok origin A w \<Longrightarrow> A \<subseteq> B \<Longrightarrow> caches_ok origin B w"
  unfolding caches_ok_def by (meson entry_ok_mono)

lemma flag_ok: "caches_ok origin A (w\<lparr>sw_shellPrecached := b\<rparr>) = caches_ok origin A w"
  "caches_ok origin A (w\<lparr>sw_build := build\<rparr>) = caches_ok origin A w"
  by (simp_all add: caches_ok_def)

lemma classify_mode: "classify_url u m origin \<in> {Asset, Menu} \<Longrightarrow> classify_url u m' origin = classify_url u m origin"
  by (auto simp: classify_url_def split: if_splits)

lemma opened_cache_ok: "caches_ok origin A w \<Longrightarrow> caches_ok origin A (openCache w)"
  by (auto simp: caches_ok_def openCache_def)

lemma put_ok:
  assumes "caches_ok origin A w" and "entry_ok origin A u r"
  shows "caches_ok origin A (cache_put u r w)"
proof -
  have o': "caches_ok origin A (openCache w)" using assms(1) by (rule opened_cache_ok)
  have names: "map fst (sw_caches (cache_put u r w)) = map fst (sw_caches (openCache w))"
    by (simp add: cache_put_def o_def case_prod_unfold if_distrib cong: if_cong)
  have "entry_ok origin A x y" if "m \<in> set (sw_caches (cache_put u r w))" "snd m x = Some y" for m x y
    using that o' assms(2) by (auto simp: cache_put_def caches_ok_def split: if_splits)
  then show ?thesis using o' names by (auto simp: caches_ok_def)
qed

lemma add_ok:
  assumes "caches_ok origin A w" and "classify_url u [] origin \<in> {Asset, Menu}" and "answers_of net \<subseteq> A"
  shows "caches_ok origin A (cache_add net u w)"
  using assms by (auto simp: cache_add_def answers_of_def entry_ok_def intro!: put_ok split: option.split)

lemma menu_is_menu: "classify_url (menu_url origin) m origin = Menu"
  by (simp add: classify_url_def menu_url_def)

lemma precacheAssets_ok:
  assumes "caches_ok origin A w" and net: "answers_of net \<subseteq> A"
  shows "caches_ok origin A (precacheAssets resolve origin net html w)"
proof -
  have "caches_ok origin A (fold (cache_add net) us w)"
    if "\<forall>u \<in> set us. classify_url u ''cors'' origin = Asset" for us
    using that assms(1)
  proof (induction us arbitrary: w)
    case (Cons u us)
    have "classify_url u [] origin = Asset" using Cons.prems(1) classify_mode [of u "''cors''" origin "[]"] by simp
    then have "caches_ok origin A (cache_add net u w)" using Cons.prems(2) net by (intro add_ok) simp_all
    then show ?case using Cons by simp
  qed simp
  then have "caches_ok origin A (fold (cache_add net) (shellAssetUrls resolve html origin) w)"
    by (simp add: shellAssetUrls_def)
  then show ?thesis unfolding precacheAssets_def using net by (intro add_ok) (simp_all add: menu_is_menu)
qed

lemma document_ok:
  assumes "caches_ok origin A w" and "net v = Some r" and "rs_ok r" and "is_document origin v" and "answers_of net \<subseteq> A"
  shows "caches_ok origin A (cache_put (SHELL_KEY origin) r w)"
  using assms by (intro put_ok) (auto simp: entry_ok_def answers_of_def)

lemma install_ok:
  assumes "caches_ok origin A w" and net: "answers_of net \<subseteq> A"
  shows "caches_ok origin A (on_install resolve origin net build w)"
proof -
  let ?w = "openCache (w\<lparr>sw_build := build, sw_shellPrecached := False\<rparr>)"
  have w: "caches_ok origin A ?w" using assms(1) by (intro opened_cache_ok) (simp add: caches_ok_def)
  have "caches_ok origin A (cache_put (SHELL_KEY origin) d ?w)" if "net (SHELL_KEY origin) = Some d" "rs_ok d" for d
    using document_ok [OF w that(1) that(2) _ net] by (simp add: is_document_def)
  then have "caches_ok origin A (precacheAssets resolve origin net html (cache_put (SHELL_KEY origin) d ?w))"
    if "net (SHELL_KEY origin) = Some d" "rs_ok d" for d html
    using that net by (intro precacheAssets_ok)
  then show ?thesis using w by (simp add: on_install_def tryPrecacheShell_def Let_def flag_ok split: option.split)
qed

lemma activate_ok: "caches_ok origin A w \<Longrightarrow> caches_ok origin A (on_activate w)"
  by (auto simp: caches_ok_def on_activate_def distinct_map_filter)

lemma caches_match_entry: "caches_match u w = Some r \<Longrightarrow> \<exists>m \<in> set (sw_caches w). snd m u = Some r"
proof -
  assume "caches_match u w = Some r"
  then have "r \<in> set (List.map_filter (\<lambda>(name, c). c u) (sw_caches w))"
    by (auto simp: caches_match_def split: list.splits)
  then obtain m where m: "m \<in> set (sw_caches w)" "(case m of (name, c) \<Rightarrow> c u) = Some r"
    by (auto simp: List.map_filter_def)
  then have "snd m u = Some r" by (simp add: case_prod_unfold)
  with m(1) show ?thesis by blast
qed

lemma match_entry:
  assumes "caches_ok origin A w"
  shows "caches_match u w = Some r \<Longrightarrow> entry_ok origin A u r" and "matchAnyCache u w = Some r \<Longrightarrow> entry_ok origin A u r"
proof -
  show c: "caches_match u w = Some r \<Longrightarrow> entry_ok origin A u r"
    using assms by (auto simp: caches_ok_def dest!: caches_match_entry)
  have own: "own_match u w = Some r \<Longrightarrow> entry_ok origin A u r"
    using assms by (fastforce simp: caches_ok_def own_match_def bind_eq_Some_conv dest: map_of_SomeD)
  show "matchAnyCache u w = Some r \<Longrightarrow> entry_ok origin A u r"
    using c own by (auto simp: matchAnyCache_def split: option.splits)
qed


text \<open>Every way a worker answers, with what it stores.\<close>

lemma answers_ok:
  assumes w: "caches_ok origin A w" and net: "answers_of net \<subseteq> A"
  shows "is_document origin u \<Longrightarrow> caches_ok origin A (snd (networkFirstShell resolve origin net u w))"
    and "classify_url u [] origin \<in> {Asset, Menu} \<Longrightarrow> caches_ok origin A (snd (cacheFirst net u w))"
    and "classify_url u [] origin \<in> {Asset, Menu} \<Longrightarrow> caches_ok origin A (snd (staleWhileRevalidate net u w))"
proof -
  assume u: "is_document origin u"
  have "caches_ok origin A (cache_put (SHELL_KEY origin) r w)" if "net u = Some r" "rs_ok r" for r
    using w that u net by (rule document_ok)
  then show "caches_ok origin A (snd (networkFirstShell resolve origin net u w))"
    using w net
    by (auto simp: networkFirstShell_def Let_def flag_ok intro!: precacheAssets_ok split: option.split)
next
  assume u: "classify_url u [] origin \<in> {Asset, Menu}"
  have o': "caches_ok origin A (openCache w)" using w by (rule opened_cache_ok)
  have put: "caches_ok origin A (cache_put u r (openCache w))" if "net u = Some r" "rs_ok r" for r
    using add_ok [OF o' u net] that by (simp add: cache_add_def)
  show "caches_ok origin A (snd (cacheFirst net u w))"
    using o' put by (simp add: cacheFirst_def Let_def split: option.split)
  show "caches_ok origin A (snd (staleWhileRevalidate net u w))"
    using add_ok [OF o' u net] by (simp add: staleWhileRevalidate_def Let_def split: option.split)
qed

lemma classified:
  assumes "parse (rq_url request) = Some u" and "classifyRequest parse request origin = c" and "c \<noteq> Passthrough"
  shows "rq_method request = ''GET'' \<and> classify_url u (rq_mode request) origin = c"
  using assms by (auto simp: classifyRequest_def split: if_splits)

lemma shell_is_document: "classify_url u m origin = Shell \<Longrightarrow> is_document origin u"
  by (auto simp: is_document_def classify_url_def split: if_splits)

lemma fetch_ok:
  assumes w: "caches_ok origin A w" and net: "answers_of net \<subseteq> A"
  shows "caches_ok origin A (snd (on_fetch parse resolve origin net request w))"
proof (cases "parse (rq_url request)")
  case (Some u)
  have doc: "is_document origin u" if "classifyRequest parse request origin = Shell"
    using classified [OF Some that] shell_is_document [of u "rq_mode request" origin] by simp
  have own: "classify_url u [] origin \<in> {Asset, Menu}" if "classifyRequest parse request origin \<in> {Asset, Menu}"
    using classified [of parse request u origin, OF Some, OF refl] that classify_mode [of u "rq_mode request" origin "[]"] by auto
  show ?thesis
    using answers_ok [OF w net, where u = u] doc own w Some
    by (cases "classifyRequest parse request origin") (simp_all add: on_fetch_def)
next
  case None
  then show ?thesis using w by (simp add: on_fetch_def split: cache_route.split)
qed

lemma reachable_ok:
  assumes "(worker_step parse resolve origin)\<^sup>*\<^sup>* unregistered h"
  shows "caches_ok origin (hs_answers h) (hs_worker h)"
  using assms
proof induction
  case base
  show ?case by (simp add: unregistered_def caches_ok_def)
next
  case (step h h')
  have up: "caches_ok origin (hs_answers h \<union> answers_of net) (hs_worker h)" for net
    using step.IH by (rule caches_ok_mono) simp
  from step.hyps(2) show ?case
    by cases (simp_all add: install_ok [OF up] fetch_ok [OF up] activate_ok [OF step.IH] flag_ok step.IH)
qed

lemma answers_entry:
  assumes "caches_ok origin A w"
  shows "fst (networkFirstShell resolve origin net u w) = Some r \<Longrightarrow> net u = Some r \<or> entry_ok origin A (SHELL_KEY origin) r"
    and "fst (cacheFirst net u w) = Some r \<Longrightarrow> net u = Some r \<or> entry_ok origin A u r"
    and "fst (staleWhileRevalidate net u w) = Some r \<Longrightarrow> net u = Some r \<or> entry_ok origin A u r"
  using match_entry [OF assms] match_entry [OF opened_cache_ok [OF assms]]
  by (auto simp: networkFirstShell_def cacheFirst_def staleWhileRevalidate_def Let_def split: option.splits if_splits)

lemma open_holds: "m \<in> set (sw_caches w) \<Longrightarrow> m \<in> set (sw_caches (openCache w))"
  by (simp add: openCache_def)

lemma no_match: "caches_match u w = None \<Longrightarrow> m \<in> set (sw_caches w) \<Longrightarrow> snd m u = None"
proof -
  assume "caches_match u w = None" and m: "m \<in> set (sw_caches w)"
  then have "List.map_filter (\<lambda>(name, c). c u) (sw_caches w) = []" by (simp add: caches_match_def split: list.splits)
  then have "\<forall>m \<in> set (sw_caches w). (case m of (name, c) \<Rightarrow> c u) = None"
    by (auto simp: List.map_filter_def filter_empty_conv)
  then show "snd m u = None" using m by (simp add: case_prod_unfold)
qed

lemma rejected:
  shows "fst (networkFirstShell resolve origin net u w) = None \<Longrightarrow> net u = None \<and> caches_match (SHELL_KEY origin) w = None"
    and "fst (cacheFirst net u w) = None \<Longrightarrow> net u = None \<and> caches_match u (openCache w) = None"
    and "fst (staleWhileRevalidate net u w) = None \<Longrightarrow> net u = None \<and> caches_match u (openCache w) = None"
  by (auto simp: networkFirstShell_def cacheFirst_def staleWhileRevalidate_def matchAnyCache_def Let_def
      split: option.splits if_splits)


text \<open>What activation keeps: the build in charge and the newest of the others.\<close>

lemma sorted_last: "sorted xs \<Longrightarrow> x \<in> set xs \<Longrightarrow> x \<le> xs ! (length xs - 1)"
  by (cases xs rule: rev_cases) (auto simp: sorted_append nth_append)

lemma not_taken: "x \<in> set xs \<Longrightarrow> x \<notin> set (take (length xs - 1) xs) \<Longrightarrow> x = xs ! (length xs - 1)"
  by (cases xs rule: rev_cases) auto

lemma kept_own:
  assumes "n \<in> set (map fst (sw_caches (on_activate w)))"
  shows "startsWith n CACHE_PREFIX"
proof -
  have "n \<in> set (map fst (sw_caches w))" and "n \<notin> set (staleCaches (CACHE_NAME w) (map fst (sw_caches w)))"
    using assms by (auto simp: on_activate_def)
  then show ?thesis by (simp add: staleCaches_def Let_def)
qed

lemma kept_is_newest:
  assumes kept: "n \<in> fst ` set (sw_caches (on_activate w))" and "n \<noteq> CACHE_NAME w"
    and other: "m \<in> fst ` set (sw_caches w)" "startsWith m CACHE_PREFIX" "m \<noteq> CACHE_NAME w"
  shows "startsWith n CACHE_PREFIX \<and> m \<le> n"
proof -
  let ?names = "map fst (sw_caches w)"
  let ?ours = "sort (filter (\<lambda>n. startsWith n CACHE_PREFIX \<and> n \<noteq> CACHE_NAME w) ?names)"
  let ?k = "length ?ours - 1"
  have n: "n \<in> set ?names" "n \<notin> set (staleCaches (CACHE_NAME w) ?names)"
    using kept by (auto simp: on_activate_def)
  then have own: "startsWith n CACHE_PREFIX" by (simp add: staleCaches_def Let_def)
  then have "n \<in> set ?ours" using n(1) assms(2) by simp
  moreover have "n \<notin> set (take ?k ?ours)" using n(2) by (simp add: staleCaches_def Let_def GENERATIONS_KEPT_def)
  ultimately have "n = ?ours ! ?k" by (rule not_taken)
  moreover have "m \<in> set ?ours" using other by auto
  ultimately show ?thesis using own sorted_last [of ?ours m] by simp
qed


lemma activate_counts:
  assumes "distinct (map fst (sw_caches w))"
  shows "length (sw_caches (on_activate w)) \<le> GENERATIONS_KEPT"
proof -
  let ?kept = "map fst (sw_caches (on_activate w))"
  have sub: "set ?kept \<subseteq> fst ` set (sw_caches w)" by (auto simp: on_activate_def)
  have same: "n = m" if "n \<in> set ?kept - {CACHE_NAME w}" "m \<in> set ?kept - {CACHE_NAME w}" for n m
  proof -
    have n: "n \<in> set ?kept" "n \<noteq> CACHE_NAME w" and m: "m \<in> set ?kept" "m \<noteq> CACHE_NAME w" using that by auto
    have names: "n \<in> fst ` set (sw_caches w)" "m \<in> fst ` set (sw_caches w)" using n(1) m(1) sub by blast+
    have own: "startsWith k CACHE_PREFIX \<and> j \<le> k"
      if "k \<in> {n, m}" "j \<in> {n, m}" "startsWith j CACHE_PREFIX" for j k
      using that n m names by (intro kept_is_newest) auto
    have "startsWith j CACHE_PREFIX" if "j \<in> {n, m}" for j
      using that kept_own [OF n(1)] kept_own [OF m(1)] by auto
    then show ?thesis using own [of n m] own [of m n] by simp
  qed
  have "card (set ?kept - {CACHE_NAME w}) \<le> 1" using same by (metis One_nat_def card_le_Suc0_iff_eq finite_set finite_Diff)
  then have "card (set ?kept) \<le> 2" using card_Diff1_le [of "set ?kept" "CACHE_NAME w"] by (simp add: card_Diff_singleton_if split: if_splits)
  moreover have "distinct ?kept" using assms by (simp add: on_activate_def distinct_map_filter)
  ultimately show ?thesis using distinct_card [of ?kept] by (simp add: GENERATIONS_KEPT_def)
qed

text \<open>The fetch event, route by route.\<close>

lemma not_taken_over:
  "fst (on_fetch parse resolve origin net request w) = None \<Longrightarrow>
     classifyRequest parse request origin = Passthrough \<and> snd (on_fetch parse resolve origin net request w) = w"
  by (auto simp: on_fetch_def classifyRequest_def split: cache_route.splits option.splits)

lemma taken_over:
  assumes "fst (on_fetch parse resolve origin net request w) = Some a"
  obtains u c where "parse (rq_url request) = Some u" and "classifyRequest parse request origin = c"
    and "rq_method request = ''GET''" and "classify_url u (rq_mode request) origin = c"
    and "c = Shell \<and> a = fst (networkFirstShell resolve origin net u w)
         \<or> c = Asset \<and> a = fst (cacheFirst net u w) \<or> c = Menu \<and> a = fst (staleWhileRevalidate net u w)"
proof -
  obtain u where u: "parse (rq_url request) = Some u"
    using assms by (auto simp: on_fetch_def classifyRequest_def split: cache_route.splits option.splits if_splits)
  let ?c = "classifyRequest parse request origin"
  have "?c \<noteq> Passthrough" using assms by (auto simp: on_fetch_def)
  then show thesis
    using that [OF u refl] classified [of parse request u origin, OF u, OF refl] assms u
    by (cases ?c) (simp_all add: on_fetch_def)
qed


lemma not_passthrough:
  "classify_url u m origin = c \<Longrightarrow> c \<noteq> Passthrough \<Longrightarrow> url_origin u = origin
     \<and> (url_pathname u = MENU_PATH
        \<or> \<not> startsWith (url_pathname u) ''/api/'' \<and> \<not> startsWith (url_pathname u) ''/socket.io/'')"
  by (auto simp: classify_url_def split: if_splits)

lemma entry_source:
  assumes "entry_ok origin A (if c = Shell then SHELL_KEY origin else u) r" and "classify_url u m origin = c" and "c \<noteq> Passthrough"
  shows "rs_ok r \<and> (\<exists>v. (v, r) \<in> A \<and> (v = u \<or> c = Shell \<and> is_document origin v))"
proof -
  have "classify_url (SHELL_KEY origin) [] origin \<notin> {Asset, Menu}"
    by (simp add: classify_url_def SHELL_KEY_def MENU_PATH_def SHELL_ASSET_PATHS_def ASSET_PREFIXES_def startsWith_def)
  moreover have "classify_url u [] origin = c" if "c \<noteq> Shell"
    using classify_mode [of u m origin "[]"] that assms(2,3) by (cases c) auto
  ultimately show ?thesis using assms(1,3) by (cases c) (auto simp: entry_ok_def)
qed

lemma answer_shape:
  assumes w: "caches_ok origin A w"
    and a: "c = Shell \<and> a = fst (networkFirstShell resolve origin net u w)
         \<or> c = Asset \<and> a = fst (cacheFirst net u w) \<or> c = Menu \<and> a = fst (staleWhileRevalidate net u w)"
    and c: "classify_url u m origin = c"
  shows "case a of
      Some r \<Rightarrow> net u = Some r \<or> rs_ok r \<and> (\<exists>v. (v, r) \<in> A \<and> (v = u \<or> c = Shell \<and> is_document origin v))
    | None \<Rightarrow> net u = None \<and> (\<forall>m \<in> set (sw_caches w). snd m (if c = Shell then SHELL_KEY origin else u) = None)"
proof (cases a)
  case (Some r)
  have "net u = Some r \<or> entry_ok origin A (if c = Shell then SHELL_KEY origin else u) r"
    using a Some answers_entry(1) [OF w, of resolve net u r] answers_entry(2,3) [OF w, of net u r] by auto
  moreover have "c \<noteq> Passthrough" using a by auto
  ultimately show ?thesis using Some entry_source [OF _ c] by auto
next
  case None
  have "net u = None \<and> (caches_match (if c = Shell then SHELL_KEY origin else u) w = None
      \<or> caches_match (if c = Shell then SHELL_KEY origin else u) (openCache w) = None)"
    using a None rejected(1) [of resolve origin net u w] rejected(2,3) [of net u w] by auto
  then have "snd m (if c = Shell then SHELL_KEY origin else u) = None" if "m \<in> set (sw_caches w)" for m
    using no_match [of _ w m] no_match [of _ "openCache w" m] open_holds [OF that] that by blast
  then show ?thesis using None \<open>net u = None \<and> _\<close> by simp
qed

text \<open>
  C40. What the service worker does to the application's requests, in every state it can reach by installing, activating and
  fetching over any network, whichever build answers. It leaves alone, without changing its caches, exactly what the policy calls passthrough. What it
  answers is a GET of the origin, under \<open>/api/\<close> and \<open>/socket.io/\<close> the menu alone, so no mutation and no order is ever answered
  from a cache. The answer is the network's, or one the network has given before, ok, for that very URL, or for a document when
  a document was asked for. The answer is an error only when the network fails and no cache, of this build or another,
  holds the entry. Activation leaves at most two caches, of this application.
\<close>

theorem worker_answers_are_genuine:
  assumes "(worker_step parse resolve origin)\<^sup>*\<^sup>* unregistered h"
    and "on_fetch parse resolve origin net request (hs_worker h) = (ans, w')"
  shows "(ans = None \<longrightarrow> classifyRequest parse request origin = Passthrough \<and> w' = hs_worker h)
    \<and> (\<forall>a. ans = Some a \<longrightarrow> (\<exists>u. parse (rq_url request) = Some u \<and> rq_method request = ''GET'' \<and> url_origin u = origin
          \<and> (url_pathname u = MENU_PATH
             \<or> \<not> startsWith (url_pathname u) ''/api/'' \<and> \<not> startsWith (url_pathname u) ''/socket.io/'')
          \<and> (case a of
               Some r \<Rightarrow> net u = Some r
                 \<or> rs_ok r \<and> (\<exists>v. (v, r) \<in> hs_answers h \<and>
                     (v = u \<or> classifyRequest parse request origin = Shell \<and> is_document origin v))
             | None \<Rightarrow> net u = None \<and> (\<forall>m \<in> set (sw_caches (hs_worker h)).
                 snd m (if classifyRequest parse request origin = Shell then SHELL_KEY origin else u) = None))))
    \<and> length (sw_caches (on_activate (hs_worker h))) \<le> 2
    \<and> (\<forall>m \<in> set (sw_caches (on_activate (hs_worker h))). startsWith (fst m) CACHE_PREFIX)"
proof (intro conjI allI impI ballI)
  let ?w = "hs_worker h"
  have w: "caches_ok origin (hs_answers h) ?w" using assms(1) by (rule reachable_ok)
  show "classifyRequest parse request origin = Passthrough" and "w' = ?w" if "ans = None"
    using not_taken_over [of parse resolve origin net request ?w] that assms(2) by simp_all
  show "length (sw_caches (on_activate ?w)) \<le> 2"
    using activate_counts w by (simp add: caches_ok_def GENERATIONS_KEPT_def)
  show "startsWith (fst m) CACHE_PREFIX" if "m \<in> set (sw_caches (on_activate ?w))" for m
    using that by (intro kept_own [of _ ?w]) simp
  fix a
  assume "ans = Some a"
  then have "fst (on_fetch parse resolve origin net request ?w) = Some a" using assms(2) by simp
  then obtain u c where u: "parse (rq_url request) = Some u" "rq_method request = ''GET''"
      and c: "classifyRequest parse request origin = c" "classify_url u (rq_mode request) origin = c"
      and a: "c = Shell \<and> a = fst (networkFirstShell resolve origin net u ?w)
         \<or> c = Asset \<and> a = fst (cacheFirst net u ?w) \<or> c = Menu \<and> a = fst (staleWhileRevalidate net u ?w)"
    by (rule taken_over)
  show "\<exists>u. parse (rq_url request) = Some u \<and> rq_method request = ''GET'' \<and> url_origin u = origin
          \<and> (url_pathname u = MENU_PATH
             \<or> \<not> startsWith (url_pathname u) ''/api/'' \<and> \<not> startsWith (url_pathname u) ''/socket.io/'')
          \<and> (case a of
               Some r \<Rightarrow> net u = Some r
                 \<or> rs_ok r \<and> (\<exists>v. (v, r) \<in> hs_answers h \<and>
                     (v = u \<or> classifyRequest parse request origin = Shell \<and> is_document origin v))
             | None \<Rightarrow> net u = None \<and> (\<forall>m \<in> set (sw_caches ?w).
                 snd m (if classifyRequest parse request origin = Shell then SHELL_KEY origin else u) = None))"
    using u not_passthrough [OF c(2)] a answer_shape [OF w a c(2)]
    unfolding c(1) by (intro exI [of _ u] conjI) auto
qed


definition example_html :: string where
  "example_html = ''<script src='' @ [CHR 0x22] @ ''/assets/a.js'' @ [CHR 0x22] @ ''>''"

definition example_url :: "string \<Rightarrow> url" where
  "example_url path = \<lparr>url_origin = ''https://pos'', url_pathname = path, url_search = []\<rparr>"

definition example_network :: network where
  "example_network u =
     (if url_pathname u = ''/index.html'' then Some \<lparr>rs_ok = True, rs_redirected = False, rs_body = example_html\<rparr>
      else if url_pathname u = ''/assets/a.js'' then Some \<lparr>rs_ok = True, rs_redirected = False, rs_body = ''code''\<rparr>
      else None)"

definition example_request :: "string \<Rightarrow> classifiable_request" where
  "example_request path = \<lparr>rq_method = ''GET'', rq_url = path, rq_mode = ''navigate''\<rparr>"

definition example_worker :: worker where
  "example_worker = on_install (Some \<circ> example_url) ''https://pos'' example_network ''1'' (hs_worker unregistered)"

definition example_answer :: "string \<Rightarrow> response option option" where
  "example_answer path =
     fst (on_fetch (Some \<circ> example_url) (Some \<circ> example_url) ''https://pos'' (\<lambda>_. None) (example_request path) example_worker)"

lemma example_answers:
  "map_option (map_option rs_body) (example_answer ''/assets/a.js'') = Some (Some ''code'')"
  "map_option (map_option rs_body) (example_answer ''/pos'') = Some (Some example_html)"
  "map_option (map_option rs_body) (example_answer ''/api/orders/1'') = None"
  by code_simp+


lemma example_reached:
  "(worker_step (Some \<circ> example_url) (Some \<circ> example_url) ''https://pos'')\<^sup>*\<^sup>* unregistered
     \<lparr>hs_worker = example_worker, hs_answers = answers_of example_network\<rparr>"
  using worker_step.installed [of "Some \<circ> example_url" "Some \<circ> example_url" "''https://pos''" unregistered example_network "''1''"]
  by (intro r_into_rtranclp) (simp add: example_worker_def unregistered_def)

theorem worker_answers_are_genuine_witness:
  "\<exists>r v. example_answer ''/assets/a.js'' = Some (Some r) \<and> rs_body r = ''code'' \<and> rs_ok r
     \<and> example_network v = Some r \<and> v = example_url ''/assets/a.js''"
proof -
  obtain r where r: "example_answer ''/assets/a.js'' = Some (Some r)" "rs_body r = ''code''"
    using example_answers(1) by (cases "example_answer ''/assets/a.js''") auto
  have asset: "classifyRequest (Some \<circ> example_url) (example_request ''/assets/a.js'') ''https://pos'' \<noteq> Shell"
    by code_simp
  have run: "on_fetch (Some \<circ> example_url) (Some \<circ> example_url) ''https://pos'' (\<lambda>_. None) (example_request ''/assets/a.js'')
      (hs_worker \<lparr>hs_worker = example_worker, hs_answers = answers_of example_network\<rparr>)
    = (Some (Some r), snd (on_fetch (Some \<circ> example_url) (Some \<circ> example_url) ''https://pos'' (\<lambda>_. None)
        (example_request ''/assets/a.js'') example_worker))"
    using r(1) by (simp add: example_answer_def prod_eq_iff)
  show ?thesis
    using worker_answers_are_genuine [OF example_reached run] r asset
    by (auto simp: answers_of_def example_request_def)
qed

end
