(* ===== verification/Broker_Session.thy ===== *)
theory Broker_Session
  imports Outbox_Properties
begin

text \<open>
  The worker's session with the broker: the guard on its transport (\<open>apps/worker/src/shared/broker-session.ts\<close>), the supervisor that
  rebuilds it (\<open>broker-supervisor.ts\<close>), and the publisher's passes through a session that may end at any time.

  KafkaJS is what settles the awaits of the supervisor: each may succeed, fail, or leave the step untaken. A session is a
  number; an await is a phase of the loop. A connection counts as open from the call that opened it until the call that asks
  to disconnect it.
\<close>

section \<open>The guarded transport\<close>

text \<open>An error of a send: the type of a \<open>KafkaJSProtocolError\<close>, none for any other error, and its message.\<close>

record broker_error =
  be_protocolType :: "string option"
  be_message :: string

definition RECORD_REJECTIONS :: "string list" where
  "RECORD_REJECTIONS =
     [''CORRUPT_MESSAGE'', ''MESSAGE_TOO_LARGE'', ''RECORD_LIST_TOO_LARGE'', ''INVALID_TIMESTAMP'',
      ''UNSUPPORTED_FOR_MESSAGE_FORMAT'', ''INVALID_RECORD'']"

definition isRecordRejection :: "broker_error \<Rightarrow> bool" where
  "isRecordRejection e \<longleftrightarrow> (case be_protocolType e of None \<Rightarrow> False | Some t \<Rightarrow> t \<in> set RECORD_REJECTIONS)"

text \<open>\<open>guardTransport\<close>: whether a settled send leaves its session alive.\<close>

definition guardTransport :: "broker_error option \<Rightarrow> bool \<Rightarrow> bool" where
  "guardTransport answer alive =
     (case answer of None \<Rightarrow> alive | Some e \<Rightarrow> if isRecordRejection e then alive else False)"

section \<open>A pass of the publisher through a session\<close>

text \<open>
  What one row meets: as a \<^typ>\<open>tick\<close>, but the liveness is the session's, which may end before the row and while it waits out the
  delay, and the transport's error is the broker's.
\<close>

record session_tick =
  st_died :: bool
  st_controls :: outbox_controls
  st_now :: millis
  st_died_after :: bool
  st_controls_after :: outbox_controls
  st_now_after :: millis
  st_sendAt :: millis
  st_settles :: "(millis \<times> broker_error option) option"
  st_writeAt :: millis

definition tick_of :: "bool \<Rightarrow> session_tick \<Rightarrow> tick" where
  "tick_of alive x =
     \<lparr>tk_alive = alive \<and> \<not> st_died x, tk_controls = st_controls x, tk_now = st_now x,
      tk_alive_after = alive \<and> \<not> st_died x \<and> \<not> st_died_after x, tk_controls_after = st_controls_after x,
      tk_now_after = st_now_after x, tk_sendAt = st_sendAt x,
      tk_settles = map_option (\<lambda>(t, answer). (t, map_option be_message answer)) (st_settles x), tk_writeAt = st_writeAt x\<rparr>"

text \<open>
  The ticks of a pass, the session's liveness after it, and how many records the broker rejected. A send that outlives the lease
  calls \<open>endSession\<close>.
\<close>

fun guarded_pass ::
  "nat \<Rightarrow> claimed_row list \<Rightarrow> session_tick list \<Rightarrow> bool \<Rightarrow> tick list \<times> bool \<times> nat" where
  "guarded_pass deadline10 (c # cs) (x # xs) alive =
     (let tk = tick_of alive x; alive' = (alive \<and> \<not> st_died x \<and> \<not> st_died_after x) in
      case row_stop deadline10 tk of
        Some reason \<Rightarrow> (tk # map (tick_of False) xs, alive', 0)
      | None \<Rightarrow>
          (case sendWithinLease deadline10 (tk_sendAt tk) (tk_settles tk) of
             SendOverran \<Rightarrow> (tk # map (tick_of False) xs, False, 0)
           | _ \<Rightarrow>
               (let answer = snd (the (st_settles x));
                    (tks, after, rejected) = guarded_pass deadline10 cs xs (guardTransport answer alive') in
                (tk # tks, after, rejected + (case answer of None \<Rightarrow> 0 | Some e \<Rightarrow> if isRecordRejection e then 1 else 0)))))"
| "guarded_pass deadline10 _ _ alive = ([], alive, 0)"

section \<open>The supervisor\<close>

datatype loop_phase =
  Turn
| Ensuring
| Producing nat
| Starting nat
| Undoing nat
| Live nat
| Ending nat
| EndingProducer nat
| Closing nat
| ClosingProducer nat
| Backoff
| Finished

record supervisor =
  sv_phase :: loop_phase
  sv_wanted :: bool
  sv_session :: "nat option"
  sv_next :: nat
  sv_alive :: "nat set"
  sv_producers :: "nat set"
  sv_consumers :: "nat set"
  sv_stopping :: "nat set"
  sv_rows :: "outbox_row list"
  sv_rejected :: nat

definition booted :: "outbox_row list \<Rightarrow> supervisor" where
  "booted rows =
     \<lparr>sv_phase = Turn, sv_wanted = True, sv_session = None, sv_next = 0, sv_alive = {}, sv_producers = {}, sv_consumers = {},
      sv_stopping = {}, sv_rows = rows, sv_rejected = 0\<rparr>"

text \<open>\<open>die\<close> of a session; its \<open>stop\<close>, up to the first await and after it.\<close>

definition die :: "nat \<Rightarrow> supervisor \<Rightarrow> supervisor" where
  "die n s = s\<lparr>sv_alive := sv_alive s - {n}\<rparr>"

definition stop_session :: "nat \<Rightarrow> supervisor \<Rightarrow> supervisor" where
  "stop_session n s = (die n s)\<lparr>sv_consumers := sv_consumers s - {n}\<rparr>"

definition disconnect_producer :: "nat \<Rightarrow> supervisor \<Rightarrow> supervisor" where
  "disconnect_producer n s = s\<lparr>sv_producers := sv_producers s - {n}\<rparr>"

text \<open>The end of a turn: the session is forgotten, and the loop waits out the backoff unless it is unwanted.\<close>

definition turn_over :: "supervisor \<Rightarrow> supervisor" where
  "turn_over s = s\<lparr>sv_session := None, sv_phase := (if sv_wanted s then Backoff else Finished)\<rparr>"

text \<open>A consumer that starts completes \<open>connectBroker\<close>; a session nobody wants any more is closed at once.\<close>

definition connected :: "nat \<Rightarrow> supervisor \<Rightarrow> supervisor" where
  "connected n s =
     (let s' = s\<lparr>sv_consumers := insert n (sv_consumers s)\<rparr> in
      if sv_wanted s then s'\<lparr>sv_session := Some n, sv_phase := Live n\<rparr>
      else (stop_session n s')\<lparr>sv_phase := Closing n\<rparr>)"

inductive session_loop :: "supervisor \<Rightarrow> supervisor \<Rightarrow> bool" where
  turn: "sv_phase s = Turn \<Longrightarrow> session_loop s (s\<lparr>sv_phase := (if sv_wanted s then Ensuring else Finished)\<rparr>)"
| topic_missing: "sv_phase s = Ensuring \<Longrightarrow> session_loop s (turn_over s)"
| topic_ensured: "sv_phase s = Ensuring \<Longrightarrow>
    session_loop s (s\<lparr>sv_phase := Producing (sv_next s), sv_alive := insert (sv_next s) (sv_alive s), sv_next := sv_next s + 1\<rparr>)"
| producer_fails: "sv_phase s = Producing n \<Longrightarrow> session_loop s (turn_over s)"
| producer_connects: "sv_phase s = Producing n \<Longrightarrow>
    session_loop s (s\<lparr>sv_producers := insert n (sv_producers s), sv_phase := Starting n\<rparr>)"
| consumer_fails: "sv_phase s = Starting n \<Longrightarrow> session_loop s ((disconnect_producer n s)\<lparr>sv_phase := Undoing n\<rparr>)"
| undone: "sv_phase s = Undoing n \<Longrightarrow> session_loop s (turn_over s)"
| consumer_starts: "sv_phase s = Starting n \<Longrightarrow> session_loop s (connected n s)"
| dead: "sv_phase s = Live n \<Longrightarrow> n \<notin> sv_alive s \<Longrightarrow> session_loop s ((stop_session n s)\<lparr>sv_phase := Ending n\<rparr>)"
| consumer_ends: "sv_phase s = Ending n \<Longrightarrow> session_loop s ((disconnect_producer n s)\<lparr>sv_phase := EndingProducer n\<rparr>)"
| producer_ends: "sv_phase s = EndingProducer n \<Longrightarrow> session_loop s (turn_over s)"
| consumer_closes: "sv_phase s = Closing n \<Longrightarrow> session_loop s ((disconnect_producer n s)\<lparr>sv_phase := ClosingProducer n\<rparr>)"
| producer_closes: "sv_phase s = ClosingProducer n \<Longrightarrow> session_loop s (s\<lparr>sv_phase := Finished\<rparr>)"
| woken: "sv_phase s = Backoff \<Longrightarrow> session_loop s (s\<lparr>sv_phase := Turn\<rparr>)"

text \<open>\<open>stop\<close> of the supervisor up to its first await; and the rest of the stop of the session it met.\<close>

definition stop_called :: "supervisor \<Rightarrow> supervisor" where
  "stop_called s =
     (let s' = s\<lparr>sv_wanted := False\<rparr> in
      case sv_session s of None \<Rightarrow> s' | Some n \<Rightarrow> (stop_session n s')\<lparr>sv_stopping := insert n (sv_stopping s)\<rparr>)"

definition stop_continues :: "nat \<Rightarrow> supervisor \<Rightarrow> supervisor" where
  "stop_continues n s = (disconnect_producer n s)\<lparr>sv_stopping := sv_stopping s - {n}\<rparr>"

text \<open>A pass of the publisher through the session \<open>n\<close>, which \<open>current()\<close> returned.\<close>

definition session_pass ::
  "publisher_options \<Rightarrow> millis \<Rightarrow> millis \<Rightarrow> uuid list \<Rightarrow> session_tick list \<Rightarrow> nat \<Rightarrow> supervisor
     \<Rightarrow> domain_event list \<times> supervisor" where
  "session_pass opts claimedAt dbNow locked xs n s =
     (let claimed = fst (claimBatch dbNow opts locked (sv_rows s));
          (ticks, alive, rejected) = guarded_pass (leaseDeadline10 opts claimedAt) claimed xs (n \<in> sv_alive s);
          (sent, result, rows) = publishOnce opts claimedAt dbNow locked ticks (sv_rows s) in
      (sent, s\<lparr>sv_rows := rows, sv_alive := (if alive then sv_alive s else sv_alive s - {n}),
               sv_rejected := sv_rejected s + rejected\<rparr>))"

text \<open>The worker: the loop, and what happens beside it. Any callback of a session may end it at any time.\<close>

inductive broker_step :: "publisher_options \<Rightarrow> supervisor \<Rightarrow> supervisor \<Rightarrow> bool" for opts where
  loops: "session_loop s s' \<Longrightarrow> broker_step opts s s'"
| dies: "broker_step opts s (die n s)"
| stops: "broker_step opts s (stop_called s)"
| continues: "n \<in> sv_stopping s \<Longrightarrow> broker_step opts s (stop_continues n s)"
| passes: "sv_session s = Some n \<Longrightarrow> po_batchSize opts \<le> length xs \<Longrightarrow>
    broker_step opts s (snd (session_pass opts claimedAt dbNow locked xs n s))"

section \<open>What a pass charges\<close>

text \<open>
  Of the failed sends of a pass, all but one are the broker's rejections of the record; the one is the send that ended the session.
\<close>

lemma dead_session_stops: "row_stop d (tick_of False x) = Some TransportStop"
  by (simp add: row_stop_def reasonToStop_def tick_of_def Let_def)

lemma guarded_pass_length: "length cs \<le> length xs \<Longrightarrow> length cs \<le> length (fst (guarded_pass d cs xs alive))"
  by (induction d cs xs alive rule: guarded_pass.induct)
    (auto simp: Let_def split: option.split send_outcome.split prod.split)

lemma settled_answer_of:
  assumes "sendWithinLease d (tk_sendAt (tick_of alive x)) (tk_settles (tick_of alive x)) = out" and "out \<noteq> SendOverran"
  obtains t answer where "st_settles x = Some (t, answer)"
    and "out = (case answer of None \<Rightarrow> SendPublished | Some e \<Rightarrow> SendFailed (be_message e))"
  using assms by (cases "st_settles x") (auto simp: sendWithinLease_def tick_of_def split: if_splits option.splits)

lemma guarded_pass_charges:
  assumes "guarded_pass d cs xs alive = (ticks, alive', rejected)"
    and "publish_rows opts d cs ticks result rows = (sent, result', rows')"
  shows "rr_failed result' \<le> rr_failed result + rejected + (if alive \<and> \<not> alive' then 1 else 0)
    \<and> (alive' \<longrightarrow> alive) \<and> (\<not> alive \<longrightarrow> sent = [] \<and> rejected = 0)"
  using assms
proof (induction cs arbitrary: xs alive result rows sent ticks alive' rejected)
  case (Cons c cs)
  show ?case
  proof (cases xs)
    case (Cons x ys)
    let ?tk = "tick_of alive x"
    let ?alive = "alive \<and> \<not> st_died x \<and> \<not> st_died_after x"
    show ?thesis
    proof (cases "row_stop d ?tk")
      case (Some reason)
      then show ?thesis using Cons.prems Cons by (auto simp: Let_def giveUpFrom_def)
    next
      case None
      then have alive: alive using dead_session_stops [of d x] by (cases alive) auto
      let ?out = "sendWithinLease d (tk_sendAt ?tk) (tk_settles ?tk)"
      show ?thesis
      proof (cases "?out = SendOverran")
        case True
        then show ?thesis using Cons.prems Cons None alive by (auto simp: Let_def giveUpFrom_def)
      next
        case False
        then obtain t answer where answer: "st_settles x = Some (t, answer)"
            "?out = (case answer of None \<Rightarrow> SendPublished | Some e \<Rightarrow> SendFailed (be_message e))"
          by (rule settled_answer_of [OF refl])
        obtain tks after k where rest: "guarded_pass d cs ys (guardTransport answer ?alive) = (tks, after, k)" by (rule prod_cases3)
        have pass: "ticks = ?tk # tks" "alive' = after"
            "rejected = k + (case answer of None \<Rightarrow> 0 | Some e \<Rightarrow> if isRecordRejection e then 1 else 0)"
          using Cons.prems(1) Cons None answer rest by (auto simp: Let_def split: option.splits)
        obtain result1 rows1 sent1 where run: "publish_rows opts d cs tks result1 rows1 = (sent1, result', rows')"
            "rr_failed result1 = rr_failed result + (if answer = None then 0 else 1)"
          using Cons.prems(2) None answer pass(1)
          by (cases answer) (auto simp: Let_def split: prod.splits)
        show ?thesis
          using Cons.IH [OF rest run(1)] run(2) pass alive
          by (auto simp: guardTransport_def split: option.splits if_splits)
      qed
    qed
  qed (use Cons.prems in simp)
qed simp

lemma failure_ids: "recordFailure now opts message rows row = (dead, rows') \<Longrightarrow> map ob_id rows' = map ob_id rows"
  using failure.ids [of now opts message rows row] by simp

lemma publish_rows_ids:
  "publish_rows opts d cs tks result rows = (sent, result', rows') \<Longrightarrow> map ob_id rows' = map ob_id rows"
proof (induction opts d cs tks result rows arbitrary: sent rule: publish_rows.induct)
  case (1 opts d c cs tk tks result rows)
  then show ?case
    using release.ids mark.ids
    by (auto simp: giveUpFrom_def Let_def intro: failure_ids split: option.splits send_outcome.splits prod.splits)
qed simp_all

lemma claim_attempts: "attempts_total (snd (claimBatch now opts locked rows)) = attempts_total rows"
  by (simp add: claimBatch_def Let_def attempts_total_def map_update_where claim_row_def)

lemma claimed_batch: "length (fst (claimBatch now opts locked rows)) \<le> po_batchSize opts"
  by (simp add: claimBatch_def Let_def candidates_def)

text \<open>So a pass spends attempts on rejected records, and one more at most, when its session ends.\<close>

lemma session_pass_charges:
  assumes ids: "distinct (map ob_id (sv_rows s))" and xs: "po_batchSize opts \<le> length xs"
    and pass: "session_pass opts claimedAt dbNow locked xs n s = (sent, s')"
  shows "attempts_total (sv_rows s') + sv_rejected s \<le>
      attempts_total (sv_rows s) + sv_rejected s' + (if n \<in> sv_alive s \<and> n \<notin> sv_alive s' then 1 else 0)"
    and "map ob_id (sv_rows s') = map ob_id (sv_rows s)"
    and "sv_alive s' = sv_alive s \<or> sv_alive s' = sv_alive s - {n}"
    and "n \<notin> sv_alive s \<Longrightarrow> sent = []"
proof -
  let ?d = "leaseDeadline10 opts claimedAt" and ?alive = "n \<in> sv_alive s"
  obtain claimed rows1 where claim: "claimBatch dbNow opts locked (sv_rows s) = (claimed, rows1)"
    by (cases "claimBatch dbNow opts locked (sv_rows s)")
  obtain ticks after k where guarded: "guarded_pass ?d claimed xs ?alive = (ticks, after, k)" by (rule prod_cases3)
  obtain sent1 result' rows' where run: "publish_rows opts ?d claimed ticks (claim_result claimed) rows1 = (sent1, result', rows')"
    by (rule prod_cases3)
  have s': "sent = sent1" "s' = s\<lparr>sv_rows := rows', sv_alive := (if after then sv_alive s else sv_alive s - {n}),
      sv_rejected := sv_rejected s + k\<rparr>"
    using pass claim guarded run by (simp_all add: session_pass_def publishOnce_def)
  have books: "rr_failed result' \<le> k + (if ?alive \<and> \<not> after then 1 else 0) \<and> (after \<longrightarrow> ?alive) \<and> (\<not> ?alive \<longrightarrow> sent1 = [] \<and> k = 0)"
    using guarded_pass_charges [OF guarded run] by (simp add: claim_result_def)
  have "length claimed \<le> length xs" using claimed_batch [of dbNow opts locked "sv_rows s"] claim xs by simp
  then have "length claimed \<le> length ticks" using guarded_pass_length [of claimed xs ?d ?alive] guarded by simp
  then have "pass_accounts claimed (claim_result claimed) rows1 result' rows'"
    using publish_rows_accounts [OF run claimBatch_held(1) [OF ids claim]] by (simp add: claim_result_def)
  then have "attempts_total rows' = attempts_total rows1 + rr_failed result'" by (simp add: pass_accounts_def claim_result_def)
  moreover have "attempts_total rows1 = attempts_total (sv_rows s)"
    using claim_attempts [of dbNow opts locked "sv_rows s"] claim by simp
  ultimately show "attempts_total (sv_rows s') + sv_rejected s \<le>
      attempts_total (sv_rows s) + sv_rejected s' + (if n \<in> sv_alive s \<and> n \<notin> sv_alive s' then 1 else 0)"
    using books by (auto simp: s' split: if_splits)
  show "sv_alive s' = sv_alive s \<or> sv_alive s' = sv_alive s - {n}" by (simp add: s')
  show "sent = []" if "n \<notin> sv_alive s" using books that by (simp add: s')
  have "map ob_id rows1 = map ob_id (sv_rows s)" using claim.ids [of dbNow opts locked "sv_rows s"] \<open>claimBatch _ _ _ _ = _\<close> by simp
  moreover have "map ob_id rows' = map ob_id rows1" using run by (rule publish_rows_ids)
  ultimately show "map ob_id (sv_rows s') = map ob_id (sv_rows s)" by (simp add: s')
qed

section \<open>One session at a time\<close>

text \<open>The session the loop is about, and the connections it may have open, phase by phase.\<close>

fun phase_session :: "loop_phase \<Rightarrow> nat option" where
  "phase_session (Producing n) = Some n"
| "phase_session (Starting n) = Some n"
| "phase_session (Undoing n) = Some n"
| "phase_session (Live n) = Some n"
| "phase_session (Ending n) = Some n"
| "phase_session (EndingProducer n) = Some n"
| "phase_session (Closing n) = Some n"
| "phase_session (ClosingProducer n) = Some n"
| "phase_session _ = None"

fun may_produce :: "loop_phase \<Rightarrow> nat set" where
  "may_produce (Starting n) = {n}"
| "may_produce (Live n) = {n}"
| "may_produce (Ending n) = {n}"
| "may_produce (Closing n) = {n}"
| "may_produce _ = {}"

fun may_consume :: "loop_phase \<Rightarrow> nat set" where
  "may_consume (Live n) = {n}"
| "may_consume _ = {}"

fun on_offer :: "loop_phase \<Rightarrow> nat option" where
  "on_offer (Live n) = Some n"
| "on_offer (Ending n) = Some n"
| "on_offer (EndingProducer n) = Some n"
| "on_offer _ = None"

fun dead_in :: "loop_phase \<Rightarrow> nat set" where
  "dead_in (Ending n) = {n}"
| "dead_in (EndingProducer n) = {n}"
| "dead_in (Closing n) = {n}"
| "dead_in (ClosingProducer n) = {n}"
| "dead_in _ = {}"

definition ended :: "supervisor \<Rightarrow> nat set" where
  "ended s = {n. n < sv_next s \<and> n \<notin> sv_alive s}"

definition supervised :: "supervisor \<Rightarrow> bool" where
  "supervised s \<longleftrightarrow>
     sv_producers s \<subseteq> may_produce (sv_phase s) \<and> sv_consumers s \<subseteq> may_consume (sv_phase s)
     \<and> sv_session s = on_offer (sv_phase s) \<and> dead_in (sv_phase s) \<inter> sv_alive s = {}
     \<and> (\<forall>n. phase_session (sv_phase s) = Some n \<longrightarrow> n < sv_next s) \<and> (\<forall>n \<in> sv_alive s. n < sv_next s)
     \<and> (\<forall>n. sv_phase s = Live n \<and> \<not> sv_wanted s \<longrightarrow> n \<notin> sv_alive s)"

lemma loop_supervised: "session_loop s s' \<Longrightarrow> supervised s \<Longrightarrow> supervised s'"
proof (induction rule: session_loop.induct)
  case (consumer_starts s n)
  then show ?case by (auto simp: supervised_def connected_def stop_session_def die_def Let_def)
qed (auto simp: supervised_def turn_over_def stop_session_def die_def disconnect_producer_def)

text \<open>What happens beside the loop only closes things.\<close>

lemma session_pass_frame:
  "sv_phase (snd (session_pass opts claimedAt dbNow locked xs n s)) = sv_phase s"
  "sv_wanted (snd (session_pass opts claimedAt dbNow locked xs n s)) = sv_wanted s"
  "sv_session (snd (session_pass opts claimedAt dbNow locked xs n s)) = sv_session s"
  "sv_next (snd (session_pass opts claimedAt dbNow locked xs n s)) = sv_next s"
  "sv_producers (snd (session_pass opts claimedAt dbNow locked xs n s)) = sv_producers s"
  "sv_consumers (snd (session_pass opts claimedAt dbNow locked xs n s)) = sv_consumers s"
  "sv_alive (snd (session_pass opts claimedAt dbNow locked xs n s)) \<subseteq> sv_alive s"
  by (auto simp: session_pass_def Let_def split: prod.splits)

lemma closing_supervised:
  assumes "supervised s" and "sv_phase s' = sv_phase s" "sv_session s' = sv_session s" "sv_next s' = sv_next s"
    and "sv_producers s' \<subseteq> sv_producers s" "sv_consumers s' \<subseteq> sv_consumers s" "sv_alive s' \<subseteq> sv_alive s"
    and "sv_wanted s' = sv_wanted s \<or> sv_alive s' \<inter> set_option (sv_session s) = {}"
  shows "supervised s'"
proof -
  have "n \<notin> sv_alive s'" if "sv_phase s = Live n" "\<not> sv_wanted s'" for n
    using that assms(1,7,8) by (auto simp: supervised_def)
  moreover have "dead_in (sv_phase s) \<inter> sv_alive s' = {}" and "\<forall>n \<in> sv_alive s'. n < sv_next s"
    using assms(1,7) by (auto simp: supervised_def)
  moreover have "sv_producers s' \<subseteq> may_produce (sv_phase s)" and "sv_consumers s' \<subseteq> may_consume (sv_phase s)"
    using assms(1,5,6) by (auto simp: supervised_def)
  ultimately show ?thesis using assms(1-4) by (simp add: supervised_def)
qed

lemma broker_supervised: "broker_step opts s s' \<Longrightarrow> supervised s \<Longrightarrow> supervised s'"
proof (induction rule: broker_step.induct)
  case (loops s s')
  then show ?case by (rule loop_supervised)
next
  case (dies s n)
  then show ?case by (rule closing_supervised) (auto simp: die_def)
next
  case (stops s)
  then show ?case
    by (rule closing_supervised) (auto simp: stop_called_def stop_session_def die_def Let_def split: option.split)
next
  case (continues n s)
  from continues(2) show ?case by (rule closing_supervised) (auto simp: stop_continues_def disconnect_producer_def)
next
  case (passes s n xs claimedAt dbNow locked)
  from passes(3) show ?case by (rule closing_supervised) (simp_all add: session_pass_frame)
qed

text \<open>What the publisher has charged, against the sessions that have ended.\<close>

lemma ended_finite: "finite (ended s)"
  by (simp add: ended_def)

definition charged_fairly :: "nat \<Rightarrow> uuid list \<Rightarrow> supervisor \<Rightarrow> bool" where
  "charged_fairly attempts ids s \<longleftrightarrow>
     map ob_id (sv_rows s) = ids \<and> attempts_total (sv_rows s) \<le> attempts + sv_rejected s + card (ended s)"

lemma fairly_later:
  assumes "charged_fairly attempts ids s" and "ended s \<subseteq> ended s'" and "sv_rows s' = sv_rows s" and "sv_rejected s' = sv_rejected s"
  shows "charged_fairly attempts ids s'"
  using assms card_mono [OF ended_finite assms(2)] by (simp add: charged_fairly_def)

lemma loop_ended:
  "session_loop s s' \<Longrightarrow> supervised s \<Longrightarrow> ended s \<subseteq> ended s' \<and> sv_rows s' = sv_rows s \<and> sv_rejected s' = sv_rejected s"
  by (induction rule: session_loop.induct)
    (auto simp: ended_def supervised_def turn_over_def stop_session_def die_def disconnect_producer_def connected_def Let_def)

lemma broker_fair:
  "broker_step opts s s' \<Longrightarrow> supervised s \<Longrightarrow> distinct ids \<Longrightarrow> charged_fairly attempts ids s \<Longrightarrow> charged_fairly attempts ids s'"
proof (induction rule: broker_step.induct)
  case (loops s s')
  then show ?case using loop_ended fairly_later by blast
next
  case (dies s n)
  show ?case by (rule fairly_later [OF dies(3)]) (auto simp: ended_def die_def)
next
  case (stops s)
  show ?case
    by (rule fairly_later [OF stops(3)])
      (auto simp: ended_def stop_called_def stop_session_def die_def Let_def split: option.split)
next
  case (continues n s)
  show ?case by (rule fairly_later [OF continues(4)]) (auto simp: ended_def stop_continues_def disconnect_producer_def)
next
  case (passes s n xs claimedAt dbNow locked)
  obtain sent s' where pass: "session_pass opts claimedAt dbNow locked xs n s = (sent, s')" by force
  have "distinct (map ob_id (sv_rows s))" using passes(4,5) by (simp add: charged_fairly_def)
  note books = session_pass_charges [OF this passes(2) pass]
  have n: "n < sv_next s"
    using passes(1,3) by (cases "sv_phase s") (auto simp: supervised_def)
  have next': "sv_next s' = sv_next s" using session_pass_frame(4) [of opts claimedAt dbNow locked xs n s] pass by simp
  have "card (ended s) + (if n \<in> sv_alive s \<and> n \<notin> sv_alive s' then 1 else 0) \<le> card (ended s')"
  proof (cases "n \<in> sv_alive s \<and> n \<notin> sv_alive s'")
    case True
    then have "ended s' = insert n (ended s)" and "n \<notin> ended s"
      using books(3) n next' by (auto simp: ended_def)
    then show ?thesis using True ended_finite by simp
  next
    case False
    then have "ended s' = ended s" using books(3) next' by (auto simp: ended_def)
    then show ?thesis using False by simp
  qed
  then show ?case using books(1,2) passes(5) by (simp add: charged_fairly_def pass)
qed

section \<open>Shutting down\<close>

text \<open>Once unwanted, the loop is never stuck and never starts another session: every step of it brings it nearer to its end.\<close>

fun steps_left :: "loop_phase \<Rightarrow> nat" where
  "steps_left Finished = 0"
| "steps_left Turn = 1"
| "steps_left (EndingProducer n) = 1"
| "steps_left (ClosingProducer n) = 1"
| "steps_left (Undoing n) = 1"
| "steps_left Backoff = 2"
| "steps_left (Ending n) = 2"
| "steps_left (Closing n) = 2"
| "steps_left (Live n) = 3"
| "steps_left (Starting n) = 4"
| "steps_left (Producing n) = 5"
| "steps_left Ensuring = 6"

lemma unwanted_step:
  "session_loop s s' \<Longrightarrow> \<not> sv_wanted s \<Longrightarrow> \<not> sv_wanted s' \<and> steps_left (sv_phase s') < steps_left (sv_phase s)"
  by (induction rule: session_loop.induct)
    (auto simp: turn_over_def stop_session_def die_def disconnect_producer_def connected_def Let_def)

lemma unwanted_progress:
  assumes "supervised s" and "\<not> sv_wanted s" and "sv_phase s \<noteq> Finished"
  shows "\<exists>s'. session_loop s s'"
  using assms by (cases "sv_phase s") (auto simp: supervised_def intro: session_loop.intros)

lemma beside_the_loop:
  assumes "broker_step opts s s'"
  shows "session_loop s s' \<or> sv_phase s' = sv_phase s \<and> (sv_wanted s' \<longrightarrow> sv_wanted s)"
  using assms
  by cases (auto simp: die_def stop_called_def stop_session_def stop_continues_def disconnect_producer_def Let_def
      session_pass_frame split: option.split)

lemma booted_ok: "supervised (booted rows)" "charged_fairly (attempts_total rows) (map ob_id rows) (booted rows)"
  by (auto simp: supervised_def booted_def charged_fairly_def)

lemma broker_reachable_ok:
  assumes "(broker_step opts)\<^sup>*\<^sup>* (booted rows) s" and "distinct (map ob_id rows)"
  shows "supervised s \<and> charged_fairly (attempts_total rows) (map ob_id rows) s"
  using assms(1)
proof induction
  case base
  show ?case using booted_ok by blast
next
  case (step s s')
  then show ?case using broker_supervised broker_fair assms(2) by blast
qed

text \<open>
  C10. The worker through any outages, in every state it can reach from its start, whatever the broker answers, wherever a session
  ends and whenever it is told to stop. An outage costs the backlog next to nothing: the attempts charged to its events are at most the
  records the broker itself rejected and one for each session that has ended, and a pass through an ended session hands nothing to the broker.
  The worker has the connections of one session open at most, and none when its loop has ended or waits out a backoff. Once told to
  stop, the loop can always go on and ends within six steps.
\<close>

theorem outage_costs_one_attempt_per_session:
  assumes "(broker_step opts)\<^sup>*\<^sup>* (booted rows) s" and "distinct (map ob_id rows)"
  shows "attempts_total (sv_rows s) \<le> attempts_total rows + sv_rejected s + card (ended s)
    \<and> (\<forall>n claimedAt dbNow locked xs. sv_session s = Some n \<and> n \<notin> sv_alive s \<and> po_batchSize opts \<le> length xs \<longrightarrow>
          fst (session_pass opts claimedAt dbNow locked xs n s) = [])
    \<and> (\<exists>n. sv_producers s \<subseteq> {n} \<and> sv_consumers s \<subseteq> {n} \<and> set_option (sv_session s) \<subseteq> {n})
    \<and> (sv_phase s \<in> {Backoff, Finished} \<longrightarrow> sv_producers s = {} \<and> sv_consumers s = {} \<and> sv_session s = None)
    \<and> (\<not> sv_wanted s \<longrightarrow>
          (sv_phase s \<noteq> Finished \<longrightarrow> (\<exists>s'. session_loop s s')) \<and> steps_left (sv_phase s) \<le> 6
          \<and> (\<forall>s'. broker_step opts s s' \<longrightarrow> \<not> sv_wanted s' \<and>
                (steps_left (sv_phase s') < steps_left (sv_phase s) \<or> \<not> session_loop s s' \<and> sv_phase s' = sv_phase s)))"
proof (intro conjI allI impI)
  have ok: "supervised s" and fair: "charged_fairly (attempts_total rows) (map ob_id rows) s"
    using broker_reachable_ok [OF assms] by simp_all
  show "attempts_total (sv_rows s) \<le> attempts_total rows + sv_rejected s + card (ended s)"
    using fair by (simp add: charged_fairly_def)
  show "fst (session_pass opts claimedAt dbNow locked xs n s) = []"
    if "sv_session s = Some n \<and> n \<notin> sv_alive s \<and> po_batchSize opts \<le> length xs" for n claimedAt dbNow locked xs
    using session_pass_charges(4) [of s opts xs claimedAt dbNow locked n] that fair assms(2)
    by (cases "session_pass opts claimedAt dbNow locked xs n s") (simp add: charged_fairly_def)
  show "\<exists>n. sv_producers s \<subseteq> {n} \<and> sv_consumers s \<subseteq> {n} \<and> set_option (sv_session s) \<subseteq> {n}"
    using ok unfolding supervised_def by (cases "sv_phase s") auto
  show "sv_producers s = {}" "sv_consumers s = {}" "sv_session s = None" if "sv_phase s \<in> {Backoff, Finished}"
    using ok that by (auto simp: supervised_def)
  show "\<exists>s'. session_loop s s'" if "\<not> sv_wanted s" "sv_phase s \<noteq> Finished"
    using ok that by (rule unwanted_progress)
  show "steps_left (sv_phase s) \<le> 6" by (cases "sv_phase s") simp_all
  show "\<not> sv_wanted s'" and "steps_left (sv_phase s') < steps_left (sv_phase s) \<or> \<not> session_loop s s' \<and> sv_phase s' = sv_phase s"
    if "\<not> sv_wanted s" "broker_step opts s s'" for s'
    using beside_the_loop [OF that(2)] unwanted_step [of s s'] that(1) by blast+
qed

text \<open>Two events are claimed when the socket closes under the first send: it is charged, the other is not sent.\<close>

definition demo_live :: supervisor where
  "demo_live = (booted demo_rows)\<lparr>sv_phase := Live 0, sv_session := Some 0, sv_next := 1, sv_alive := {0}, sv_producers := {0},
     sv_consumers := {0}\<rparr>"

definition socket_closed :: session_tick where
  "socket_closed =
     \<lparr>st_died = False, st_controls = DEFAULT_OUTBOX_CONTROLS, st_now = 5, st_died_after = False,
      st_controls_after = DEFAULT_OUTBOX_CONTROLS, st_now_after = 5, st_sendAt = 5,
      st_settles = Some (6, Some \<lparr>be_protocolType = None, be_message = ''closed''\<rparr>), st_writeAt = 6\<rparr>"

definition outage_options :: publisher_options where
  "outage_options =
     \<lparr>po_workerId = ''worker-1'', po_batchSize = 2, po_leaseMs = 10, po_maxAttempts = 3, po_backoffBaseMs = 1, po_backoffMaxMs = 4\<rparr>"

definition demo_outage :: "domain_event list \<times> supervisor" where
  "demo_outage = session_pass outage_options 5 5 [] (replicate 2 socket_closed) 0 demo_live"

lemma demo_live_reached: "(broker_step opts)\<^sup>*\<^sup>* (booted demo_rows) demo_live"
proof -
  let ?a = "(booted demo_rows)\<lparr>sv_phase := Ensuring\<rparr>"
  let ?b = "?a\<lparr>sv_phase := Producing 0, sv_alive := {0}, sv_next := 1\<rparr>"
  let ?c = "?b\<lparr>sv_producers := {0}, sv_phase := Starting 0\<rparr>"
  have 1: "broker_step opts (booted demo_rows) ?a" using session_loop.turn [of "booted demo_rows"] by (intro broker_step.loops) (simp add: booted_def)
  have 2: "broker_step opts ?a ?b" using session_loop.topic_ensured [of ?a] by (intro broker_step.loops) (simp add: booted_def)
  have 3: "broker_step opts ?b ?c" using session_loop.producer_connects [of ?b 0] by (intro broker_step.loops) (simp add: booted_def)
  have 4: "broker_step opts ?c demo_live"
    using session_loop.consumer_starts [of ?c 0] by (intro broker_step.loops) (simp add: booted_def connected_def demo_live_def)
  from 1 2 3 4 show ?thesis by (rule converse_rtranclp_into_rtranclp [OF _ converse_rtranclp_into_rtranclp [OF _ converse_rtranclp_into_rtranclp
        [OF _ r_into_rtranclp]]])
qed

lemma demo_outage_books:
  "case demo_outage of (sent, s) \<Rightarrow> length sent = 1 \<and> attempts_total (sv_rows s) = 1 \<and> sv_alive s = {} \<and> sv_rejected s = 0"
  by code_simp

theorem outage_costs_one_attempt_per_session_witness:
  "length (fst demo_outage) = 1 \<and> attempts_total (sv_rows (snd demo_outage)) = 1 \<and> sv_rejected (snd demo_outage) = 0
   \<and> attempts_total (sv_rows (snd demo_outage)) \<le> attempts_total demo_rows + sv_rejected (snd demo_outage) + card (ended (snd demo_outage))
   \<and> fst (session_pass outage_options 6 6 [] (replicate 2 socket_closed) 0 (snd demo_outage)) = []"
proof -
  have "broker_step outage_options demo_live (snd demo_outage)"
    unfolding demo_outage_def by (rule broker_step.passes) (simp_all add: demo_live_def booted_def outage_options_def)
  then have reached: "(broker_step outage_options)\<^sup>*\<^sup>* (booted demo_rows) (snd demo_outage)"
    using demo_live_reached by (rule rtranclp.rtrancl_into_rtrancl [rotated])
  have "sv_session (snd demo_outage) = Some 0"
    by (simp add: demo_outage_def session_pass_frame demo_live_def)
  then show ?thesis
    using outage_costs_one_attempt_per_session [OF reached demo_rows_distinct] demo_outage_books
    by (simp add: outage_options_def case_prod_unfold)
qed

end
