(* ===== verification/Debug_Routes.thy ===== *)
theory Debug_Routes
  imports Outbox_Publisher Kitchen_Projection Print_Jobs Api_Boundary
begin

text \<open>
  What the debug page reads and writes: the queries of \<open>apps/api/src/modules/debug/application/debug-queries.ts\<close>, the routes over them
  (\<open>api/debug-routes.ts\<close>), the counter list of \<open>metrics.ts\<close> and the four server-side switches
  (\<open>api/simulator-routes.ts\<close>).

  The tables are those of the other theories, with \<open>processed_mutations\<close> as the list of its keys. A view of a row is the
  row. Where \<open>order by\<close> leaves a tie, rows come in the order of the table.
\<close>

section \<open>Counting\<close>

record debug_tables =
  dt_conflicts :: "conflict_row list"
  dt_processedMutations :: "uuid list"
  dt_outbox :: "outbox_row list"
  dt_processedEvents :: "(uuid \<times> string) list"
  dt_jobs :: "print_job list"

record database_counters =
  dc_conflictsDetected :: nat
  dc_blockedMutations :: nat
  dc_processedMutations :: nat
  dc_outboxPending :: nat
  dc_outboxPublished :: nat
  dc_outboxDeadLettered :: nat
  dc_kafkaEventsConsumed :: nat
  dc_printJobsPending :: nat
  dc_printJobsPrinted :: nat
  dc_printJobsFailed :: nat
  dc_printJobsDeadLettered :: nat

definition count_where :: "('a \<Rightarrow> bool) \<Rightarrow> 'a list \<Rightarrow> nat" where
  "count_where P rows = length (filter P rows)"

definition readDatabaseCounters :: "debug_tables \<Rightarrow> database_counters" where
  "readDatabaseCounters t =
     \<lparr>dc_conflictsDetected = length (dt_conflicts t),
      dc_blockedMutations = count_where (\<lambda>c. cl_resolution c = None) (dt_conflicts t),
      dc_processedMutations = length (dt_processedMutations t),
      dc_outboxPending = count_where (\<lambda>r. ob_publishedAt r = None \<and> ob_deadLetteredAt r = None) (dt_outbox t),
      dc_outboxPublished = count_where (\<lambda>r. ob_publishedAt r \<noteq> None) (dt_outbox t),
      dc_outboxDeadLettered = count_where (\<lambda>r. ob_deadLetteredAt r \<noteq> None) (dt_outbox t),
      dc_kafkaEventsConsumed = length (dt_processedEvents t),
      dc_printJobsPending = count_where (\<lambda>j. pj_state j = JOB_PENDING) (dt_jobs t),
      dc_printJobsPrinted = count_where (\<lambda>j. pj_state j = JOB_PRINTED) (dt_jobs t),
      dc_printJobsFailed = count_where (\<lambda>j. pj_state j = JOB_FAILED) (dt_jobs t),
      dc_printJobsDeadLettered = count_where (\<lambda>j. pj_state j = JOB_DEAD_LETTER) (dt_jobs t)\<rparr>"

definition readConflictCounters :: "debug_tables \<Rightarrow> nat \<times> nat" where
  "readConflictCounters t = (length (dt_conflicts t), count_where (\<lambda>c. cl_resolution c = None) (dt_conflicts t))"

definition readOutboxCounters :: "debug_tables \<Rightarrow> (nat \<times> nat \<times> nat) \<times> (nat \<times> nat \<times> nat \<times> nat)" where
  "readOutboxCounters t =
     ((count_where (\<lambda>r. ob_publishedAt r = None \<and> ob_deadLetteredAt r = None) (dt_outbox t),
       count_where (\<lambda>r. ob_publishedAt r \<noteq> None) (dt_outbox t),
       count_where (\<lambda>r. ob_deadLetteredAt r \<noteq> None) (dt_outbox t)),
      (count_where (\<lambda>j. pj_state j = JOB_PENDING) (dt_jobs t), count_where (\<lambda>j. pj_state j = JOB_PRINTED) (dt_jobs t),
       count_where (\<lambda>j. pj_state j = JOB_FAILED) (dt_jobs t), count_where (\<lambda>j. pj_state j = JOB_DEAD_LETTER) (dt_jobs t)))"

definition readConsumedByConsumer :: "debug_tables \<Rightarrow> (string \<times> nat) list" where
  "readConsumedByConsumer t =
     map (\<lambda>name. (name, count_where (\<lambda>p. snd p = name) (dt_processedEvents t)))
       (sort (remdups (map snd (dt_processedEvents t))))"

section \<open>Listing\<close>

record event_view =
  vw_row :: outbox_row
  vw_consumedBy :: "string list"

definition readRecentEvents :: "nat \<Rightarrow> debug_tables \<Rightarrow> event_view list" where
  "readRecentEvents limit t =
     take limit
       (map (\<lambda>r. \<lparr>vw_row = r, vw_consumedBy = sort (map snd (filter (\<lambda>p. fst p = ob_id r) (dt_processedEvents t)))\<rparr>)
          (sort_key (\<lambda>r. (- int (ob_createdAt r), - ob_eventVersion r)) (dt_outbox t)))"

text \<open>A boolean ordered descending: what holds comes first.\<close>

definition holds_first :: "bool \<Rightarrow> nat" where
  "holds_first b = (if b then 0 else 1)"

definition outbox_rank :: "outbox_row \<Rightarrow> nat \<times> nat \<times> int" where
  "outbox_rank r = (holds_first (ob_deadLetteredAt r \<noteq> None), holds_first (ob_publishedAt r = None), - int (ob_createdAt r))"

definition readOutboxRows :: "nat \<Rightarrow> debug_tables \<Rightarrow> outbox_row list" where
  "readOutboxRows limit t = take limit (sort_key outbox_rank (dt_outbox t))"

definition job_rank :: "print_job \<Rightarrow> nat \<times> nat \<times> int" where
  "job_rank j = (holds_first (pj_state j = JOB_DEAD_LETTER), holds_first (pj_state j = JOB_FAILED), - int (pj_updatedAt j))"

definition readPrintJobs :: "nat \<Rightarrow> debug_tables \<Rightarrow> print_job list" where
  "readPrintJobs limit t = take limit (sort_key job_rank (dt_jobs t))"

text \<open>\<open>conflict_log\<close> is in the order it was written in, so its \<open>created_at\<close> descending is the reverse.\<close>

definition readConflicts :: "nat \<Rightarrow> debug_tables \<Rightarrow> conflict_row list" where
  "readConflicts limit t = take limit (rev (dt_conflicts t))"

section \<open>The routes\<close>

text \<open>The query's \<open>limit\<close>: absent, a number, or something \<open>z.coerce.number().int()\<close> refuses.\<close>

datatype limit_query = NoLimit | LimitNumber int | LimitRefused

definition limitOf :: "nat \<Rightarrow> limit_query \<Rightarrow> nat option" where
  "limitOf rowLimit q =
     (case q of
        NoLimit \<Rightarrow> Some rowLimit
      | LimitNumber n \<Rightarrow> if 0 < n \<and> n \<le> int rowLimit then Some (nat n) else None
      | LimitRefused \<Rightarrow> None)"

record conflicts_response =
  cv_conflicts :: "conflict_row list"
  cv_total :: nat
  cv_unresolved :: nat

record outbox_response =
  xr_counts :: "nat \<times> nat \<times> nat"
  xr_rows :: "outbox_row list"
  xr_jobCounts :: "nat \<times> nat \<times> nat \<times> nat"
  xr_jobs :: "print_job list"

text \<open>\<open>None\<close> is the 400 of a refused limit.\<close>

definition eventsRoute :: "nat \<Rightarrow> limit_query \<Rightarrow> debug_tables \<Rightarrow> event_view list option" where
  "eventsRoute rowLimit q t = map_option (\<lambda>limit. readRecentEvents limit t) (limitOf rowLimit q)"

definition conflictsRoute :: "nat \<Rightarrow> limit_query \<Rightarrow> debug_tables \<Rightarrow> conflicts_response option" where
  "conflictsRoute rowLimit q t =
     map_option (\<lambda>limit. \<lparr>cv_conflicts = readConflicts limit t, cv_total = fst (readConflictCounters t),
         cv_unresolved = snd (readConflictCounters t)\<rparr>) (limitOf rowLimit q)"

definition outboxRoute :: "nat \<Rightarrow> limit_query \<Rightarrow> debug_tables \<Rightarrow> outbox_response option" where
  "outboxRoute rowLimit q t =
     map_option (\<lambda>limit. \<lparr>xr_counts = fst (readOutboxCounters t), xr_rows = readOutboxRows limit t,
         xr_jobCounts = snd (readOutboxCounters t), xr_jobs = readPrintJobs limit t\<rparr>) (limitOf rowLimit q)"

text \<open>
  \<open>collectMetrics\<close>: the readings in their order, with their sources; a reading of Redis is none when Redis fails, never 0. The notes
  are texts.
\<close>

datatype counter_source = process_source | database_source | shared_source | client_source

record counter_reading =
  cn_name :: string
  cn_value :: "int option"
  cn_source :: counter_source

definition reading :: "counter_source \<Rightarrow> string \<Rightarrow> nat \<Rightarrow> counter_reading" where
  "reading origin name n = \<lparr>cn_name = name, cn_value = Some (int n), cn_source = origin\<rparr>"

definition collectMetrics :: "counters \<Rightarrow> nat option \<Rightarrow> nat option \<Rightarrow> debug_tables \<Rightarrow> counter_reading list" where
  "collectMetrics k sockets shared t =
     (let d = readDatabaseCounters t; p = reading process_source; q = reading database_source in
      [p ''apiRequests'' (k apiRequests), p ''apiErrors'' (k apiErrors),
       \<lparr>cn_name = ''activeWebSocketConnections'', cn_value = map_option int sockets, cn_source = process_source\<rparr>,
       p ''mutationsReceived'' (k mutationsReceived), p ''mutationsApplied'' (k mutationsApplied),
       p ''duplicateMutationsPrevented'' (k duplicateMutationsPrevented),
       p ''mutationIdReuseRejected'' (k mutationIdReuseRejected), p ''crossTenantRejections'' (k crossTenantRejections),
       p ''realtimeEventsBroadcast'' (k realtimeEventsBroadcast),
       q ''processedMutations'' (dc_processedMutations d), q ''conflictsDetected'' (dc_conflictsDetected d),
       q ''blockedMutations'' (dc_blockedMutations d), q ''outboxEventsPending'' (dc_outboxPending d),
       q ''outboxEventsPublished'' (dc_outboxPublished d), q ''outboxEventsDeadLettered'' (dc_outboxDeadLettered d),
       q ''kafkaEventsConsumed'' (dc_kafkaEventsConsumed d), q ''printJobsPending'' (dc_printJobsPending d),
       q ''printJobsSucceeded'' (dc_printJobsPrinted d), q ''printJobsFailed'' (dc_printJobsFailed d),
       q ''printJobsDeadLettered'' (dc_printJobsDeadLettered d),
       \<lparr>cn_name = ''duplicateKafkaEventsPrevented'', cn_value = map_option int shared, cn_source = shared_source\<rparr>])"

section \<open>The switches\<close>

datatype simulator_control = OutboxPause | OutboxDelay | PrinterFail | ReplayLastEvent

text \<open>A body: what \<open>enabled\<close> and \<open>publishDelayMs\<close> are when they are a boolean and an integer.\<close>

record control_body =
  cb_enabled :: "bool option"
  cb_publishDelayMs :: "int option"

record switches =
  sw_outbox :: "outbox_controls option"
  sw_printer :: "bool option"
  sw_rows :: "outbox_row list"

definition readState :: "switches \<Rightarrow> outbox_controls \<times> bool" where
  "readState s = (readOutboxControls (sw_outbox s), readPrinterControls (sw_printer s))"

record simulator_response =
  sr_state :: "outbox_controls \<times> bool"
  sr_replayed :: "outbox_row option option"

text \<open>\<open>POST /api/debug/simulator/:control\<close>, with \<open>None\<close> for an unknown control; the answer is \<open>None\<close> for 400.\<close>

definition simulatorRoute ::
  "nat \<Rightarrow> millis \<Rightarrow> uuid list \<Rightarrow> simulator_control option \<Rightarrow> control_body \<Rightarrow> switches \<Rightarrow> simulator_response option \<times> switches" where
  "simulatorRoute leaseMs now locked control body s =
     (let reply = (\<lambda>s'. (Some \<lparr>sr_state = readState s', sr_replayed = None\<rparr>, s')) in
      case control of
        None \<Rightarrow> (None, s)
      | Some OutboxPause \<Rightarrow>
          (case cb_enabled body of
             None \<Rightarrow> (None, s)
           | Some b \<Rightarrow> reply (s\<lparr>sw_outbox := setOutboxControls (sw_outbox s) (Some b) None\<rparr>))
      | Some OutboxDelay \<Rightarrow>
          (case cb_publishDelayMs body of
             None \<Rightarrow> (None, s)
           | Some m \<Rightarrow>
               if 0 \<le> m \<and> m \<le> int (maxPublishDelayMs leaseMs)
               then reply (s\<lparr>sw_outbox := setOutboxControls (sw_outbox s) None (Some (nat m))\<rparr>)
               else (None, s))
      | Some PrinterFail \<Rightarrow>
          (case cb_enabled body of
             None \<Rightarrow> (None, s)
           | Some b \<Rightarrow> reply (s\<lparr>sw_printer := setPrinterControls b (sw_printer s)\<rparr>))
      | Some ReplayLastEvent \<Rightarrow>
          (let (replayed, rows) = replayLastEvent now locked (sw_rows s); s' = s\<lparr>sw_rows := rows\<rparr> in
           (Some \<lparr>sr_state = readState s', sr_replayed = Some replayed\<rparr>, s')))"

section \<open>The endpoints agree\<close>

lemma narrow_counters_agree:
  "readConflictCounters t = (dc_conflictsDetected (readDatabaseCounters t), dc_blockedMutations (readDatabaseCounters t))"
  "readOutboxCounters t =
     ((dc_outboxPending (readDatabaseCounters t), dc_outboxPublished (readDatabaseCounters t),
       dc_outboxDeadLettered (readDatabaseCounters t)),
      (dc_printJobsPending (readDatabaseCounters t), dc_printJobsPrinted (readDatabaseCounters t),
       dc_printJobsFailed (readDatabaseCounters t), dc_printJobsDeadLettered (readDatabaseCounters t)))"
  by (simp_all add: readConflictCounters_def readOutboxCounters_def readDatabaseCounters_def)

text \<open>The consumers' counts add up to the events consumed; every state of a print job is in one of the four counts.\<close>

lemma count_split: "count_where P xs + count_where (\<lambda>x. \<not> P x) xs = length xs"
  by (induction xs) (auto simp: count_where_def)

lemma one_hit: "distinct ks \<Longrightarrow> y \<in> set ks \<Longrightarrow> sum_list (map (\<lambda>k. if y = k then 1 else (0 :: nat)) ks) = 1"
  by (induction ks) (auto simp: sum_list_eq_0_iff)

lemma sum_counts: "distinct ks \<Longrightarrow> set (map f xs) \<subseteq> set ks \<Longrightarrow> sum_list (map (\<lambda>k. count_where (\<lambda>x. f x = k) xs) ks) = length xs"
proof (induction xs)
  case (Cons x xs)
  have "count_where (\<lambda>y. f y = k) (x # xs) = count_where (\<lambda>y. f y = k) xs + (if f x = k then 1 else 0)" for k
    by (simp add: count_where_def)
  moreover have "sum_list (map (\<lambda>k. if f x = k then 1 else (0 :: nat)) ks) = 1"
    using Cons.prems by (intro one_hit) simp_all
  ultimately show ?case using Cons by (simp add: sum_list_addf)
qed (simp add: count_where_def)

lemma consumers_add_up: "sum_list (map snd (readConsumedByConsumer t)) = dc_kafkaEventsConsumed (readDatabaseCounters t)"
  by (simp add: readConsumedByConsumer_def readDatabaseCounters_def o_def sum_counts)

lemma jobs_add_up:
  "dc_printJobsPending (readDatabaseCounters t) + dc_printJobsPrinted (readDatabaseCounters t)
     + dc_printJobsFailed (readDatabaseCounters t) + dc_printJobsDeadLettered (readDatabaseCounters t) = length (dt_jobs t)"
proof -
  have "set (map pj_state (dt_jobs t)) \<subseteq> set [JOB_PENDING, JOB_PRINTED, JOB_FAILED, JOB_DEAD_LETTER]"
    by (auto, metis print_job_state.exhaust)
  from sum_counts [OF _ this] show ?thesis by (simp add: readDatabaseCounters_def)
qed

section \<open>What is stuck is on the first page\<close>

lemma first_page:
  assumes "x \<in> set (take n (sort_key k xs))" and "y \<in> set xs" and "y \<notin> set (take n (sort_key k xs))"
  shows "k x \<le> k y"
proof -
  have "set xs = set (take n (sort_key k xs)) \<union> set (drop n (sort_key k xs))" by (metis append_take_drop_id set_append set_sort)
  then have "y \<in> set (drop n (sort_key k xs))" using assms(2,3) by blast
  moreover have "sorted (map k (take n (sort_key k xs) @ drop n (sort_key k xs)))" by simp
  ultimately show ?thesis using assms(1) unfolding map_append sorted_append by (auto simp del: append_take_drop_id)
qed

lemma stuck_rows_first:
  assumes "x \<in> set (readOutboxRows limit t)" and "y \<in> set (dt_outbox t)" and "y \<notin> set (readOutboxRows limit t)"
  shows "ob_deadLetteredAt y \<noteq> None \<longrightarrow> ob_deadLetteredAt x \<noteq> None"
    and "ob_publishedAt y = None \<longrightarrow> ob_deadLetteredAt x \<noteq> None \<or> ob_publishedAt x = None"
  using first_page [of x limit outbox_rank "dt_outbox t" y] assms
  by (auto simp: readOutboxRows_def outbox_rank_def holds_first_def split: if_splits)

lemma failed_jobs_first:
  assumes "x \<in> set (readPrintJobs limit t)" and "y \<in> set (dt_jobs t)" and "y \<notin> set (readPrintJobs limit t)"
  shows "pj_state y = JOB_DEAD_LETTER \<longrightarrow> pj_state x = JOB_DEAD_LETTER"
    and "pj_state y = JOB_FAILED \<longrightarrow> pj_state x \<in> {JOB_DEAD_LETTER, JOB_FAILED}"
  using first_page [of x limit job_rank "dt_jobs t" y] assms
  by (auto simp: readPrintJobs_def job_rank_def holds_first_def split: if_splits)

section \<open>The switches are obeyed\<close>

lemma switch_reads [simp]:
  "readOutboxControls (setOutboxControls row (Some b) None) = (readOutboxControls row)\<lparr>ctl_paused := b\<rparr>"
  "readOutboxControls (setOutboxControls row None (Some m)) = (readOutboxControls row)\<lparr>ctl_publishDelayMs := m\<rparr>"
  by (simp_all add: readOutboxControls_def setOutboxControls_def split: option.split)

text \<open>
  A call changes the one thing it names and answers with the state it left, or is refused and changes nothing; whatever the calls, a
  delay in the table stays within what a publisher can honour.
\<close>

definition delay_ok :: "nat \<Rightarrow> switches \<Rightarrow> bool" where
  "delay_ok leaseMs s \<longleftrightarrow> ctl_publishDelayMs (readOutboxControls (sw_outbox s)) \<le> maxPublishDelayMs leaseMs"

lemma simulatorRoute_answers:
  assumes "simulatorRoute leaseMs now locked control body s = (answer, s')"
  shows "answer = None \<longrightarrow> s' = s" and "\<forall>r. answer = Some r \<longrightarrow> sr_state r = readState s'" and "delay_ok leaseMs s \<Longrightarrow> delay_ok leaseMs s'"
  using assms
  by (auto simp: simulatorRoute_def delay_ok_def Let_def split: option.splits simulator_control.splits if_splits prod.splits)

lemma simulatorRoute_changes:
  assumes "simulatorRoute leaseMs now locked (Some control) body s = (Some r, s')"
  shows "case control of
      OutboxPause \<Rightarrow> \<exists>b. cb_enabled body = Some b
        \<and> sr_state r = ((readOutboxControls (sw_outbox s))\<lparr>ctl_paused := b\<rparr>, snd (readState s)) \<and> sw_rows s' = sw_rows s
    | OutboxDelay \<Rightarrow> \<exists>m \<ge> 0. cb_publishDelayMs body = Some m
        \<and> sr_state r = ((readOutboxControls (sw_outbox s))\<lparr>ctl_publishDelayMs := nat m\<rparr>, snd (readState s)) \<and> sw_rows s' = sw_rows s
    | PrinterFail \<Rightarrow> \<exists>b. cb_enabled body = Some b \<and> sr_state r = (fst (readState s), b) \<and> sw_rows s' = sw_rows s
    | ReplayLastEvent \<Rightarrow> sr_state r = readState s \<and> map event_identity (sw_rows s') = map event_identity (sw_rows s)"
  using assms replay.identity [of now locked "sw_rows s"]
  by (cases control)
    (auto simp: simulatorRoute_def readState_def printer_switch Let_def split: option.splits if_splits prod.splits)

text \<open>
  A delay within the ceiling is not a pause: a row that is reached within the first half of the lease budget is waited for and sent, by
  a live session that nobody has paused.
\<close>

lemma accepted_delay_is_no_pause:
  assumes "ctl_publishDelayMs (tk_controls tk) \<le> maxPublishDelayMs (po_leaseMs opts)"
    and "20 * tk_now tk < 20 * claimedAt + 9 * po_leaseMs opts"
    and "10 * tk_now_after tk < 10 * claimedAt + 9 * po_leaseMs opts"
    and "tk_alive tk" "tk_alive_after tk" "\<not> ctl_paused (tk_controls tk)" "\<not> ctl_paused (tk_controls_after tk)"
  shows "row_stop (leaseDeadline10 opts claimedAt) tk = None"
proof -
  have "20 * ctl_publishDelayMs (tk_controls tk) \<le> 9 * po_leaseMs opts"
    using assms(1) maxPublishDelayMs_half_budget [of "po_leaseMs opts"] by linarith
  then have "10 * (tk_now tk + ctl_publishDelayMs (tk_controls tk)) < leaseDeadline10 opts claimedAt"
    using assms(2) by (simp add: leaseDeadline10_def)
  then show ?thesis using assms(3-) by (simp add: row_stop_def reasonToStop_def leaseDeadline10_def Let_def)
qed

end
