(* ===== verification/Consumer_Lag.thy ===== *)
theory Consumer_Lag
  imports Prelude "HOL-Library.AList"
begin

text \<open>
  The consumer lag of the debug page, \<open>apps/api/src/modules/debug/application/consumer-lag.ts\<close>: the sum over the partitions of a topic,
  and the one admin client the overlapping probes share.

  Offsets are integers. The client is KafkaJS's: a connect may succeed or be rejected at any time after it began. What a
  promise's callbacks do is one step with the promise settling.
\<close>

section \<open>The lag of a group\<close>

text \<open>The high watermarks by partition, as the \<open>Map\<close> the answers are set into.\<close>

definition highWatermarks :: "(int \<times> int) list \<Rightarrow> (int \<times> int) list" where
  "highWatermarks answers = fold (\<lambda>(p, high). AList.update p high) answers []"

definition consumed :: "(int \<times> int) list \<Rightarrow> int \<Rightarrow> int" where
  "consumed committed p =
     (case find (\<lambda>e. fst e = p) committed of
        None \<Rightarrow> 0
      | Some (_, offset) \<Rightarrow> if offset = -1 then 0 else offset)"

definition group_lag :: "(int \<times> int) list \<Rightarrow> (int \<times> int) list \<Rightarrow> int" where
  "group_lag watermarks committed =
     foldl (\<lambda>lag (p, high). let behind = high - consumed committed p in lag + (if behind > 0 then behind else 0))
       0 watermarks"

text \<open>What the broker answers about a group: the topics it committed to, each with its partitions.\<close>

definition committed_on :: "string \<Rightarrow> (string \<times> (int \<times> int) list) list \<Rightarrow> (int \<times> int) list" where
  "committed_on topic answer = (case find (\<lambda>e. fst e = topic) answer of None \<Rightarrow> [] | Some (_, partitions) \<Rightarrow> partitions)"

record lag_report =
  lr_groupId :: string
  lr_topic :: string
  lr_lag :: "int option"
  lr_error :: "string option"

text \<open>\<open>probe\<close>: the reading within the timeout, or its error's message.\<close>

definition lag_probe ::
  "string \<Rightarrow> string list \<Rightarrow> string + ((int \<times> int) list \<times> (string \<Rightarrow> (string \<times> (int \<times> int) list) list)) \<Rightarrow> lag_report list" where
  "lag_probe topic groupIds reading =
     (case reading of
        Inr (watermarks, committed) \<Rightarrow>
          map (\<lambda>g. \<lparr>lr_groupId = g, lr_topic = topic,
                 lr_lag = Some (group_lag (highWatermarks watermarks) (committed_on topic (committed g))), lr_error = None\<rparr>) groupIds
      | Inl message \<Rightarrow>
          map (\<lambda>g. \<lparr>lr_groupId = g, lr_topic = topic, lr_lag = None, lr_error = Some (take 200 message)\<rparr>) groupIds)"

lemma group_lag_sum: "group_lag ws committed = sum_list (map (\<lambda>(p, high). max 0 (high - consumed committed p)) ws)"
proof -
  have "foldl (\<lambda>lag (p, high). let behind = high - consumed committed p in lag + (if behind > 0 then behind else 0)) n ws
      = n + sum_list (map (\<lambda>(p, high). max 0 (high - consumed committed p)) ws)" for n
    by (induction ws arbitrary: n) (auto simp: Let_def max_def)
  then show ?thesis by (simp add: group_lag_def)
qed

lemma distinct_watermarks: "distinct (map fst (highWatermarks answers))"
proof -
  have "distinct (map fst (fold (\<lambda>(p, high). AList.update p high) answers ws))" if "distinct (map fst ws)" for ws :: "(int \<times> int) list"
    using that by (induction answers arbitrary: ws) (auto simp: distinct_update)
  then show ?thesis by (simp add: highWatermarks_def)
qed

text \<open>
  On logs, partition by partition, of which the group has read a prefix, the lag is the number of messages it has not read; a
  partition the group has never committed to counts in full.
\<close>

lemma lag_counts_unread:
  assumes "distinct (map fst logs)"
    and "\<And>p log. (p, log) \<in> set logs \<Longrightarrow> consumed committed p = int (read p) \<and> read p \<le> length log"
  shows "group_lag (map (\<lambda>(p, log). (p, int (length log))) logs) committed
    = int (length (concat (map (\<lambda>(p, log). drop (read p) log) logs)))"
  using assms
proof (induction logs)
  case (Cons l logs)
  obtain p log where l: "l = (p, log)" by fastforce
  have "consumed committed p = int (read p)" "read p \<le> length log" using Cons.prems(2) l by auto
  moreover have "group_lag (map (\<lambda>(p, log). (p, int (length log))) logs) committed
      = int (length (concat (map (\<lambda>(p, log). drop (read p) log) logs)))"
    using Cons by (intro Cons.IH) auto
  ultimately show ?case by (simp add: l group_lag_sum of_nat_diff)
qed (simp add: group_lag_sum)

lemma caught_up_iff: "group_lag ws committed = 0 \<longleftrightarrow> (\<forall>(p, high) \<in> set ws. high \<le> consumed committed p)"
proof (induction ws)
  case (Cons w ws)
  have "0 \<le> group_lag ws committed" by (auto simp: group_lag_sum intro!: sum_list_nonneg)
  then show ?case using Cons by (cases w) (auto simp: group_lag_sum)
qed (simp add: group_lag_sum)

section \<open>The shared client\<close>

datatype client_state = Connecting | Connected | Gone

text \<open>
  The clients built so far by number; the promise the variable \<open>connecting\<close> holds; the clients whose promise carries
  \<open>then(disconnect)\<close>; the probes under way. \<open>lc_late\<close> counts the rejections that cleared a promise other than their own.
\<close>

record lag_client =
  lc_memo :: "nat option"
  lc_next :: nat
  lc_state :: "nat \<Rightarrow> client_state"
  lc_doomed :: "nat set"
  lc_closed :: bool
  lc_running :: nat
  lc_late :: nat

definition createConsumerLagProbe :: lag_client where
  "createConsumerLagProbe =
     \<lparr>lc_memo = None, lc_next = 0, lc_state = (\<lambda>_. Gone), lc_doomed = {}, lc_closed = False, lc_running = 0, lc_late = 0\<rparr>"

text \<open>\<open>connected\<close>: joins the connection under way, or begins one.\<close>

definition probe_begins :: "lag_client \<Rightarrow> lag_client" where
  "probe_begins s =
     (case lc_memo s of
        Some _ \<Rightarrow> s\<lparr>lc_running := lc_running s + 1\<rparr>
      | None \<Rightarrow> s\<lparr>lc_running := lc_running s + 1, lc_memo := Some (lc_next s), lc_next := lc_next s + 1,
                  lc_state := (lc_state s)(lc_next s := Connecting)\<rparr>)"

text \<open>The \<open>catch\<close> on the promise forgets whatever promise is remembered then.\<close>

definition connect_rejected :: "nat \<Rightarrow> lag_client \<Rightarrow> lag_client" where
  "connect_rejected n s =
     s\<lparr>lc_state := (lc_state s)(n := Gone), lc_memo := None,
       lc_late := lc_late s + (if lc_memo s \<in> {None, Some n} then 0 else 1)\<rparr>"

definition connect_resolved :: "nat \<Rightarrow> lag_client \<Rightarrow> lag_client" where
  "connect_resolved n s =
     (if lc_closed s then connect_rejected n s
      else s\<lparr>lc_state := (lc_state s)(n := if n \<in> lc_doomed s then Gone else Connected)\<rparr>)"

text \<open>\<open>failed?.then((client) => client.disconnect())\<close>: at once when it is connected, later when it is connecting.\<close>

definition throw_away :: "lag_client \<Rightarrow> lag_client" where
  "throw_away s =
     (case lc_memo s of
        None \<Rightarrow> s
      | Some n \<Rightarrow> s\<lparr>lc_memo := None, lc_doomed := insert n (lc_doomed s),
                    lc_state := (lc_state s)(n := if lc_state s n = Connected then Gone else lc_state s n)\<rparr>)"

definition probe_answers :: "lag_client \<Rightarrow> lag_client" where
  "probe_answers s = s\<lparr>lc_running := lc_running s - 1\<rparr>"

definition probe_fails :: "lag_client \<Rightarrow> lag_client" where
  "probe_fails s = (throw_away s)\<lparr>lc_running := lc_running s - 1\<rparr>"

definition close_probe :: "lag_client \<Rightarrow> lag_client" where
  "close_probe s = throw_away (s\<lparr>lc_closed := True\<rparr>)"

inductive lag_step :: "lag_client \<Rightarrow> lag_client \<Rightarrow> bool" where
  begins: "lag_step s (probe_begins s)"
| resolved: "lc_state s n = Connecting \<Longrightarrow> lag_step s (connect_resolved n s)"
| rejected: "lc_state s n = Connecting \<Longrightarrow> lag_step s (connect_rejected n s)"
| answers: "0 < lc_running s \<Longrightarrow> lag_step s (probe_answers s)"
| fails: "0 < lc_running s \<Longrightarrow> lag_step s (probe_fails s)"
| closes: "lag_step s (close_probe s)"

text \<open>The clients nobody remembers and nobody will disconnect.\<close>

definition strays :: "lag_client \<Rightarrow> nat set" where
  "strays s = {n. n < lc_next s \<and> n \<notin> lc_doomed s \<and> lc_memo s \<noteq> Some n \<and> lc_state s n \<noteq> Gone}"

definition clients_ok :: "lag_client \<Rightarrow> bool" where
  "clients_ok s \<longleftrightarrow>
     (\<forall>n. lc_next s \<le> n \<longrightarrow> lc_state s n = Gone \<and> n \<notin> lc_doomed s)
     \<and> (\<forall>n. lc_memo s = Some n \<longrightarrow> n < lc_next s \<and> n \<notin> lc_doomed s \<and> lc_state s n \<noteq> Gone \<and> (lc_closed s \<longrightarrow> lc_state s n = Connecting))
     \<and> (\<forall>n \<in> lc_doomed s. lc_state s n \<noteq> Connected)
     \<and> card (strays s) \<le> lc_late s"

lemma finite_strays: "finite (strays s)"
  by (simp add: strays_def)

lemma clients_ok_shrink:
  assumes "clients_ok s" and "strays s' \<subseteq> strays s" and "lc_late s' = lc_late s"
  shows "card (strays s') \<le> lc_late s'"
  using assms card_mono [OF finite_strays assms(2)] by (simp add: clients_ok_def)

lemma throw_away_ok: "clients_ok s \<Longrightarrow> clients_ok (throw_away s)"
proof (cases "lc_memo s")
  case (Some n)
  assume ok: "clients_ok s"
  have "strays (throw_away s) \<subseteq> strays s" by (auto simp: strays_def throw_away_def Some split: if_splits)
  with ok have "card (strays (throw_away s)) \<le> lc_late (throw_away s)"
    by (intro clients_ok_shrink [of s]) (simp_all add: throw_away_def Some)
  then show ?thesis using ok by (auto simp: clients_ok_def throw_away_def Some)
qed (simp add: throw_away_def)

lemma begins_ok: "clients_ok s \<Longrightarrow> clients_ok (probe_begins s)"
proof -
  assume ok: "clients_ok s"
  have "strays (probe_begins s) \<subseteq> strays s" by (auto simp: strays_def probe_begins_def split: option.split if_splits)
  with ok have "card (strays (probe_begins s)) \<le> lc_late (probe_begins s)"
    by (intro clients_ok_shrink [of s]) (simp_all add: probe_begins_def split: option.split)
  then show ?thesis using ok by (auto simp: clients_ok_def probe_begins_def split: option.split)
qed

lemma rejected_ok:
  assumes ok: "clients_ok s" and n: "lc_state s n = Connecting"
  shows "clients_ok (connect_rejected n s)"
proof -
  have known: "n < lc_next s" using ok n by (auto simp: clients_ok_def not_less [symmetric])
  have strays: "strays (connect_rejected n s) \<subseteq> strays s \<union> (set_option (lc_memo s) - {n})"
    by (auto simp: strays_def connect_rejected_def split: if_splits)
  have "card (strays (connect_rejected n s)) \<le> card (strays s) + card (set_option (lc_memo s) - {n})"
    using card_mono [OF _ strays] card_Un_le [of "strays s" "set_option (lc_memo s) - {n}"] by (simp add: finite_strays)
  also have "card (set_option (lc_memo s) - {n}) = (if lc_memo s \<in> {None, Some n} then 0 else 1)"
    by (cases "lc_memo s") (auto simp: card_Diff_singleton_if)
  finally have "card (strays (connect_rejected n s)) \<le> lc_late (connect_rejected n s)"
    using ok by (simp add: clients_ok_def connect_rejected_def)
  then show ?thesis using ok known by (auto simp: clients_ok_def connect_rejected_def)
qed

lemma resolved_ok:
  assumes ok: "clients_ok s" and n: "lc_state s n = Connecting"
  shows "clients_ok (connect_resolved n s)"
proof (cases "lc_closed s")
  case True
  then show ?thesis using rejected_ok [OF assms] by (simp add: connect_resolved_def)
next
  case False
  have "n < lc_next s" using ok n by (auto simp: clients_ok_def not_less [symmetric])
  moreover have "strays (connect_resolved n s) \<subseteq> strays s"
    using n False by (auto simp: strays_def connect_resolved_def split: if_splits)
  with ok have "card (strays (connect_resolved n s)) \<le> lc_late (connect_resolved n s)"
    using False by (intro clients_ok_shrink [of s]) (simp_all add: connect_resolved_def)
  ultimately show ?thesis using ok False by (auto simp: clients_ok_def connect_resolved_def)
qed

lemma running_ok: "clients_ok (s\<lparr>lc_running := k\<rparr>) = clients_ok s"
  by (simp add: clients_ok_def strays_def)

lemma close_ok: "clients_ok s \<Longrightarrow> clients_ok (close_probe s)"
proof -
  assume "clients_ok s"
  then have "clients_ok (throw_away s)" by (rule throw_away_ok)
  moreover have "close_probe s = (throw_away s)\<lparr>lc_closed := True\<rparr>" and "lc_memo (throw_away s) = None"
    by (simp_all add: close_probe_def throw_away_def split: option.split)
  ultimately show ?thesis by (simp add: clients_ok_def strays_def)
qed

lemma lag_step_ok: "lag_step s s' \<Longrightarrow> clients_ok s \<Longrightarrow> clients_ok s'"
  by (induction rule: lag_step.induct)
    (auto simp: begins_ok resolved_ok rejected_ok close_ok probe_answers_def probe_fails_def running_ok throw_away_ok)

lemma lag_reachable_ok: "lag_step\<^sup>*\<^sup>* createConsumerLagProbe s \<Longrightarrow> clients_ok s"
proof (induction rule: rtranclp_induct)
  case base
  show ?case by (simp add: clients_ok_def createConsumerLagProbe_def strays_def)
next
  case (step s s')
  then show ?case using lag_step_ok by blast
qed

text \<open>
  C39. However the polls of the debug page overlap, time out, fail and are cut off by the shutdown, the lag probe keeps to one
  connection with the broker. Open at any time are the one it remembers and at most one for each connect that was rejected after its probe
  had given up on it; after \<open>close\<close> none but those. Without such a rejection every open connection is the remembered one, and none
  is open once the probe is closed. Two overlapping polls do not build two clients, again up to such rejections.
\<close>

theorem probes_share_one_client:
  assumes "lag_step\<^sup>*\<^sup>* createConsumerLagProbe s"
  shows "finite {n. lc_state s n \<noteq> Gone}
    \<and> card {n. lc_state s n = Connected} \<le> (if lc_closed s then 0 else 1) + lc_late s
    \<and> card {n. lc_state s n = Connecting \<and> n \<notin> lc_doomed s} \<le> 1 + lc_late s
    \<and> (lc_late s = 0 \<longrightarrow> (\<forall>n. lc_state s n = Connected \<longrightarrow> lc_memo s = Some n \<and> \<not> lc_closed s))"
proof -
  have ok: "clients_ok s" using assms by (rule lag_reachable_ok)
  let ?up = "{n. lc_state s n = Connected}" and ?new = "{n. lc_state s n = Connecting \<and> n \<notin> lc_doomed s}"
  have memo: "card (set_option (lc_memo s)) \<le> 1" by (cases "lc_memo s") simp_all
  have up: "?up \<subseteq> strays s \<union> (if lc_closed s then {} else set_option (lc_memo s))"
    and new: "?new \<subseteq> strays s \<union> set_option (lc_memo s)"
    using ok by (auto simp: clients_ok_def strays_def not_less [symmetric])
  have bound: "card A \<le> card B + lc_late s" if "A \<subseteq> strays s \<union> B" "finite B" for A B
    using card_mono [OF _ that(1)] card_Un_le [of "strays s" B] that(2) ok by (auto simp: finite_strays clients_ok_def)
  have "card ?up \<le> (if lc_closed s then 0 else 1) + lc_late s" using bound [OF up] memo by (auto split: if_splits)
  moreover have "card ?new \<le> 1 + lc_late s" using bound [OF new] memo by simp
  moreover have "lc_memo s = Some n \<and> \<not> lc_closed s" if "lc_late s = 0" "lc_state s n = Connected" for n
    using up that ok finite_strays [of s] by (cases "lc_memo s") (auto simp: clients_ok_def split: if_splits)
  moreover have "{n. lc_state s n \<noteq> Gone} \<subseteq> {..<lc_next s}" using ok by (auto simp: clients_ok_def not_less [symmetric])
  then have "finite {n. lc_state s n \<noteq> Gone}" by (rule finite_subset) simp
  ultimately show ?thesis by blast
qed

text \<open>A connection lost that way is never disconnected, whatever happens next, the shutdown included.\<close>

lemma stray_step:
  assumes "lag_step s s'" and "clients_ok s" and "n \<in> strays s" and "lc_state s n = Connected"
  shows "n \<in> strays s' \<and> lc_state s' n = Connected"
  using assms
  by (induction rule: lag_step.induct)
    (auto simp: strays_def probe_begins_def connect_resolved_def connect_rejected_def probe_answers_def probe_fails_def
      close_probe_def throw_away_def split: option.splits)

lemma stray_forever:
  assumes "lag_step\<^sup>*\<^sup>* s s'" and "clients_ok s" and "n \<in> strays s" and "lc_state s n = Connected"
  shows "n \<in> strays s' \<and> lc_state s' n = Connected"
proof -
  from assms(1) have "clients_ok s' \<and> n \<in> strays s' \<and> lc_state s' n = Connected"
  proof induction
    case (step s1 s2)
    then show ?case using stray_step lag_step_ok by blast
  qed (use assms in blast)
  then show ?thesis by blast
qed

text \<open>
  It happens: a probe gives up on its connect, the next probe begins another and connects, then the first connect is
  rejected and the rejection forgets the second.
\<close>

definition forgotten_client :: lag_client where
  "forgotten_client =
     connect_rejected 0 (probe_answers (connect_resolved 1 (probe_begins (probe_fails (probe_begins createConsumerLagProbe)))))"

lemma forgotten_client_reached: "lag_step\<^sup>*\<^sup>* createConsumerLagProbe forgotten_client"
proof -
  let ?a = "probe_begins createConsumerLagProbe"
  let ?b = "probe_fails ?a" let ?c = "probe_begins ?b" let ?d = "connect_resolved 1 ?c" let ?e = "probe_answers ?d"
  note steps = probe_begins_def createConsumerLagProbe_def probe_fails_def throw_away_def connect_resolved_def probe_answers_def
  have "lag_step createConsumerLagProbe ?a" and "lag_step ?b ?c" by (rule lag_step.begins)+
  moreover have "lag_step ?a ?b" by (rule lag_step.fails) (simp add: steps)
  moreover have "lag_step ?c ?d" by (rule lag_step.resolved) (simp add: steps)
  moreover have "lag_step ?d ?e" by (rule lag_step.answers) (simp add: steps)
  moreover have "lag_step ?e forgotten_client"
    unfolding forgotten_client_def by (rule lag_step.rejected) (simp add: steps)
  ultimately show ?thesis by (meson converse_rtranclp_into_rtranclp rtranclp.rtrancl_refl)
qed

lemma late_rejection_leaks_a_client:
  assumes "lag_step\<^sup>*\<^sup>* (close_probe forgotten_client) s"
  shows "lc_state s 1 = Connected"
proof -
  have "lag_step\<^sup>*\<^sup>* forgotten_client s"
    using assms by (meson converse_rtranclp_into_rtranclp lag_step.closes)
  moreover have "1 \<in> strays forgotten_client" "lc_state forgotten_client 1 = Connected"
    by (simp_all add: strays_def forgotten_client_def connect_rejected_def probe_begins_def createConsumerLagProbe_def probe_fails_def
        throw_away_def connect_resolved_def probe_answers_def)
  ultimately show ?thesis using stray_forever lag_reachable_ok [OF forgotten_client_reached] by blast
qed

text \<open>The bound is met: after the shutdown that connection is still open, one for the one late rejection.\<close>

theorem probes_share_one_client_witness:
  "lc_closed (close_probe forgotten_client) \<and> lc_late (close_probe forgotten_client) = 1
   \<and> lc_state (close_probe forgotten_client) 1 = Connected
   \<and> card {n. lc_state (close_probe forgotten_client) n = Connected} \<le> 1"
proof -
  have "lag_step\<^sup>*\<^sup>* createConsumerLagProbe (close_probe forgotten_client)"
    using forgotten_client_reached lag_step.closes by (rule rtranclp.rtrancl_into_rtrancl)
  moreover have "lc_closed (close_probe forgotten_client)" "lc_late (close_probe forgotten_client) = 1"
    by (simp_all add: close_probe_def forgotten_client_def connect_rejected_def probe_begins_def createConsumerLagProbe_def
        probe_fails_def throw_away_def connect_resolved_def probe_answers_def)
  ultimately show ?thesis
    using probes_share_one_client [of "close_probe forgotten_client"] late_rejection_leaks_a_client [OF rtranclp.rtrancl_refl] by simp
qed

end
