(* ===== verification/Health_Report.thy ===== *)
theory Health_Report
  imports Debug_Routes Consumer_Lag
begin

text \<open>
  The health of the processes: the probes of \<open>apps/api/src/modules/health/application/dependency-probes.ts\<close>, the routes of
  \<open>health/api/health-routes.ts\<close> and the worker's readiness (\<open>apps/worker/src/modules/health/worker-health.ts\<close>).

  A check is when it settles, in milliseconds from its start, and with which error; \<open>None\<close> is a check that never does.
\<close>

section \<open>Probes\<close>

datatype dependency_kind = HardDependency | SoftDependency

record dependency_probe =
  dp_name :: string
  dp_kind :: dependency_kind
  dp_impact :: string

type_synonym check_result = "(nat \<times> string option) option"

record dependency_report =
  dr_name :: string
  dr_kind :: dependency_kind
  dr_up :: bool
  dr_latencyMs :: nat
  dr_error :: "string option"
  dr_impact :: string

definition postgresProbe :: dependency_probe where
  "postgresProbe =
     \<lparr>dp_name = ''postgres'', dp_kind = HardDependency,
      dp_impact = ''Writes and reads both fail. This instance must not be sent traffic.''\<rparr>"

text \<open>The race of a check with its timer, which was set first.\<close>

definition runProbe :: "nat \<Rightarrow> (nat \<Rightarrow> string) \<Rightarrow> dependency_probe \<Rightarrow> check_result \<Rightarrow> dependency_report" where
  "runProbe timeoutMs timed_out probe check =
     (let report = (\<lambda>t error. \<lparr>dr_name = dp_name probe, dr_kind = dp_kind probe, dr_up = (error = None), dr_latencyMs = t,
            dr_error = map_option (take 200) error, dr_impact = dp_impact probe\<rparr>) in
      case check of
        None \<Rightarrow> report timeoutMs (Some (timed_out timeoutMs))
      | Some (t, error) \<Rightarrow> if t < timeoutMs then report t error else report timeoutMs (Some (timed_out timeoutMs)))"

record outbox_backlog =
  bl_pending :: nat
  bl_deadLettered :: nat
  bl_oldestPendingAgeSeconds :: "int option"

text \<open>\<open>Math.round\<close> of the seconds since the oldest pending row was written.\<close>

definition readOutboxBacklog :: "millis \<Rightarrow> outbox_row list \<Rightarrow> outbox_backlog" where
  "readOutboxBacklog now rows =
     (let pending = filter (\<lambda>r. ob_publishedAt r = None \<and> ob_deadLetteredAt r = None) rows in
      \<lparr>bl_pending = length pending, bl_deadLettered = count_where (\<lambda>r. ob_deadLetteredAt r \<noteq> None) rows,
       bl_oldestPendingAgeSeconds =
         (case pending of
            [] \<Rightarrow> None
          | r # rs \<Rightarrow> Some ((int now - int (fold (\<lambda>r m. min (ob_createdAt r) m) rs (ob_createdAt r)) + 500) div 1000))\<rparr>)"

section \<open>The routes\<close>

datatype health_status = HealthOk | Degraded | Unavailable

definition overallStatus :: "dependency_report list \<Rightarrow> health_status" where
  "overallStatus reports =
     (if \<exists>r \<in> set reports. dr_kind r = HardDependency \<and> \<not> dr_up r then Unavailable
      else if \<exists>r \<in> set reports. \<not> dr_up r then Degraded
      else HealthOk)"

text \<open>\<open>registerHealthRoutes\<close> refuses a list without a hard dependency: \<open>None\<close>. Else it is the probes readiness runs.\<close>

definition readiness_probes :: "dependency_probe list \<Rightarrow> dependency_probe list option" where
  "readiness_probes probes =
     (let hard = filter (\<lambda>p. dp_kind p = HardDependency) probes in if hard = [] then None else Some hard)"

definition readyRoute ::
  "nat \<Rightarrow> (nat \<Rightarrow> string) \<Rightarrow> (dependency_probe \<Rightarrow> check_result) \<Rightarrow> dependency_probe list \<Rightarrow> nat \<times> health_status \<times> dependency_report list" where
  "readyRoute timeoutMs timed_out check hard =
     (let checks = map (\<lambda>p. runProbe timeoutMs timed_out p (check p)) hard;
          ready = list_all dr_up checks in
      (if ready then 200 else 503, if ready then HealthOk else Unavailable, checks))"

record dependencies_response =
  dn_status :: health_status
  dn_dependencies :: "dependency_report list"
  dn_outbox :: outbox_backlog
  dn_consumerGroups :: "lag_report list"

definition dependenciesRoute ::
  "nat \<Rightarrow> (nat \<Rightarrow> string) \<Rightarrow> (dependency_probe \<Rightarrow> check_result) \<Rightarrow> dependency_probe list \<Rightarrow> millis \<Rightarrow> outbox_row list option
     \<Rightarrow> lag_report list option \<Rightarrow> dependencies_response" where
  "dependenciesRoute timeoutMs timed_out check probes now rows lag =
     (let dependencies = map (\<lambda>p. runProbe timeoutMs timed_out p (check p)) probes in
      \<lparr>dn_status = overallStatus dependencies, dn_dependencies = dependencies,
       dn_outbox = (case rows of
           Some rs \<Rightarrow> readOutboxBacklog now rs
         | None \<Rightarrow> \<lparr>bl_pending = 0, bl_deadLettered = 0, bl_oldestPendingAgeSeconds = None\<rparr>),
       dn_consumerGroups = (case lag of Some reports \<Rightarrow> reports | None \<Rightarrow> [])\<rparr>)"

record worker_checks =
  wc_brokerConnected :: bool
  wc_publisherPassCompleted :: bool
  wc_printPipelineConsuming :: bool

definition describeWorkerReadiness :: "worker_checks \<Rightarrow> health_status" where
  "describeWorkerReadiness c =
     (if wc_brokerConnected c \<and> wc_publisherPassCompleted c \<and> wc_printPipelineConsuming c then HealthOk else Unavailable)"

text \<open>The two routes of \<open>startWorkerHealthServer\<close>, by the path before a \<open>?\<close>.\<close>

definition workerHealthRoute :: "string \<Rightarrow> worker_checks \<Rightarrow> nat" where
  "workerHealthRoute url checks =
     (let path = takeWhile (\<lambda>c. c \<noteq> CHR ''?'') url in
      if path = ''/health/live'' then 200
      else if path = ''/health/ready'' then (if describeWorkerReadiness checks = HealthOk then 200 else 503)
      else 404)"

section \<open>What the reports mean\<close>

lemma runProbe_bounded: "dr_latencyMs (runProbe timeoutMs timed_out p check) \<le> timeoutMs"
  by (simp add: runProbe_def Let_def split: option.split)

lemma runProbe_fields [simp]:
  "dr_kind (runProbe timeoutMs timed_out p check) = dp_kind p" "dr_name (runProbe timeoutMs timed_out p check) = dp_name p"
  by (simp_all add: runProbe_def Let_def split: option.split)

lemma runProbe_up: "dr_up (runProbe timeoutMs timed_out p check) \<longleftrightarrow> (\<exists>t < timeoutMs. check = Some (t, None))"
  by (auto simp: runProbe_def Let_def split: option.split)

text \<open>
  The instance is ready exactly when the page does not call it unavailable; an outage of soft dependencies alone leaves it
  ready and shows as degraded.
\<close>

lemma ready_iff_available:
  assumes "readiness_probes probes = Some hard"
  shows "fst (readyRoute timeoutMs timed_out check hard) = 200 \<longleftrightarrow>
      dn_status (dependenciesRoute timeoutMs timed_out check probes now rows lag) \<noteq> Unavailable"
  using assms
  by (auto simp: readiness_probes_def readyRoute_def dependenciesRoute_def overallStatus_def list_all_iff Let_def split: if_splits)

lemma soft_outage_degrades:
  assumes "readiness_probes probes = Some hard"
    and "\<And>p. p \<in> set probes \<Longrightarrow> dp_kind p = HardDependency \<Longrightarrow> \<exists>t < timeoutMs. check p = Some (t, None)"
    and "p \<in> set probes" and "\<not> (\<exists>t < timeoutMs. check p = Some (t, None))"
  shows "fst (readyRoute timeoutMs timed_out check hard) = 200"
    and "dn_status (dependenciesRoute timeoutMs timed_out check probes now rows lag) = Degraded"
  using assms
  by (auto simp: readiness_probes_def readyRoute_def dependenciesRoute_def overallStatus_def list_all_iff runProbe_up Let_def
      split: if_splits)

lemma fold_min_le: "fold (\<lambda>r m. min (f r) m) rs n \<le> (n :: nat) \<and> (\<forall>r \<in> set rs. fold (\<lambda>r m. min (f r) m) rs n \<le> f r)"
proof (induction rs arbitrary: n)
  case (Cons r rs)
  from Cons [of "min (f r) n"] show ?case by auto
qed simp

text \<open>The backlog counts what the counters count, and its age is known exactly when something waits, and is that of the oldest.\<close>

lemma backlog_agrees:
  assumes "dt_outbox t = rows"
  shows "bl_pending (readOutboxBacklog now rows) = dc_outboxPending (readDatabaseCounters t)"
    and "bl_deadLettered (readOutboxBacklog now rows) = dc_outboxDeadLettered (readDatabaseCounters t)"
  using assms by (simp_all add: readOutboxBacklog_def readDatabaseCounters_def count_where_def Let_def)

lemma backlog_age:
  assumes "bl_oldestPendingAgeSeconds (readOutboxBacklog now rows) = Some age"
    and "r \<in> set rows" and "unsettled r"
  shows "(int now - int (ob_createdAt r) + 500) div 1000 \<le> age"
proof -
  let ?pending = "filter (\<lambda>r. ob_publishedAt r = None \<and> ob_deadLetteredAt r = None) rows"
  obtain q qs where p: "?pending = q # qs"
    and age: "age = (int now - int (fold (\<lambda>r m. min (ob_createdAt r) m) qs (ob_createdAt q)) + 500) div 1000"
    using assms(1) by (auto simp: readOutboxBacklog_def Let_def split: list.splits)
  have "r \<in> set ?pending" using assms(2,3) by (simp add: unsettled_def)
  then have "r = q \<or> r \<in> set qs" by (simp add: p)
  then have "fold (\<lambda>r m. min (ob_createdAt r) m) qs (ob_createdAt q) \<le> ob_createdAt r"
    using fold_min_le [of ob_createdAt qs "ob_createdAt q"] by auto
  then show ?thesis unfolding age by (intro zdiv_mono1) simp_all
qed

end
