(* ===== verification/Debug_View.thy ===== *)
theory Debug_View
  imports Health_Report Realtime_Delivery
begin

text \<open>
  What \<open>/debug\<close> says about what it is shown: the judgements of \<open>apps/web/src/domain/debug-view.ts\<close>, and how the three stores behind the page
  (\<open>stores/debug.ts\<close>, \<open>stores/simulator.ts\<close>, \<open>stores/flags.ts\<close>) take an answer. A label's number is an argument of its constructor;
  the titles and caveats of the counter groups are texts.
\<close>

section \<open>Badges\<close>

datatype tone = ToneOk | ToneWarn | ToneBad | ToneNeutral

datatype badge_label =
  OFFLINE_LABEL | ONLINE_LABEL | PENDING_LABEL int | STALE_LABEL
| DEAD_LETTERED_LABEL | PUBLISHED_LABEL | PENDING_ROW_LABEL | CLAIMED_LABEL | RECLAIMED_LABEL nat
| JOB_LABEL print_job_state | HARD_LABEL | SOFT_LABEL | UP_LABEL | DOWN_LABEL
| LAG_UNKNOWN_LABEL | CAUGHT_UP_LABEL | LAG_LABEL int

type_synonym badge = "badge_label \<times> tone"

definition PRESENCE_HEARTBEAT_MS :: int where "PRESENCE_HEARTBEAT_MS = 5000"
definition STALE_AFTER_MS :: int where "STALE_AFTER_MS = PRESENCE_HEARTBEAT_MS * 2"

text \<open>\<open>now\<close> is the clock of the browser that shows the page; the entry's \<open>lastSeenAt\<close> was parsed.\<close>

definition isStalePresence :: "presence_entry \<Rightarrow> int \<Rightarrow> bool" where
  "isStalePresence entry now \<longleftrightarrow> now - int (pe_lastSeenAt entry) > STALE_AFTER_MS"

definition presenceBadges :: "presence_entry \<Rightarrow> int \<Rightarrow> badge list" where
  "presenceBadges entry now =
     [if pr_offline (pe_report entry) then (OFFLINE_LABEL, ToneBad) else (ONLINE_LABEL, ToneOk)]
     @ (if pr_pendingCount (pe_report entry) > 0 then [(PENDING_LABEL (pr_pendingCount (pe_report entry)), ToneWarn)] else [])
     @ (if isStalePresence entry now then [(STALE_LABEL, ToneWarn)] else [])"

definition outboxRowBadges :: "outbox_row \<Rightarrow> badge list" where
  "outboxRowBadges row =
     [if ob_deadLetteredAt row \<noteq> None then (DEAD_LETTERED_LABEL, ToneBad)
      else if ob_publishedAt row \<noteq> None then (PUBLISHED_LABEL, ToneOk)
      else (PENDING_ROW_LABEL, ToneWarn)]
     @ (if ob_claimedBy row \<noteq> None \<and> ob_publishedAt row = None \<and> ob_deadLetteredAt row = None then [(CLAIMED_LABEL, ToneNeutral)] else [])
     @ (if ob_reclaimCount row > 0 then [(RECLAIMED_LABEL (ob_reclaimCount row), ToneWarn)] else [])"

fun PRINT_JOB_TONES :: "print_job_state \<Rightarrow> tone" where
  "PRINT_JOB_TONES JOB_PENDING = ToneWarn"
| "PRINT_JOB_TONES JOB_PRINTED = ToneOk"
| "PRINT_JOB_TONES JOB_FAILED = ToneWarn"
| "PRINT_JOB_TONES JOB_DEAD_LETTER = ToneBad"

definition printJobBadge :: "print_job_state \<Rightarrow> badge" where
  "printJobBadge state = (if state = JOB_DEAD_LETTER then DEAD_LETTERED_LABEL else JOB_LABEL state, PRINT_JOB_TONES state)"

definition dependencyBadges :: "dependency_report \<Rightarrow> badge list" where
  "dependencyBadges report =
     [(if dr_kind report = HardDependency then HARD_LABEL else SOFT_LABEL, ToneNeutral),
      if dr_up report then (UP_LABEL, ToneOk)
      else (DOWN_LABEL, if dr_kind report = HardDependency then ToneBad else ToneWarn)]"

definition lagBadge :: "lag_report \<Rightarrow> badge" where
  "lagBadge report =
     (case lr_lag report of
        None \<Rightarrow> (LAG_UNKNOWN_LABEL, ToneWarn)
      | Some lag \<Rightarrow> if lag = 0 then (CAUGHT_UP_LABEL, ToneOk) else (LAG_LABEL lag, if lag > 50 then ToneBad else ToneWarn))"

section \<open>Counters\<close>

definition GROUP_ORDER :: "counter_source list" where
  "GROUP_ORDER = [process_source, database_source, shared_source, client_source]"

definition groupCounters :: "counter_reading list \<Rightarrow> (counter_source \<times> counter_reading list) list" where
  "groupCounters readings =
     filter (\<lambda>g. snd g \<noteq> []) (map (\<lambda>origin. (origin, filter (\<lambda>r. cn_source r = origin) readings)) GROUP_ORDER)"

text \<open>This browser's own counters, from its rows of successes and failures.\<close>

definition readClientCounters :: "(nat \<times> nat) list \<Rightarrow> counter_reading list" where
  "readClientCounters rows =
     [reading client_source ''offlineSyncSuccesses'' (sum_list (map fst rows)),
      reading client_source ''offlineSyncFailures'' (sum_list (map snd rows))]"

section \<open>The stores behind the page\<close>

text \<open>A panel: its last good payload and its error line. \<open>load\<close> of \<open>stores/debug.ts\<close>, and \<open>refresh\<close> of the other two.\<close>

record 'a panel =
  pn_value :: "'a option"
  pn_error :: "string option"

definition load_panel :: "string + 'a \<Rightarrow> 'a panel \<Rightarrow> 'a panel" where
  "load_panel answer p =
     (case answer of
        Inr v \<Rightarrow> p\<lparr>pn_value := Some v, pn_error := None\<rparr>
      | Inl message \<Rightarrow> p\<lparr>pn_error := Some message\<rparr>)"

text \<open>A store that writes (\<open>send\<close>, \<open>update\<close>): the controls with a request out, around the panel.\<close>

record ('k, 'a) switch_store =
  ss_panel :: "'a panel"
  ss_busy :: "'k set"

definition send_begins :: "'k \<Rightarrow> ('k, 'a) switch_store \<Rightarrow> ('k, 'a) switch_store" where
  "send_begins control s = s\<lparr>ss_busy := insert control (ss_busy s)\<rparr>"

definition send_settles :: "'k \<Rightarrow> string + 'a \<Rightarrow> ('k, 'a) switch_store \<Rightarrow> ('k, 'a) switch_store" where
  "send_settles control answer s = s\<lparr>ss_panel := load_panel answer (ss_panel s), ss_busy := ss_busy s - {control}\<rparr>"

section \<open>What the page says is so\<close>

lemma groups_keep_readings: "mset (concat (map snd (groupCounters readings))) = mset readings"
proof -
  have parts: "mset (concat (map (\<lambda>s. filter (\<lambda>r. cn_source r = s) readings) GROUP_ORDER)) = mset readings"
  proof (induction readings)
    case (Cons r rs)
    then show ?case by (cases "cn_source r") (simp_all add: GROUP_ORDER_def)
  qed (simp add: GROUP_ORDER_def)
  have "concat (map f (filter (\<lambda>x. f x \<noteq> []) xs)) = concat (map f xs)" for f :: "counter_source \<Rightarrow> counter_reading list" and xs
    by (induction xs) auto
  then have "concat (map snd (groupCounters readings)) = concat (map (\<lambda>s. filter (\<lambda>r. cn_source r = s) readings) GROUP_ORDER)"
    by (simp add: groupCounters_def filter_map o_def)
  then show ?thesis using parts by simp
qed

text \<open>Green only when the broker answered and the group has read everything; an outage is never shown as caught up.\<close>

lemma caught_up_is_caught_up:
  assumes "r \<in> set (lag_probe topic groupIds broker)" and "lagBadge r = (CAUGHT_UP_LABEL, ToneOk)"
  obtains watermarks committed where "broker = Inr (watermarks, committed)"
    and "\<forall>(p, high) \<in> set (highWatermarks watermarks). high \<le> consumed (committed_on topic (committed (lr_groupId r))) p"
proof (cases broker)
  case (Inl message)
  then show thesis using assms by (auto simp: lag_probe_def lagBadge_def)
next
  case (Inr answer)
  then obtain watermarks committed where a: "broker = Inr (watermarks, committed)" by (cases answer) auto
  then have "group_lag (highWatermarks watermarks) (committed_on topic (committed (lr_groupId r))) = 0"
    using assms by (auto simp: lag_probe_def lagBadge_def split: if_splits)
  then show thesis using that [OF a] by (simp add: caught_up_iff)
qed

lemma red_dependency_is_unready:
  "(\<exists>r \<in> set reports. (DOWN_LABEL, ToneBad) \<in> set (dependencyBadges r)) \<longleftrightarrow> overallStatus reports = Unavailable"
  by (auto simp: dependencyBadges_def overallStatus_def)

lemma red_row_is_dead: "(\<exists>l. (l, ToneBad) \<in> set (outboxRowBadges row)) \<longleftrightarrow> ob_deadLetteredAt row \<noteq> None"
  by (auto simp: outboxRowBadges_def)

lemma failed_load_keeps_payload: "pn_value (load_panel (Inl message) p) = pn_value p"
  by (simp add: load_panel_def)

lemma overlapping_sends_stay_busy:
  "k \<noteq> k' \<Longrightarrow> k \<in> ss_busy (send_settles k' answer (send_begins k' (send_begins k s)))"
  by (simp add: send_settles_def send_begins_def)

text \<open>
  The staleness of a terminal compares the server's clock, which wrote the entry, with the clock of the browser that shows the
  page: with a browser ten seconds fast, a terminal that has just beaten is stale; with one that is slow by the lifetime of an
  entry, no listed terminal ever is.
\<close>

lemma fast_browser_sees_everyone_stale:
  assumes "presence_touch ttlMs now report origin store t = Some e" and "t = pr_terminalId report" and "skew > STALE_AFTER_MS"
  shows "(STALE_LABEL, ToneWarn) \<in> set (presenceBadges e (int now + skew))"
  using assms by (auto simp: presence_touch_def presenceBadges_def isStalePresence_def)

lemma slow_browser_sees_no_one_stale:
  assumes "e \<in> set (presence_list now store)" and "pe_expiresAt e = pe_lastSeenAt e + ttlMs" and "skew \<ge> int ttlMs"
  shows "(STALE_LABEL, ToneWarn) \<notin> set (presenceBadges e (int now - skew))"
proof -
  have "now < pe_lastSeenAt e + ttlMs" using assms(1,2) by (auto simp: presence_list_def)
  then show ?thesis using assms(3) by (simp add: presenceBadges_def isStalePresence_def STALE_AFTER_MS_def PRESENCE_HEARTBEAT_MS_def)
qed

end
