(* ===== verification/Realtime_Supervisor.thy ===== *)
theory Realtime_Supervisor
  imports Prelude
begin

text \<open>
  The supervision of the API's realtime consumer (\<open>connectConsumer\<close> and \<open>superviseRealtimeConsumer\<close> of
  \<open>apps/api/src/modules/realtime/consumer.ts\<close>), await by await. Consumers are numbered; one counts as open from its \<open>connect\<close> to the call
  that asks it to disconnect. KafkaJS settles an await either way.
\<close>

section \<open>The loop\<close>

datatype rt_phase =
  RT_Turn
| RT_Connecting nat
| RT_Starting nat
| RT_CleaningUp nat
| RT_Running nat
| RT_Disconnecting nat
| RT_Sleeping
| RT_Finished

text \<open>\<open>rt_woken\<close>: the promise \<open>died\<close> of the turn is resolved. \<open>wake\<close> always resolves that of the latest turn.\<close>

record rt_loop =
  rt_phase :: rt_phase
  rt_wanted :: bool
  rt_woken :: bool
  rt_current :: "nat option"
  rt_next :: nat
  rt_open :: "nat set"

definition rt_started :: rt_loop where
  "rt_started =
     \<lparr>rt_phase = RT_Turn, rt_wanted = True, rt_woken = False, rt_current = None, rt_next = 0, rt_open = {}\<rparr>"

definition rt_turn :: "rt_loop \<Rightarrow> rt_loop" where
  "rt_turn s =
     (if rt_wanted s then s\<lparr>rt_phase := RT_Connecting (rt_next s), rt_next := rt_next s + 1, rt_woken := False\<rparr>
      else s\<lparr>rt_phase := RT_Finished\<rparr>)"

text \<open>The end of a turn, after the consumer is gone: the loop leaves, or waits \<open>REALTIME_CONSUMER_RETRY_MS\<close>.\<close>

definition rt_turn_over :: "rt_loop \<Rightarrow> rt_loop" where
  "rt_turn_over s = s\<lparr>rt_current := None, rt_phase := (if rt_wanted s then RT_Sleeping else RT_Finished)\<rparr>"

inductive rt_advance :: "rt_loop \<Rightarrow> rt_loop \<Rightarrow> bool" where
  turns: "rt_phase s = RT_Turn \<Longrightarrow> rt_advance s (rt_turn s)"
| connects: "rt_phase s = RT_Connecting n \<Longrightarrow> rt_advance s (s\<lparr>rt_phase := RT_Starting n, rt_open := insert n (rt_open s)\<rparr>)"
| cannot_connect: "rt_phase s = RT_Connecting n \<Longrightarrow> rt_advance s (s\<lparr>rt_phase := RT_CleaningUp n\<rparr>)"
| runs: "rt_phase s = RT_Starting n \<Longrightarrow> rt_advance s (s\<lparr>rt_phase := RT_Running n, rt_current := Some n\<rparr>)"
| cannot_run: "rt_phase s = RT_Starting n \<Longrightarrow> rt_advance s (s\<lparr>rt_phase := RT_CleaningUp n, rt_open := rt_open s - {n}\<rparr>)"
| cleaned_up: "rt_phase s = RT_CleaningUp n \<Longrightarrow> rt_advance s (rt_turn_over s)"
| died: "rt_phase s = RT_Running n \<Longrightarrow> rt_woken s \<Longrightarrow>
    rt_advance s (s\<lparr>rt_phase := RT_Disconnecting n, rt_open := rt_open s - {n}\<rparr>)"
| disconnected: "rt_phase s = RT_Disconnecting n \<Longrightarrow> rt_advance s (rt_turn_over s)"
| slept: "rt_phase s = RT_Sleeping \<Longrightarrow> rt_advance s (s\<lparr>rt_phase := RT_Turn\<rparr>)"

text \<open>A fatal crash of any consumer, the present one or one before it; and \<open>stop\<close> up to its await of the loop.\<close>

definition rt_crash :: "rt_loop \<Rightarrow> rt_loop" where
  "rt_crash s = s\<lparr>rt_woken := True\<rparr>"

definition rt_stop :: "rt_loop \<Rightarrow> rt_loop" where
  "rt_stop s = s\<lparr>rt_wanted := False, rt_woken := True\<rparr>"

inductive rt_step :: "rt_loop \<Rightarrow> rt_loop \<Rightarrow> bool" where
  "rt_advance s s' \<Longrightarrow> rt_step s s'"
| "rt_step s (rt_crash s)"
| "rt_step s (rt_stop s)"

section \<open>One consumer, and an end\<close>

fun rt_may_be_open :: "rt_phase \<Rightarrow> nat set" where
  "rt_may_be_open (RT_Starting n) = {n}"
| "rt_may_be_open (RT_Running n) = {n}"
| "rt_may_be_open _ = {}"

fun rt_current_of :: "rt_phase \<Rightarrow> nat option" where
  "rt_current_of (RT_Running n) = Some n"
| "rt_current_of (RT_Disconnecting n) = Some n"
| "rt_current_of _ = None"

definition rt_ok :: "rt_loop \<Rightarrow> bool" where
  "rt_ok s \<longleftrightarrow>
     rt_open s = rt_may_be_open (rt_phase s) \<and> rt_current s = rt_current_of (rt_phase s)
     \<and> (\<not> rt_wanted s \<longrightarrow> rt_woken s)"

lemma rt_advance_ok: "rt_advance s s' \<Longrightarrow> rt_ok s \<Longrightarrow> rt_ok s'"
  by (induction rule: rt_advance.induct) (auto simp: rt_ok_def rt_turn_def rt_turn_over_def)

lemma rt_step_ok: "rt_step s s' \<Longrightarrow> rt_ok s \<Longrightarrow> rt_ok s'"
proof (induction rule: rt_step.induct)
  case (1 s s')
  then show ?case by (rule rt_advance_ok)
qed (simp_all add: rt_ok_def rt_crash_def rt_stop_def)

lemma rt_reachable_ok: "rt_step\<^sup>*\<^sup>* rt_started s \<Longrightarrow> rt_ok s"
proof (induction rule: rtranclp_induct)
  case base
  show ?case by (simp add: rt_ok_def rt_started_def)
next
  case (step s s')
  then show ?case using rt_step_ok by blast
qed

fun rt_steps_left :: "rt_phase \<Rightarrow> nat" where
  "rt_steps_left RT_Finished = 0"
| "rt_steps_left RT_Turn = 1"
| "rt_steps_left (RT_CleaningUp n) = 1"
| "rt_steps_left (RT_Disconnecting n) = 1"
| "rt_steps_left RT_Sleeping = 2"
| "rt_steps_left (RT_Running n) = 2"
| "rt_steps_left (RT_Starting n) = 3"
| "rt_steps_left (RT_Connecting n) = 4"

lemma rt_unwanted_advance:
  "rt_advance s s' \<Longrightarrow> \<not> rt_wanted s \<Longrightarrow> \<not> rt_wanted s' \<and> rt_steps_left (rt_phase s') < rt_steps_left (rt_phase s)"
  by (induction rule: rt_advance.induct) (auto simp: rt_turn_def rt_turn_over_def)

text \<open>
  One consumer is open at most, and none when the loop sleeps or has ended; a crash is always noticed by the turn that runs; once
  stopped, the loop can go on until it has ended, and ends within four steps.
\<close>

lemma one_realtime_consumer:
  assumes "rt_step\<^sup>*\<^sup>* rt_started s"
  shows "(\<exists>n. rt_open s \<subseteq> {n}) \<and> (rt_phase s \<in> {RT_Sleeping, RT_Finished} \<longrightarrow> rt_open s = {} \<and> rt_current s = None)"
    and "rt_phase s = RT_Running n \<Longrightarrow> rt_woken s \<Longrightarrow> \<exists>s'. rt_advance s s' \<and> rt_open s' = {}"
    and "\<not> rt_wanted s \<Longrightarrow> rt_phase s \<noteq> RT_Finished \<Longrightarrow> \<exists>s'. rt_advance s s'"
    and "rt_steps_left (rt_phase s) \<le> 4"
proof -
  have ok: "rt_ok s" using assms by (rule rt_reachable_ok)
  show "(\<exists>n. rt_open s \<subseteq> {n}) \<and> (rt_phase s \<in> {RT_Sleeping, RT_Finished} \<longrightarrow> rt_open s = {} \<and> rt_current s = None)"
    using ok by (cases "rt_phase s") (auto simp: rt_ok_def)
  show "\<exists>s'. rt_advance s s' \<and> rt_open s' = {}" if "rt_phase s = RT_Running n" "rt_woken s"
    using rt_advance.died [OF that] ok that(1) by (intro exI conjI) (auto simp: rt_ok_def)
  show "\<exists>s'. rt_advance s s'" if "\<not> rt_wanted s" "rt_phase s \<noteq> RT_Finished"
    using ok that by (cases "rt_phase s") (auto simp: rt_ok_def intro: rt_advance.intros)
  show "rt_steps_left (rt_phase s) \<le> 4" by (cases "rt_phase s") simp_all
qed

end
