(* ===== verification/Spec2Isabelle.thy ===== *)
theory Spec2Isabelle
  imports Mutation_Concurrency Kitchen_Delivery Offline_Taps Api_Service Print_Recovery Flag_Cache Pos_Screen
    Kitchen_Rail Transport_Switch Realtime_Delivery Service_Worker
    Broker_Session Debug_View Realtime_Supervisor
begin

text \<open>
  Verification of a restaurant point of sale: an API that applies order mutations, a worker that publishes their events, projects
  kitchen tickets and prints them, and browser terminals that queue mutations offline. Every definition is
  executable and translates the TypeScript it is named after; paths below are under \<open>src/\<close>.

  \<^bold>\<open>The write path.\<close> \<open>Contracts\<close> has the data of \<open>packages/contracts\<close>, \<open>Domain_Rules\<close> the rules of \<open>packages/domain\<close>
  (\<open>decide\<close>, the lifecycle, the total) with their declarative specification, \<open>Request_Hash\<close> the canonical text a mutation is
  compared by. \<open>Order_Database\<close> is the tables of \<open>packages/db\<close> as lists of rows with their constraints.
  \<open>Mutation_Handler\<close> is \<open>applyMutation\<close> of \<open>apps/api/.../mutation-handler.ts\<close>, statement by statement, with its signals and the error paths
  that catch them; \<open>Mutation_Effects\<close>, \<open>Order_Invariant\<close> and \<open>Mutation_Properties\<close> give what a request changes on
  every branch and the invariant of the database; \<open>Mutation_Interleaving\<close> and \<open>Mutation_Concurrency\<close> let the reads of a request
  be stale while others commit. \<open>Api_Boundary\<close> and \<open>Api_Service\<close> are the routes with their schemas, replies and counters.

  \<^bold>\<open>Events.\<close> \<open>Outbox_Publisher\<close> is the publisher of \<open>apps/worker\<close> (claims, sends within the lease, failures, release, replay), one SQL
  statement a step; \<open>Outbox_Delivery\<close> and \<open>Outbox_Properties\<close> interleave any number of publishers with crashes. \<open>Broker_Session\<close>
  is the supervised session the passes go through. \<open>Kitchen_Projection\<close> and \<open>Kitchen_Delivery\<close> are the kitchen consumer and its
  composition with the outbox. \<open>Printer_Device\<close>, \<open>Print_Jobs\<close>, \<open>Printing_Pipeline\<close> and \<open>Print_Recovery\<close> are the simulated device, the record of a ticket with its attempts, their interleaving with losses
  and restarts, and the sweep. \<open>Realtime_Delivery\<close> is the API's consumer that broadcasts events to rooms, with the sockets
  that joined them and presence; \<open>Realtime_Supervisor\<close> keeps one such consumer connected.

  \<^bold>\<open>The browser.\<close> \<open>Client_Queue\<close> is the projection of the queue onto the cached order, \<open>Local_Store\<close> the repository over
  IndexedDB with storage that may fail at every call, \<open>Sync_Engine\<close> the engine over arbitrary dependencies, \<open>Client_Api\<close> the calls, the
  offline switch and the simulator's arms, \<open>Order_Store\<close> the Pinia store that joins them (\<open>Order_Store_Sync\<close>, \<open>Store_Rebase\<close>,
  \<open>Halt_Resolution\<close>: what its passes, its rebase and the resolution of a halt do; \<open>End_To_End\<close>: against the API's handler; \<open>Client_Prediction\<close>, \<open>Offline_Taps\<close>: what is on screen offline
  is what the server makes). \<open>Realtime_Client\<close> is the event gate, the bounded refetch and the coalescing loader, \<open>Transport_Switch\<close> the
  choice between socket and polling, \<open>Kitchen_Rail\<close> the kitchen store, \<open>Pos_Screen\<close> what the screen derives from the
  projection. \<open>Service_Worker\<close> is the service worker's policy with its caches, over the platform's URL parser and any network.
  \<open>Feature_Flags\<close> and \<open>Flag_Cache\<close> are the rollout and the versioned cache in front of its table.

  \<^bold>\<open>The debug page.\<close> \<open>Consumer_Lag\<close> is the lag of a group and the admin client that overlapping probes share, \<open>Debug_Routes\<close> the queries,
  the routes and the failure switches, \<open>Health_Report\<close> the probes and the readiness of both processes, \<open>Debug_View\<close> what the page says
  of the answers: the counts of its endpoints agree, what is stuck comes first, a delay the switch accepts is no pause, and nothing is shown
  as caught up or ready that is not.

  \<^bold>\<open>Interfaces.\<close> Each is a locale, interpreted on the code's own definitions: \<open>deduplicated\<close> (a consumer that marks the id it handled;
  the kitchen's projection and the realtime broadcast), \<open>publisher_statement\<close> (what every statement on the outbox keeps),
  \<open>sync_deps\<close> and \<open>working_deps\<close> (what the engine asks of the store and the network), \<open>mutation_server\<close> (what the client asks of the
  server; \<open>applyMutation\<close> behind its route provides it).

  \<^bold>\<open>Bounds.\<close> Loops that the code does not bound are given fuel with a proof that the fuel suffices: a rebase has \<open>rebase_fuel\<close>, the
  length of the queue, the length of the list of storage faults to come and one, and a pass of the store runs its loop once because no function of the store runs
  while another does. That list is finite: storage may fail at any call and any number of times, but works from some call on. Deletions that
  fail for ever, under which the source's rebase never returns, are therefore outside the model; no bound in the queue alone holds
  (\<open>rebase_outlasts_the_queue\<close>). The device remembers 500 keys, the event gate 500 ids, a refetch reads 5 times. Integers of the code are unbounded
  integers where JavaScript's are exact and checked; the bucket of a rollout is computed on 32-bit words, with the wrap-around of
  \<open>Math.imul\<close>.

  \<^bold>\<open>Parameters.\<close> Third-party code is an argument of the definitions that use it: \<open>sha256\<close>, \<open>z.uuid()\<close>, the wire under \<open>fetch\<close>, the
  broker's answers, the printer's losses, the UUIDs drawn. PostgreSQL is modelled by what the code relies on: a statement is
  atomic, a transaction is all or nothing, a locked row is skipped or awaited.

  \<^bold>\<open>What fails.\<close> Some lemmas are about what the code does not do: a request that has not seen the version it is judged on can pay an order
  twice (\<open>uninformed_order_paid_twice\<close>), a failed delete makes a rebase issue an intent twice (\<open>rebase_applies_an_intent_twice\<close>) and any number of them
  that many times (\<open>rebase_outlasts_the_queue\<close>), a failed
  read is reported as a drained queue (\<open>failed_read_counts_as_drained\<close>), a late hydration displaces a new order
  (\<open>hydration_displaces_new_order\<close>), a lost retry of a print waits for the staleness bound (\<open>lost_retry_waits_until_stale\<close>), a late
  answer of the flag poll overrides a latch (\<open>stale_poll_overrides_the_latch\<close>), a call of the loader in the callback's
  window waits for the next (\<open>late_run_waits_for_the_next\<close>), a rejection that comes late leaks a connection of the lag probe
  (\<open>late_rejection_leaks_a_client\<close>), and the page judges staleness by the browser's clock (\<open>fast_browser_sees_everyone_stale\<close>).

  \<^bold>\<open>Not modelled.\<close> The clients of KafkaJS, ioredis and Socket.IO, process start-up and shutdown, logging, the Prometheus
  registry, environment parsing, seeds and scripts, Vue templates, and the demo's script. The stores' functions run to their end one
  after another, except where a theory above says that it interleaves them.
\<close>

end
